(* ===== verification/AA_Prelude.thy ===== *)
theory AA_Prelude
  imports Main "HOL-Library.Word"
begin

text \<open>
  Prelude of the development: the machine types of the C++ sources, big-endian
  byte helpers, and the interfaces (locales) that several components share.

  \<^item> \<open>byte\<close>, \<open>u16\<close>, \<open>u32\<close> are \<open>uint8_t\<close>, \<open>uint16_t\<close> and \<open>uint32_t\<close>;
    \<open>std::size_t\<close> values are natural numbers (every size the code computes is bounded
    far below \<open>2 ^ 64\<close>, so no wrap-around can occur).
  \<^item> \<open>stream_decoder\<close> is the contract of an incremental parser that is fed
    arbitrary slices of a byte stream (\<open>Framer\<close>, \<open>InboundMessageAssembler\<close>).
  \<^item> \<open>bounded_fifo\<close> and its extensions \<open>drop_newest_fifo\<close>, \<open>drop_oldest_fifo\<close>
    are the contracts of the two bounded queues of the program.
  \<^item> \<open>invariant_machine\<close> is the contract of an event-driven component whose
    every enabled event preserves an invariant.
\<close>

unbundle bit_operations_syntax

section \<open>Machine types and bytes\<close>

type_synonym byte = "8 word"
type_synonym u16 = "16 word"
type_synonym u32 = "32 word"
type_synonym bytes = "byte list"

named_theorems byte_simps \<open>facts about splitting numbers into bytes and joining them again\<close>

text \<open>\<open>static_cast<uint8_t>((n >> sh) & 0xFF)\<close> on a \<open>size_t\<close> or \<open>uint32_t\<close> value.\<close>

definition byte_at :: "nat \<Rightarrow> nat \<Rightarrow> byte" where
  "byte_at sh n = word_of_nat (drop_bit sh n AND 0xFF)"

text \<open>\<open>(static_cast<uint16_t>(hi) << 8) | lo\<close>.\<close>

definition be16 :: "byte \<Rightarrow> byte \<Rightarrow> u16" where
  "be16 hi lo = push_bit 8 (ucast hi) OR ucast lo"

text \<open>The two bytes of a \<open>uint16_t\<close>, most significant first.\<close>

definition u16_bytes :: "u16 \<Rightarrow> bytes" where
  "u16_bytes t = [ucast (drop_bit 8 t AND 0xFF), ucast (t AND 0xFF)]"

lemma unat_byte_less [simp]: "unat (b :: byte) < 256"
  using unsigned_less [of b] by simp

lemma byte_at_eq: "byte_at sh n = word_of_nat (n div 2 ^ sh)"
proof -
  have "drop_bit sh n AND 0xFF = take_bit 8 (drop_bit sh n)"
    by (simp add: take_bit_eq_mask mask_eq_exp_minus_1)
  then show ?thesis
    by (simp add: byte_at_def drop_bit_eq_div unsigned_of_nat word_of_nat_eq_iff)
qed

lemma unat_byte_at [byte_simps]: "unat (byte_at sh n) = n div 2 ^ sh mod 256"
  by (simp add: byte_at_eq unsigned_of_nat take_bit_eq_mod)

lemma unat_be16 [byte_simps]: "unat (be16 hi lo) = 256 * unat hi + unat lo"
proof -
  have disj: "push_bit 8 (ucast hi :: u16) AND ucast lo = 0"
    by (rule bit_eqI) (auto simp: bit_simps dest: bit_imp_le_length)
  have hi: "unat (push_bit 8 (ucast hi :: u16)) = 256 * unat hi"
  proof -
    have b: "unat hi < 256" by simp
    have "unat (push_bit 8 (ucast hi :: u16)) = (256 * unat hi) mod 65536"
      by (simp add: push_bit_eq_mult unat_word_ariths unsigned_ucast_eq take_bit_eq_mod mult.commute)
         (use b in \<open>simp add: mod_mult_right_eq\<close>)
    with b show ?thesis by simp
  qed
  have lo: "unat (ucast lo :: u16) = unat lo"
  proof -
    have "unat lo < 65536" using unat_byte_less [of lo] by linarith
    then show ?thesis by (simp add: unsigned_ucast_eq take_bit_eq_mod)
  qed
  have b: "256 * unat hi + unat lo < 65536"
    using unat_byte_less [of hi] unat_byte_less [of lo] by linarith
  have "push_bit 8 (ucast hi :: u16) OR ucast lo = push_bit 8 (ucast hi) + ucast lo"
    using disj by (simp add: disjunctive_add_eq_or)
  moreover have "unat (push_bit 8 (ucast hi :: u16) + ucast lo) = 256 * unat hi + unat lo"
    using hi lo b by (simp add: unat_word_ariths)
  ultimately show ?thesis by (simp add: be16_def)
qed

lemma be16_byte_at [byte_simps]: "n < 65536 \<Longrightarrow> unat (be16 (byte_at 8 n) (byte_at 0 n)) = n"
  by (simp add: unat_be16 unat_byte_at)

lemma unat_be16_less: "unat (be16 hi lo) < 65536"
  using unsigned_less [of "be16 hi lo"] by simp

lemma length_u16_bytes [simp]: "length (u16_bytes t) = 2"
  by (simp add: u16_bytes_def)

lemma be16_u16_bytes [byte_simps]: "be16 (u16_bytes t ! 0) (u16_bytes t ! 1) = t"
proof -
  have m: "(0xFF :: u16) = mask 8"
    by (simp add: mask_eq_exp_minus_1)
  show ?thesis
    by (rule bit_eqI) (auto simp: u16_bytes_def be16_def m bit_simps)
qed

text \<open>What every step of a loop keeps, the loop keeps.\<close>

lemma foldl_preserves:
  assumes "P s" and "\<And>s x. x \<in> set xs \<Longrightarrow> P s \<Longrightarrow> P (f s x)"
  shows "P (foldl f s xs)"
  using assms by (induction xs arbitrary: s) simp_all

section \<open>Interface: incremental parsers\<close>

text \<open>Feeding a list of slices one after the other, collecting the outputs.\<close>

primrec feed_chunks ::
    "('s \<Rightarrow> 'i list \<Rightarrow> 's \<times> 'o list) \<Rightarrow> 's \<Rightarrow> 'i list list \<Rightarrow> 's \<times> 'o list" where
  "feed_chunks feed s [] = (s, [])"
| "feed_chunks feed s (c # cs) =
     (let (s1, o1) = feed s c; (s2, o2) = feed_chunks feed s1 cs in (s2, o1 @ o2))"

locale stream_decoder =
  fixes feed :: "'s \<Rightarrow> 'i list \<Rightarrow> 's \<times> 'o list"
  assumes feed_nil: "feed s [] = (s, [])"
    and feed_append: "feed s (xs @ ys) =
      (let (s1, o1) = feed s xs; (s2, o2) = feed s1 ys in (s2, o1 @ o2))"
begin

lemma feed_chunks_concat: "feed_chunks feed s cs = feed s (concat cs)"
  by (induction cs arbitrary: s) (simp_all add: feed_nil feed_append split: prod.splits)

lemma feed_chunks_resliced:
  "concat cs = concat ds \<Longrightarrow> feed_chunks feed s cs = feed_chunks feed s ds"
  by (simp add: feed_chunks_concat)

end

section \<open>Interface: bounded queues\<close>

locale bounded_fifo =
  fixes enq :: "'q \<Rightarrow> 'a \<Rightarrow> 'q"
    and contents :: "'q \<Rightarrow> 'a list"
    and cap :: nat
  assumes enq_room: "length (contents q) < cap \<Longrightarrow> contents (enq q x) = contents q @ [x]"
    and enq_bound: "length (contents q) \<le> cap \<Longrightarrow> length (contents (enq q x)) \<le> cap"
begin

lemma enq_all_bound:
  "length (contents q) \<le> cap \<Longrightarrow> length (contents (foldl enq q xs)) \<le> cap"
  by (induction xs arbitrary: q) (simp_all add: enq_bound)

lemma enq_all_lossless:
  "length (contents q) + length xs \<le> cap \<Longrightarrow> contents (foldl enq q xs) = contents q @ xs"
  by (induction xs arbitrary: q) (simp_all add: enq_room)

end

locale drop_newest_fifo = bounded_fifo +
  assumes enq_full: "cap \<le> length (contents q) \<Longrightarrow> contents (enq q x) = contents q"
begin

lemma enq_all_prefix:
  "contents (foldl enq q xs) = contents q @ take (cap - length (contents q)) xs"
proof (induction xs arbitrary: q)
  case Nil
  then show ?case by simp
next
  case (Cons x xs)
  show ?case
  proof (cases "length (contents q) < cap")
    case True
    then have "cap - length (contents q) = Suc (cap - Suc (length (contents q)))" by simp
    with True show ?thesis by (simp add: Cons.IH enq_room)
  next
    case False
    then show ?thesis by (simp add: Cons.IH enq_full)
  qed
qed

end

locale drop_oldest_fifo = bounded_fifo +
  assumes enq_full: "length (contents q) = cap \<Longrightarrow> contents (enq q x) = tl (contents q) @ [x]"
    and cap_pos: "0 < cap"
begin

lemma enq_all_suffix:
  "length (contents q) \<le> cap \<Longrightarrow>
   contents (foldl enq q xs) = drop (length (contents q) + length xs - cap) (contents q @ xs)"
proof (induction xs arbitrary: q)
  case Nil
  then show ?case by simp
next
  case (Cons x xs)
  have len: "length (contents (enq q x)) \<le> cap" using Cons.prems by (rule enq_bound)
  show ?case
  proof (cases "length (contents q) < cap")
    case True
    then show ?thesis using Cons.IH [OF len] by (simp add: enq_room)
  next
    case False
    with Cons.prems have full: "length (contents q) = cap" by simp
    with cap_pos obtain y ys where ys: "contents q = y # ys" by (cases "contents q") auto
    have "drop k (x # xs) = drop k [x] @ drop (k - 1) xs" for k
      using drop_append [of k "[x]" xs] by simp
    then show ?thesis using Cons.IH [OF len] full ys by (simp add: enq_full)
  qed
qed

end

section \<open>Interface: event-driven components with an invariant\<close>

primrec run_events :: "('s \<Rightarrow> 'e \<Rightarrow> 's) \<Rightarrow> 's \<Rightarrow> 'e list \<Rightarrow> 's" where
  "run_events step s [] = s"
| "run_events step s (e # es) = run_events step (step s e) es"

primrec run_enabled ::
    "('s \<Rightarrow> 'e \<Rightarrow> bool) \<Rightarrow> ('s \<Rightarrow> 'e \<Rightarrow> 's) \<Rightarrow> 's \<Rightarrow> 'e list \<Rightarrow> bool" where
  "run_enabled en step s [] = True"
| "run_enabled en step s (e # es) = (en s e \<and> run_enabled en step (step s e) es)"

lemma run_events_append [simp]:
  "run_events step s (es @ fs) = run_events step (run_events step s es) fs"
  by (induction es arbitrary: s) simp_all

locale invariant_machine =
  fixes step :: "'s \<Rightarrow> 'e \<Rightarrow> 's"
    and enabled :: "'s \<Rightarrow> 'e \<Rightarrow> bool"
    and inv :: "'s \<Rightarrow> bool"
  assumes step_inv: "inv s \<Longrightarrow> enabled s e \<Longrightarrow> inv (step s e)"
begin

lemma run_inv:
  "inv s \<Longrightarrow> run_enabled enabled step s es \<Longrightarrow> inv (run_events step s es)"
  by (induction es arbitrary: s) (simp_all add: step_inv)

end

end
