(* ===== verification/Protocol.thy ===== *)
theory Protocol
  imports AA_Prelude
begin

text \<open>
  The protocol vocabulary of \<open>core/include/aauto/utils/ProtocolConstants.hpp\<close>,
  \<open>ProtocolUtil.hpp\<close> and \<open>core/src/utils/ProtocolConstants.cpp\<close>: frame constants,
  message-type enumerations with their wire codes, the error category, the frame flags,
  and the names used in log lines.

  An \<open>enum class E : uint16_t\<close> is a datatype with a function giving the code of each
  enumerator; a cast of an arbitrary wire value to the enumeration followed by a
  \<open>switch\<close> is a search for the enumerator with that code, \<open>None\<close> being the
  \<open>default\<close> branch.
\<close>

section \<open>Frame constants\<close>

definition kControlChannelId :: byte where "kControlChannelId = 0"
definition kInputChannelId :: byte where "kInputChannelId = 5"
definition kMaxFramePayloadSize :: nat where "kMaxFramePayloadSize = 16384"
definition kFrameHeaderSize :: nat where "kFrameHeaderSize = 4"

datatype frag_info = FragContinuation | FragFirst | FragLast | FragUnfragmented

primrec frag_info_code :: "frag_info \<Rightarrow> byte" where
  "frag_info_code FragContinuation = 0"
| "frag_info_code FragFirst = 1"
| "frag_info_code FragLast = 2"
| "frag_info_code FragUnfragmented = 3"

section \<open>Message types\<close>

datatype control_message_type =
    VersionRequest | VersionResponse | EncapsulatedSsl | AuthComplete
  | ServiceDiscoveryRequest | ServiceDiscoveryResponse
  | ChannelOpenRequest | ChannelOpenResponse | ChannelCloseNotification
  | PingRequest | PingResponse | NavFocusRequest | NavFocusNotification
  | ByeByeRequest | ByeByeResponse | VoiceSessionNotification
  | AudioFocusRequest | AudioFocusNotification
  | CarConnectedDevicesReq | CarConnectedDevicesResp
  | UserSwitchRequest | BatteryStatusNotification | CallAvailabilityStatus
  | UserSwitchResponse | ServiceDiscoveryUpdate | UnexpectedMessage | CtrlFramingError

primrec ctl :: "control_message_type \<Rightarrow> u16" where
  "ctl VersionRequest = 1"
| "ctl VersionResponse = 2"
| "ctl EncapsulatedSsl = 3"
| "ctl AuthComplete = 4"
| "ctl ServiceDiscoveryRequest = 5"
| "ctl ServiceDiscoveryResponse = 6"
| "ctl ChannelOpenRequest = 7"
| "ctl ChannelOpenResponse = 8"
| "ctl ChannelCloseNotification = 9"
| "ctl PingRequest = 11"
| "ctl PingResponse = 12"
| "ctl NavFocusRequest = 13"
| "ctl NavFocusNotification = 14"
| "ctl ByeByeRequest = 15"
| "ctl ByeByeResponse = 16"
| "ctl VoiceSessionNotification = 17"
| "ctl AudioFocusRequest = 18"
| "ctl AudioFocusNotification = 19"
| "ctl CarConnectedDevicesReq = 20"
| "ctl CarConnectedDevicesResp = 21"
| "ctl UserSwitchRequest = 22"
| "ctl BatteryStatusNotification = 23"
| "ctl CallAvailabilityStatus = 24"
| "ctl UserSwitchResponse = 25"
| "ctl ServiceDiscoveryUpdate = 26"
| "ctl UnexpectedMessage = 255"
| "ctl CtrlFramingError = 65535"

definition all_control_types :: "control_message_type list" where
  "all_control_types =
     [VersionRequest, VersionResponse, EncapsulatedSsl, AuthComplete,
      ServiceDiscoveryRequest, ServiceDiscoveryResponse,
      ChannelOpenRequest, ChannelOpenResponse, ChannelCloseNotification,
      PingRequest, PingResponse, NavFocusRequest, NavFocusNotification,
      ByeByeRequest, ByeByeResponse, VoiceSessionNotification,
      AudioFocusRequest, AudioFocusNotification,
      CarConnectedDevicesReq, CarConnectedDevicesResp,
      UserSwitchRequest, BatteryStatusNotification, CallAvailabilityStatus,
      UserSwitchResponse, ServiceDiscoveryUpdate, UnexpectedMessage, CtrlFramingError]"

definition control_type_of :: "u16 \<Rightarrow> control_message_type option" where
  "control_type_of t = find (\<lambda>c. ctl c = t) all_control_types"

lemma control_type_of_ctl [simp]: "control_type_of (ctl c) = Some c"
  by (cases c) (simp_all add: control_type_of_def all_control_types_def)

lemma control_type_of_Some: "control_type_of t = Some c \<Longrightarrow> ctl c = t"
  by (auto simp: control_type_of_def find_Some_iff)

lemma ctl_inject [simp]: "ctl a = ctl b \<longleftrightarrow> a = b"
  by (metis control_type_of_ctl option.inject)

datatype media_message_type =
    MediaData | MediaCodecConfig | MediaSetup | MediaStart | MediaStop | MediaConfig
  | MediaAck | MicrophoneRequest | MicrophoneResponse
  | VideoFocusRequest | VideoFocusNotification
  | UpdateUiConfigRequest | UpdateUiConfigReply | AudioUnderflow

primrec med :: "media_message_type \<Rightarrow> u16" where
  "med MediaData = 0"
| "med MediaCodecConfig = 1"
| "med MediaSetup = 32768"
| "med MediaStart = 32769"
| "med MediaStop = 32770"
| "med MediaConfig = 32771"
| "med MediaAck = 32772"
| "med MicrophoneRequest = 32773"
| "med MicrophoneResponse = 32774"
| "med VideoFocusRequest = 32775"
| "med VideoFocusNotification = 32776"
| "med UpdateUiConfigRequest = 32777"
| "med UpdateUiConfigReply = 32778"
| "med AudioUnderflow = 32779"

definition all_media_types :: "media_message_type list" where
  "all_media_types =
     [MediaData, MediaCodecConfig, MediaSetup, MediaStart, MediaStop, MediaConfig,
      MediaAck, MicrophoneRequest, MicrophoneResponse,
      VideoFocusRequest, VideoFocusNotification,
      UpdateUiConfigRequest, UpdateUiConfigReply, AudioUnderflow]"

definition media_type_of :: "u16 \<Rightarrow> media_message_type option" where
  "media_type_of t = find (\<lambda>c. med c = t) all_media_types"

lemma media_type_of_med [simp]: "media_type_of (med c) = Some c"
  by (cases c) (simp_all add: media_type_of_def all_media_types_def)

lemma med_inject [simp]: "med a = med b \<longleftrightarrow> a = b"
  by (metis media_type_of_med option.inject)

datatype input_message_type =
  InputReport | KeyBindingRequest | KeyBindingResponse | InputFeedback

primrec inp :: "input_message_type \<Rightarrow> u16" where
  "inp InputReport = 32769"
| "inp KeyBindingRequest = 32770"
| "inp KeyBindingResponse = 32771"
| "inp InputFeedback = 32772"

datatype sensor_message_type = SensorReq | SensorResp | SensorBatchMsg | SensorErr

primrec sen :: "sensor_message_type \<Rightarrow> u16" where
  "sen SensorReq = 32769"
| "sen SensorResp = 32770"
| "sen SensorBatchMsg = 32771"
| "sen SensorErr = 32772"

section \<open>Error codes\<close>

datatype aap_errc =
    AapSuccess | TransportClosed | TransportReadError | TransportWriteError
  | SslHandshakeFailed | VersionMismatch | AuthFailed | ServiceDiscoveryFailed
  | ChannelOpenFailed | ErrPingTimeout | ErrFraming | DecryptionFailed
  | ProtobufParseError | SessionTerminated | ByeByeReceived | ErrInternal

primrec errc_value :: "aap_errc \<Rightarrow> int" where
  "errc_value AapSuccess = 0"
| "errc_value TransportClosed = 1"
| "errc_value TransportReadError = 2"
| "errc_value TransportWriteError = 3"
| "errc_value SslHandshakeFailed = 4"
| "errc_value VersionMismatch = 5"
| "errc_value AuthFailed = 6"
| "errc_value ServiceDiscoveryFailed = 7"
| "errc_value ChannelOpenFailed = 8"
| "errc_value ErrPingTimeout = 9"
| "errc_value ErrFraming = 10"
| "errc_value DecryptionFailed = 11"
| "errc_value ProtobufParseError = 12"
| "errc_value SessionTerminated = 13"
| "errc_value ByeByeReceived = 14"
| "errc_value ErrInternal = 15"

text \<open>
  A \<open>std::error_code\<close> that is not success: one of the program's own category, the
  abort code an asynchronous operation reports when it is cancelled, or any other code
  of the system or of asio (its number).
\<close>

datatype error_code = ErrAap aap_errc | ErrAborted | ErrSystem int

primrec errc_text :: "aap_errc \<Rightarrow> string" where
  "errc_text AapSuccess = ''success''"
| "errc_text TransportClosed = ''transport closed''"
| "errc_text TransportReadError = ''transport read error''"
| "errc_text TransportWriteError = ''transport write error''"
| "errc_text SslHandshakeFailed = ''SSL handshake failed''"
| "errc_text VersionMismatch = ''protocol version mismatch''"
| "errc_text AuthFailed = ''authentication failed''"
| "errc_text ServiceDiscoveryFailed = ''service discovery failed''"
| "errc_text ChannelOpenFailed = ''channel open failed''"
| "errc_text ErrPingTimeout = ''ping timeout''"
| "errc_text ErrFraming = ''framing error''"
| "errc_text DecryptionFailed = ''decryption failed''"
| "errc_text ProtobufParseError = ''protobuf parse error''"
| "errc_text SessionTerminated = ''session terminated''"
| "errc_text ByeByeReceived = ''bye-bye received''"
| "errc_text ErrInternal = ''internal error''"

definition all_errcs :: "aap_errc list" where
  "all_errcs =
     [AapSuccess, TransportClosed, TransportReadError, TransportWriteError,
      SslHandshakeFailed, VersionMismatch, AuthFailed, ServiceDiscoveryFailed,
      ChannelOpenFailed, ErrPingTimeout, ErrFraming, DecryptionFailed,
      ProtobufParseError, SessionTerminated, ByeByeReceived, ErrInternal]"

text \<open>\<open>AapErrorCategory::message(int ev)\<close>: any integer is accepted.\<close>

definition aap_category_message :: "int \<Rightarrow> string" where
  "aap_category_message ev =
     (case find (\<lambda>e. errc_value e = ev) all_errcs of
        Some e \<Rightarrow> errc_text e
      | None \<Rightarrow> ''unknown AAP error'')"

section \<open>Frame flags\<close>

definition kFlagEncrypted :: byte where "kFlagEncrypted = 0x08"
definition kFlagControlOnMedia :: byte where "kFlagControlOnMedia = 0x04"

definition compute_frame_flags :: "byte \<Rightarrow> u16 \<Rightarrow> bool \<Rightarrow> byte" where
  "compute_frame_flags channel msg_type encrypted =
     (let flags = frag_info_code FragUnfragmented;
          flags = (if encrypted then flags OR kFlagEncrypted else flags)
      in if channel \<noteq> kControlChannelId \<and> msg_type \<ge> 1 \<and> msg_type \<le> 0x0013
         then flags OR kFlagControlOnMedia else flags)"

text \<open>
  Every flags byte that is computed says First and Last (an unfragmented frame), carries
  the encrypted bit exactly when asked to, and carries the control bit exactly for message
  types 1 to 19 outside channel 0.
\<close>

lemma compute_frame_flags_bits:
  "compute_frame_flags ch t enc AND 0x01 \<noteq> 0"
  "compute_frame_flags ch t enc AND 0x02 \<noteq> 0"
  "compute_frame_flags ch t enc AND 0x08 \<noteq> 0 \<longleftrightarrow> enc"
  "compute_frame_flags ch t enc AND 0x04 \<noteq> 0 \<longleftrightarrow> ch \<noteq> 0 \<and> 1 \<le> t \<and> t \<le> 19"
  by (simp_all add: compute_frame_flags_def kFlagEncrypted_def kFlagControlOnMedia_def
      kControlChannelId_def Let_def)

end
