(* ===== verification/Framer.thy ===== *)
theory Framer
  imports Protocol "HOL-Library.Sublist"
begin

text \<open>
  The AAP frame parser and encoder: \<open>core/include/aauto/session/Framer.hpp\<close> and
  \<open>core/src/session/Framer.cpp\<close>.

  Received bytes accumulate in \<open>recv_buffer\<close>; \<open>try_parse_fragment\<close> takes one
  complete frame off its front, \<open>parse_loop\<close> is the \<open>while\<close> of \<open>Framer::feed\<close>.
  The callback of \<open>feed\<close> never touches the framer, so the fragments it is called with
  are returned as a list, in order. \<open>framer_encode\<close> is \<open>Framer::encode\<close>, with its
  loop over the payload offset.
\<close>

section \<open>Data\<close>

record aap_fragment =
  frag_channel :: byte
  frag_first :: bool
  frag_last :: bool
  frag_encrypted :: bool
  frag_payload :: bytes

record aap_message =
  msg_channel :: byte
  msg_type :: u16
  msg_payload :: bytes

record outbound_frame =
  out_channel :: byte
  out_flags :: byte
  out_payload :: bytes

record framer =
  recv_buffer :: bytes

definition new_framer :: framer where
  "new_framer = \<lparr>recv_buffer = []\<rparr>"

definition framer_reset :: "framer \<Rightarrow> framer" where
  "framer_reset fr = fr\<lparr>recv_buffer := []\<rparr>"

section \<open>Receive path\<close>

text \<open>
  The header of the frame at the front of the buffer (four bytes are there): whether it is
  the first of several fragments, in which case a four-byte total size that is not counted
  in \<open>payload_length\<close> precedes the payload, and how long the frame is on the wire.
\<close>

definition header_extra_skip :: "bytes \<Rightarrow> nat" where
  "header_extra_skip buf =
     (let flags = buf ! 1;
          is_first = (flags AND 0x01 \<noteq> 0);
          is_last = (flags AND 0x02 \<noteq> 0);
          is_multi_first = (is_first \<and> \<not> is_last)
      in if is_multi_first then 4 else 0)"

definition header_payload_length :: "bytes \<Rightarrow> nat" where
  "header_payload_length buf = unat (be16 (buf ! 2) (buf ! 3))"

definition total_frame_size :: "bytes \<Rightarrow> nat" where
  "total_frame_size buf = kFrameHeaderSize + header_extra_skip buf + header_payload_length buf"

definition parsed_fragment :: "bytes \<Rightarrow> aap_fragment" where
  "parsed_fragment buf =
     \<lparr>frag_channel = buf ! 0,
      frag_first = (buf ! 1 AND 0x01 \<noteq> 0),
      frag_last = (buf ! 1 AND 0x02 \<noteq> 0),
      frag_encrypted = (buf ! 1 AND 0x08 \<noteq> 0),
      frag_payload = take (header_payload_length buf)
        (drop (kFrameHeaderSize + header_extra_skip buf) buf)\<rparr>"

definition try_parse_fragment :: "framer \<Rightarrow> (framer \<times> aap_fragment) option" where
  "try_parse_fragment fr =
     (let buf = recv_buffer fr
      in if length buf < kFrameHeaderSize then None
         else if length buf < total_frame_size buf then None
         else Some (fr\<lparr>recv_buffer := drop (total_frame_size buf) buf\<rparr>, parsed_fragment buf))"

lemma total_frame_size_bounds: "4 \<le> total_frame_size buf" "total_frame_size buf < 65544"
proof -
  have "header_payload_length buf < 65536"
    by (simp add: header_payload_length_def unat_be16_less)
  moreover have "header_extra_skip buf \<le> 4"
    by (simp add: header_extra_skip_def Let_def)
  ultimately show "4 \<le> total_frame_size buf" "total_frame_size buf < 65544"
    by (simp_all add: total_frame_size_def kFrameHeaderSize_def)
qed

lemma header_append:
  assumes "4 \<le> length buf"
  shows "header_extra_skip (buf @ xs) = header_extra_skip buf"
    and "header_payload_length (buf @ xs) = header_payload_length buf"
    and "total_frame_size (buf @ xs) = total_frame_size buf"
  using assms
  by (simp_all add: header_extra_skip_def header_payload_length_def total_frame_size_def nth_append)

lemma parsed_fragment_append:
  assumes "4 \<le> length buf" and "total_frame_size buf \<le> length buf"
  shows "parsed_fragment (buf @ xs) = parsed_fragment buf"
proof -
  have "buf \<noteq> []" using assms by auto
  with assms show ?thesis
    by (simp add: parsed_fragment_def header_append nth_append total_frame_size_def)
qed

lemma try_parse_fragment_Some:
  "try_parse_fragment fr = Some (fr', f) \<longleftrightarrow>
     4 \<le> length (recv_buffer fr) \<and> total_frame_size (recv_buffer fr) \<le> length (recv_buffer fr) \<and>
     fr' = fr\<lparr>recv_buffer := drop (total_frame_size (recv_buffer fr)) (recv_buffer fr)\<rparr> \<and>
     f = parsed_fragment (recv_buffer fr)"
  by (auto simp: try_parse_fragment_def kFrameHeaderSize_def Let_def)

lemma try_parse_fragment_None:
  "try_parse_fragment fr = None \<longleftrightarrow>
     length (recv_buffer fr) < 4 \<or> length (recv_buffer fr) < total_frame_size (recv_buffer fr)"
  by (simp add: try_parse_fragment_def kFrameHeaderSize_def Let_def)

lemma try_parse_fragment_shrinks:
  "try_parse_fragment fr = Some (fr', f) \<Longrightarrow> length (recv_buffer fr') < length (recv_buffer fr)"
  using total_frame_size_bounds(1) [of "recv_buffer fr"] by (auto simp: try_parse_fragment_Some)

function parse_loop :: "framer \<Rightarrow> framer \<times> aap_fragment list" where
  "parse_loop fr =
     (case try_parse_fragment fr of
        None \<Rightarrow> (fr, [])
      | Some (fr1, f) \<Rightarrow> (let (fr2, fs) = parse_loop fr1 in (fr2, f # fs)))"
  by pat_completeness auto
termination
  by (relation "measure (\<lambda>fr. length (recv_buffer fr))")
     (auto dest: try_parse_fragment_shrinks)

declare parse_loop.simps [simp del]

definition framer_feed :: "framer \<Rightarrow> bytes \<Rightarrow> framer \<times> aap_fragment list" where
  "framer_feed fr data =
     (if data = [] then (fr, [])
      else parse_loop (fr\<lparr>recv_buffer := recv_buffer fr @ data\<rparr>))"

section \<open>Send path\<close>

definition encode_single :: "outbound_frame \<Rightarrow> bytes" where
  "encode_single frame =
     (let payload = out_payload frame
      in [out_channel frame, out_flags frame,
          byte_at 8 (length payload), byte_at 0 (length payload)] @ payload)"

definition chunk_size_at :: "outbound_frame \<Rightarrow> nat \<Rightarrow> nat" where
  "chunk_size_at frame offset = min (length (out_payload frame) - offset) kMaxFramePayloadSize"

definition frag_info_at :: "outbound_frame \<Rightarrow> nat \<Rightarrow> frag_info" where
  "frag_info_at frame offset =
     (let is_first_fragment = (offset = 0);
          is_last_fragment = (offset + chunk_size_at frame offset \<ge> length (out_payload frame))
      in if is_first_fragment then FragFirst
         else if is_last_fragment then FragLast
         else FragContinuation)"

definition encode_chunk :: "outbound_frame \<Rightarrow> nat \<Rightarrow> bytes" where
  "encode_chunk frame offset =
     (let payload = out_payload frame;
          chunk_size = chunk_size_at frame offset;
          total = take_bit 32 (length payload)
      in [out_channel frame,
          (out_flags frame AND 0xFC) OR frag_info_code (frag_info_at frame offset),
          byte_at 8 chunk_size, byte_at 0 chunk_size]
         @ (if offset = 0
            then [byte_at 24 total, byte_at 16 total, byte_at 8 total, byte_at 0 total]
            else [])
         @ take chunk_size (drop offset payload))"

function encode_loop :: "outbound_frame \<Rightarrow> nat \<Rightarrow> bytes list" where
  "encode_loop frame offset =
     (if offset < length (out_payload frame)
      then encode_chunk frame offset # encode_loop frame (offset + chunk_size_at frame offset)
      else [])"
  by pat_completeness auto
termination
  by (relation "measure (\<lambda>(frame, offset). length (out_payload frame) - offset)")
     (auto simp: chunk_size_at_def kMaxFramePayloadSize_def)

declare encode_loop.simps [simp del]

definition framer_encode :: "outbound_frame \<Rightarrow> bytes list" where
  "framer_encode frame =
     (if length (out_payload frame) \<le> kMaxFramePayloadSize
      then [encode_single frame]
      else encode_loop frame 0)"

section \<open>The receive path does not depend on how the stream is sliced\<close>

lemma try_parse_fragment_append:
  assumes "try_parse_fragment fr = Some (fr', f)"
  shows "try_parse_fragment (fr\<lparr>recv_buffer := recv_buffer fr @ xs\<rparr>) =
         Some (fr'\<lparr>recv_buffer := recv_buffer fr' @ xs\<rparr>, f)"
  using assms by (auto simp: try_parse_fragment_Some header_append parsed_fragment_append)

lemma parse_loop_append:
  "parse_loop (fr\<lparr>recv_buffer := recv_buffer fr @ xs\<rparr>) =
     (let (fr1, fs1) = parse_loop fr;
          (fr2, fs2) = parse_loop (fr1\<lparr>recv_buffer := recv_buffer fr1 @ xs\<rparr>)
      in (fr2, fs1 @ fs2))"
proof (induction fr rule: parse_loop.induct)
  case (1 fr)
  show ?case
  proof (cases "try_parse_fragment fr")
    case None
    then have "parse_loop fr = (fr, [])" by (simp add: parse_loop.simps [of fr])
    then show ?thesis by simp
  next
    case (Some p)
    then obtain fr1 f where p: "try_parse_fragment fr = Some (fr1, f)" by (cases p) auto
    note IH = "1.IH" [OF p refl]
    show ?thesis
      using try_parse_fragment_append [OF p, of xs] p IH
      by (simp add: parse_loop.simps [of fr]
          parse_loop.simps [of "fr\<lparr>recv_buffer := recv_buffer fr @ xs\<rparr>"] split: prod.splits)
  qed
qed

lemma parse_loop_drained: "try_parse_fragment (fst (parse_loop fr)) = None"
proof (induction fr rule: parse_loop.induct)
  case (1 fr)
  show ?case
  proof (cases "try_parse_fragment fr")
    case None
    then show ?thesis by (simp add: parse_loop.simps [of fr])
  next
    case (Some p)
    then obtain fr1 f where p: "try_parse_fragment fr = Some (fr1, f)" by (cases p) auto
    show ?thesis
      using "1.IH" [OF p refl] p
      by (cases "parse_loop fr1") (simp add: parse_loop.simps [of fr])
  qed
qed

lemma framer_feed_append:
  "framer_feed fr (xs @ ys) =
     (let (s1, o1) = framer_feed fr xs; (s2, o2) = framer_feed s1 ys in (s2, o1 @ o2))"
proof (cases "xs = [] \<or> ys = []")
  case True
  then show ?thesis by (auto simp: framer_feed_def split: prod.splits)
next
  case False
  then show ?thesis
    using parse_loop_append [of "fr\<lparr>recv_buffer := recv_buffer fr @ xs\<rparr>" ys]
    by (simp add: framer_feed_def)
qed

interpretation framer: stream_decoder framer_feed
  by unfold_locales (simp add: framer_feed_def, rule framer_feed_append)

text \<open>After a call of \<open>feed\<close> the buffer never holds a complete frame.\<close>

lemma framer_feed_drained:
  assumes "try_parse_fragment fr = None"
  shows "try_parse_fragment (fst (framer_feed fr data)) = None"
  using assms by (simp add: framer_feed_def parse_loop_drained)

lemma drained_buffer_bound:
  "try_parse_fragment fr = None \<Longrightarrow> length (recv_buffer fr) < 65543"
  using total_frame_size_bounds(2) [of "recv_buffer fr"] by (auto simp: try_parse_fragment_None)

section \<open>Round trip: what is encoded is what the receive path parses\<close>

text \<open>The fragment that the chunk at an offset of a long payload is received as.\<close>

definition chunk_fragment :: "outbound_frame \<Rightarrow> nat \<Rightarrow> aap_fragment" where
  "chunk_fragment frame offset =
     \<lparr>frag_channel = out_channel frame,
      frag_first = (offset = 0),
      frag_last = (offset \<noteq> 0 \<and> offset + chunk_size_at frame offset \<ge> length (out_payload frame)),
      frag_encrypted = (out_flags frame AND 0x08 \<noteq> 0),
      frag_payload = take (chunk_size_at frame offset) (drop offset (out_payload frame))\<rparr>"

definition single_fragment :: "outbound_frame \<Rightarrow> aap_fragment" where
  "single_fragment frame =
     \<lparr>frag_channel = out_channel frame,
      frag_first = (out_flags frame AND 0x01 \<noteq> 0),
      frag_last = (out_flags frame AND 0x02 \<noteq> 0),
      frag_encrypted = (out_flags frame AND 0x08 \<noteq> 0),
      frag_payload = out_payload frame\<rparr>"

text \<open>
  The specification of fragmentation: a non-empty run of fragments on the frame's channel
  that spell its payload, marked First at the start only and Last at the end only.
\<close>

definition carries :: "outbound_frame \<Rightarrow> aap_fragment list \<Rightarrow> bool" where
  "carries frame fs \<longleftrightarrow>
     fs \<noteq> [] \<and> concat (map frag_payload fs) = out_payload frame \<and>
     (\<forall>f\<in>set fs. frag_channel f = out_channel frame \<and>
        frag_encrypted f = (out_flags frame AND 0x08 \<noteq> 0)) \<and>
     frag_first (hd fs) \<and> (\<forall>f\<in>set (tl fs). \<not> frag_first f) \<and>
     frag_last (last fs) \<and> (\<forall>f\<in>set (butlast fs). \<not> frag_last f)"

lemma frag_flag_bits:
  "((fl :: byte) AND 0xFC OR 1) AND 1 \<noteq> 0" "((fl :: byte) AND 0xFC OR 1) AND 2 = 0"
  "((fl :: byte) AND 0xFC OR 2) AND 1 = 0" "((fl :: byte) AND 0xFC OR 2) AND 2 \<noteq> 0"
  "((fl :: byte) AND 0xFC OR 0) AND 1 = 0" "((fl :: byte) AND 0xFC OR 0) AND 2 = 0"
  "((fl :: byte) AND 0xFC OR 1) AND 8 = fl AND 8"
  "((fl :: byte) AND 0xFC OR 2) AND 8 = fl AND 8"
  "((fl :: byte) AND 0xFC OR 0) AND 8 = fl AND 8"
  by (simp_all add: bit.conj_disj_distrib2 and.assoc)

lemma chunk_size_bounds:
  "chunk_size_at frame offset \<le> 16384"
  "offset < length (out_payload frame) \<Longrightarrow> 0 < chunk_size_at frame offset"
  "offset \<le> length (out_payload frame) \<Longrightarrow>
     offset + chunk_size_at frame offset \<le> length (out_payload frame)"
  by (simp_all add: chunk_size_at_def kMaxFramePayloadSize_def)

lemma chunk_zero_not_last:
  "16384 < length (out_payload frame) \<Longrightarrow> chunk_size_at frame 0 = 16384"
  by (simp add: chunk_size_at_def kMaxFramePayloadSize_def)

lemma parse_frame:
  assumes "recv_buffer fr = hdr @ ext @ pl @ rest"
    and "length hdr = 4" and "header_extra_skip hdr = length ext"
    and "header_payload_length hdr = length pl"
  shows "try_parse_fragment fr =
    Some (fr\<lparr>recv_buffer := rest\<rparr>,
      \<lparr>frag_channel = hdr ! 0, frag_first = (hdr ! 1 AND 0x01 \<noteq> 0), frag_last = (hdr ! 1 AND 0x02 \<noteq> 0),
       frag_encrypted = (hdr ! 1 AND 0x08 \<noteq> 0), frag_payload = pl\<rparr>)"
proof -
  have "hdr \<noteq> []" using assms(2) by auto
  then show ?thesis
    using assms header_append [of hdr "ext @ pl @ rest"]
    by (simp add: try_parse_fragment_Some parsed_fragment_def total_frame_size_def
        kFrameHeaderSize_def nth_append)
qed

lemma parse_encode_single:
  assumes "length (out_payload frame) \<le> 16384" and "out_flags frame AND 3 = 3"
  shows "try_parse_fragment (fr\<lparr>recv_buffer := encode_single frame @ rest\<rparr>) =
         Some (fr\<lparr>recv_buffer := rest\<rparr>, single_fragment frame)"
proof -
  let ?n = "length (out_payload frame)"
  let ?hdr = "[out_channel frame, out_flags frame, byte_at 8 ?n, byte_at 0 ?n]"
  have "out_flags frame AND 2 = (out_flags frame AND 3) AND 2"
    by (simp add: and.assoc)
  then have "header_extra_skip ?hdr = length ([] :: bytes)"
    using assms(2) by (simp add: header_extra_skip_def)
  moreover have "header_payload_length ?hdr = ?n"
    using assms(1) by (simp add: header_payload_length_def byte_simps)
  ultimately show ?thesis
    by (subst parse_frame [where hdr = ?hdr and ext = "[]" and pl = "out_payload frame" and rest = rest])
       (simp_all add: encode_single_def single_fragment_def Let_def)
qed

lemma encode_chunk_flags:
  assumes "16384 < length (out_payload frame)"
  defines "fl off \<equiv> out_flags frame AND 0xFC OR frag_info_code (frag_info_at frame off)"
  shows "fl off AND 1 \<noteq> 0 \<longleftrightarrow> off = 0"
    and "fl off AND 2 \<noteq> 0 \<longleftrightarrow> off \<noteq> 0 \<and> off + chunk_size_at frame off \<ge> length (out_payload frame)"
    and "fl off AND 8 = out_flags frame AND 8"
  by (simp_all add: fl_def frag_info_at_def Let_def frag_flag_bits [simplified])

lemma parse_encode_chunk:
  assumes "16384 < length (out_payload frame)" and "off < length (out_payload frame)"
  shows "try_parse_fragment (fr\<lparr>recv_buffer := encode_chunk frame off @ rest\<rparr>) =
         Some (fr\<lparr>recv_buffer := rest\<rparr>, chunk_fragment frame off)"
proof -
  let ?n = "chunk_size_at frame off" and ?len = "take_bit 32 (length (out_payload frame))"
  let ?fl = "out_flags frame AND 0xFC OR frag_info_code (frag_info_at frame off)"
  let ?hdr = "[out_channel frame, ?fl, byte_at 8 ?n, byte_at 0 ?n]"
  let ?ext = "if off = 0 then [byte_at 24 ?len, byte_at 16 ?len, byte_at 8 ?len, byte_at 0 ?len] else []"
  let ?pl = "take ?n (drop off (out_payload frame))"
  note flags = encode_chunk_flags [OF assms(1), of off]
  have n: "?n \<le> 16384" "off + ?n \<le> length (out_payload frame)"
    using chunk_size_bounds(1) [of frame off] chunk_size_bounds(3) [where offset = off and frame = frame]
      assms(2) by auto
  have "header_extra_skip ?hdr = length ?ext"
    using flags assms(1) by (simp add: header_extra_skip_def chunk_zero_not_last)
  moreover have "header_payload_length ?hdr = length ?pl"
    using n by (simp add: header_payload_length_def byte_simps)
  moreover have "encode_chunk frame off @ rest = ?hdr @ ?ext @ ?pl @ rest"
    by (simp add: encode_chunk_def Let_def)
  ultimately show ?thesis
    by (subst parse_frame [where hdr = ?hdr and ext = ?ext and pl = ?pl and rest = rest])
       (use flags in \<open>simp_all add: chunk_fragment_def\<close>)
qed

function chunk_fragments :: "outbound_frame \<Rightarrow> nat \<Rightarrow> aap_fragment list" where
  "chunk_fragments frame offset =
     (if offset < length (out_payload frame)
      then chunk_fragment frame offset # chunk_fragments frame (offset + chunk_size_at frame offset)
      else [])"
  by pat_completeness auto
termination
  by (relation "measure (\<lambda>(frame, offset). length (out_payload frame) - offset)")
     (auto simp: chunk_size_at_def kMaxFramePayloadSize_def)

declare chunk_fragments.simps [simp del]

definition fragments_of :: "outbound_frame \<Rightarrow> aap_fragment list" where
  "fragments_of frame =
     (if length (out_payload frame) \<le> 16384 then [single_fragment frame]
      else chunk_fragments frame 0)"

lemma parse_loop_step:
  "try_parse_fragment fr = Some (fr1, f) \<Longrightarrow>
   parse_loop fr = (fst (parse_loop fr1), f # snd (parse_loop fr1))"
  by (simp add: parse_loop.simps [of fr] split: prod.splits)

lemma parse_encode_loop:
  assumes "16384 < length (out_payload frame)"
  shows "parse_loop (fr\<lparr>recv_buffer := concat (encode_loop frame off) @ rest\<rparr>) =
         (fst (parse_loop (fr\<lparr>recv_buffer := rest\<rparr>)),
          chunk_fragments frame off @ snd (parse_loop (fr\<lparr>recv_buffer := rest\<rparr>)))"
  using assms
proof (induction frame off rule: encode_loop.induct)
  case (1 frame off)
  show ?case
  proof (cases "off < length (out_payload frame)")
    case True
    let ?tail = "concat (encode_loop frame (off + chunk_size_at frame off)) @ rest"
    have "parse_loop (fr\<lparr>recv_buffer := encode_chunk frame off @ ?tail\<rparr>) =
          (fst (parse_loop (fr\<lparr>recv_buffer := ?tail\<rparr>)),
           chunk_fragment frame off # snd (parse_loop (fr\<lparr>recv_buffer := ?tail\<rparr>)))"
      by (rule parse_loop_step, rule parse_encode_chunk [OF "1.prems" True])
    with True "1.IH" [OF True "1.prems"] show ?thesis
      by (simp add: encode_loop.simps [of frame off] chunk_fragments.simps [of frame off])
  next
    case False
    then show ?thesis
      by (simp add: encode_loop.simps [of frame off] chunk_fragments.simps [of frame off])
  qed
qed

lemma parse_framer_encode:
  assumes "out_flags frame AND 3 = 3"
  shows "parse_loop (fr\<lparr>recv_buffer := concat (framer_encode frame) @ rest\<rparr>) =
         (fst (parse_loop (fr\<lparr>recv_buffer := rest\<rparr>)),
          fragments_of frame @ snd (parse_loop (fr\<lparr>recv_buffer := rest\<rparr>)))"
  using assms
  by (simp add: framer_encode_def fragments_of_def kMaxFramePayloadSize_def parse_encode_loop
      parse_loop_step [OF parse_encode_single])

lemma parse_loop_empty: "recv_buffer fr = [] \<Longrightarrow> parse_loop fr = (fr, [])"
  by (simp add: parse_loop.simps [of fr] try_parse_fragment_def kFrameHeaderSize_def)

lemma parse_framer_encode_all:
  assumes "\<forall>frame\<in>set frames. out_flags frame AND 3 = 3"
  shows "parse_loop \<lparr>recv_buffer = concat (concat (map framer_encode frames))\<rparr> =
         (new_framer, concat (map fragments_of frames))"
  using assms
proof (induction frames)
  case Nil
  then show ?case by (simp add: parse_loop_empty new_framer_def)
next
  case (Cons frame frames)
  then show ?case
    using parse_framer_encode [where fr = new_framer and frame = frame
        and rest = "concat (concat (map framer_encode frames))"]
    by (simp add: new_framer_def)
qed

lemma chunk_fragments_tail:
  "0 < off \<Longrightarrow> off < length (out_payload frame) \<Longrightarrow> chunk_fragments frame off \<noteq> [] \<and>
   concat (map frag_payload (chunk_fragments frame off)) = drop off (out_payload frame) \<and>
   (\<forall>f\<in>set (chunk_fragments frame off). \<not> frag_first f \<and> frag_channel f = out_channel frame \<and>
      frag_encrypted f = (out_flags frame AND 8 \<noteq> 0)) \<and>
   frag_last (last (chunk_fragments frame off)) \<and>
   (\<forall>f\<in>set (butlast (chunk_fragments frame off)). \<not> frag_last f)"
proof (induction frame off rule: chunk_fragments.induct)
  case (1 frame off)
  let ?next = "off + chunk_size_at frame off"
  have eq: "chunk_fragments frame off = chunk_fragment frame off # chunk_fragments frame ?next"
    using "1.prems" by (simp add: chunk_fragments.simps [of frame off])
  have le: "?next \<le> length (out_payload frame)" "off < ?next"
    using "1.prems" chunk_size_bounds(2,3) [where offset = off and frame = frame] by auto
  have split: "take (chunk_size_at frame off) (drop off (out_payload frame)) @ drop ?next (out_payload frame)
      = drop off (out_payload frame)"
    by (metis append_take_drop_id drop_drop add.commute)
  show ?case
  proof (cases "?next < length (out_payload frame)")
    case True
    with le "1.IH" "1.prems" eq split show ?thesis
      by (auto simp: chunk_fragment_def)
  next
    case False
    with le have "?next = length (out_payload frame)" by simp
    moreover have "chunk_fragments frame ?next = []"
      using False by (subst chunk_fragments.simps) simp
    ultimately show ?thesis
      using eq split "1.prems" by (auto simp: chunk_fragment_def)
  qed
qed

lemma fragments_of_carries:
  assumes "out_flags frame AND 3 = 3"
  shows "carries frame (fragments_of frame)"
proof (cases "length (out_payload frame) \<le> 16384")
  case True
  have "out_flags frame AND 1 = (out_flags frame AND 3) AND 1"
    and "out_flags frame AND 2 = (out_flags frame AND 3) AND 2"
    by (simp_all add: and.assoc)
  with True assms show ?thesis
    by (simp add: carries_def fragments_of_def single_fragment_def)
next
  case False
  then have len: "16384 < length (out_payload frame)" by simp
  have ne: "out_payload frame \<noteq> []"
  proof
    assume "out_payload frame = []"
    with len show False by simp
  qed
  have eq: "fragments_of frame = chunk_fragment frame 0 # chunk_fragments frame 16384"
    using len ne
    by (simp add: fragments_of_def chunk_fragments.simps [of frame 0] chunk_zero_not_last)
  have tl: "take 16384 (out_payload frame) @ drop 16384 (out_payload frame) = out_payload frame"
    by simp
  show ?thesis
    using chunk_fragments_tail [of 16384 frame] len ne tl
    by (auto simp: carries_def eq chunk_fragment_def chunk_zero_not_last)
qed

section \<open>Properties\<close>

text \<open>
  C2. Round trip of the framing layer. Encode any sequence of frames whose flags say
  unfragmented (as \<open>compute_frame_flags\<close> makes them), put the wire bytes one after the
  other, cut the stream into slices at any positions, and feed the slices to a fresh
  framer: it returns, for every frame in order, a run of fragments that carries it (its
  payload, channel and encrypted bit, First only at the start and Last only at the end),
  and keeps no byte.
\<close>

theorem framer_roundtrip:
  assumes "\<forall>frame\<in>set frames. out_flags frame AND 3 = 3"
    and "concat slices = concat (concat (map framer_encode frames))"
  shows "\<exists>groups. feed_chunks framer_feed new_framer slices = (new_framer, concat groups)
           \<and> list_all2 carries frames groups"
proof (intro exI conjI)
  have "feed_chunks framer_feed new_framer slices =
        framer_feed new_framer (concat (concat (map framer_encode frames)))"
    by (simp add: framer.feed_chunks_concat assms(2))
  also have "\<dots> = parse_loop \<lparr>recv_buffer = concat (concat (map framer_encode frames))\<rparr>"
    by (auto simp: framer_feed_def new_framer_def parse_loop_empty)
  also have "\<dots> = (new_framer, concat (map fragments_of frames))"
    by (rule parse_framer_encode_all [OF assms(1)])
  finally show "feed_chunks framer_feed new_framer slices =
                (new_framer, concat (map fragments_of frames))" .
  show "list_all2 carries frames (map fragments_of frames)"
    using assms(1) by (simp add: list_all2_conv_all_nth fragments_of_carries)
qed

theorem framer_roundtrip_witness:
  "\<exists>groups. feed_chunks framer_feed new_framer [[5], [15, 0, 3, 1], [2, 3, 0, 3, 0], [0]] =
       (new_framer, concat groups)
     \<and> list_all2 carries [\<lparr>out_channel = 5, out_flags = 15, out_payload = [1, 2, 3]\<rparr>,
                          \<lparr>out_channel = 0, out_flags = 3, out_payload = []\<rparr>] groups"
  by (rule framer_roundtrip)
     (simp_all add: framer_encode_def encode_single_def kMaxFramePayloadSize_def byte_at_eq Let_def)

lemma parse_whole_frame:
  assumes "try_parse_fragment (fr\<lparr>recv_buffer := w\<rparr>) = Some (fr\<lparr>recv_buffer := []\<rparr>, f)"
  shows "4 \<le> length w \<and> total_frame_size w = length w"
proof -
  from assms have le: "4 \<le> length w" "total_frame_size w \<le> length w"
    and eq: "fr\<lparr>recv_buffer := []\<rparr> = fr\<lparr>recv_buffer := drop (total_frame_size w) w\<rparr>"
    by (simp_all add: try_parse_fragment_Some)
  from arg_cong [OF eq, of recv_buffer] have "drop (total_frame_size w) w = []" by simp
  with le show ?thesis by simp
qed

lemma encode_loop_frames:
  assumes "16384 < length (out_payload frame)" and "w \<in> set (encode_loop frame off)"
  shows "w ! 0 = out_channel frame \<and> 4 \<le> length w \<and> length w \<le> 16392 \<and> total_frame_size w = length w"
  using assms
proof (induction frame off rule: encode_loop.induct)
  case (1 frame off)
  show ?case
  proof (cases "w = encode_chunk frame off \<and> off < length (out_payload frame)")
    case True
    then have off: "off < length (out_payload frame)" by simp
    have "length w \<le> 16392" "w ! 0 = out_channel frame"
      using True chunk_size_bounds(1) [of frame off] by (auto simp: encode_chunk_def Let_def)
    moreover have "4 \<le> length w \<and> total_frame_size w = length w"
      using parse_encode_chunk [OF "1.prems"(1) off, where fr = new_framer and rest = "[]"] True
      by (simp add: parse_whole_frame)
    ultimately show ?thesis by simp
  next
    case False
    with "1.prems" have "off < length (out_payload frame)"
      and "w \<in> set (encode_loop frame (off + chunk_size_at frame off))"
      by (auto simp: encode_loop.simps [of frame off] split: if_splits)
    with "1.IH" "1.prems"(1) show ?thesis by simp
  qed
qed

lemma encode_loop_count:
  "off \<le> length (out_payload frame) \<Longrightarrow>
   length (encode_loop frame off) = (length (out_payload frame) - off + 16383) div 16384"
proof (induction frame off rule: encode_loop.induct)
  case (1 frame off)
  let ?n = "length (out_payload frame) - off"
  show ?case
  proof (cases "off < length (out_payload frame)")
    case True
    have le: "off + chunk_size_at frame off \<le> length (out_payload frame)"
      using True chunk_size_bounds(3) [where offset = off and frame = frame] by simp
    have "length (encode_loop frame off) = Suc ((?n - min ?n 16384 + 16383) div 16384)"
      using "1.IH" [OF True le] True
      by (simp add: encode_loop.simps [of frame off] chunk_size_at_def kMaxFramePayloadSize_def)
    also have "\<dots> = (?n + 16383) div 16384"
      using True by (cases "?n \<le> 16384") (auto simp: div_if)
    finally show ?thesis .
  next
    case False
    with "1.prems" have "off = length (out_payload frame)" by simp
    moreover have "encode_loop frame off = []"
      using False by (subst encode_loop.simps) simp
    ultimately show ?thesis by simp
  qed
qed

lemma encoded_frames:
  assumes "out_flags frame AND 3 = 3" and "w \<in> set (framer_encode frame)"
  shows "w ! 0 = out_channel frame \<and> 4 \<le> length w \<and> length w \<le> 16392 \<and> total_frame_size w = length w"
proof (cases "length (out_payload frame) \<le> 16384")
  case True
  have "4 \<le> length (encode_single frame)
      \<and> total_frame_size (encode_single frame) = length (encode_single frame)"
    using parse_encode_single [OF True assms(1), where fr = new_framer and rest = "[]"]
    by (simp add: parse_whole_frame)
  with True assms(2) show ?thesis
    by (simp add: framer_encode_def kMaxFramePayloadSize_def encode_single_def Let_def)
next
  case False
  with assms(2) encode_loop_frames [of frame w 0] show ?thesis
    by (simp add: framer_encode_def kMaxFramePayloadSize_def)
qed

text \<open>
  C36. Shape and bounds of what \<open>Framer::encode\<close> puts on the wire. Every wire frame starts
  with the channel, is at most 16392 bytes long, and its header announces exactly its own
  size; the number of wire frames is one for a payload of up to 16384 bytes and the payload
  size divided by 16384, rounded up, otherwise.
\<close>

theorem framer_encode_wire_frames:
  assumes "out_flags frame AND 3 = 3"
  shows "(\<forall>w\<in>set (framer_encode frame).
            w ! 0 = out_channel frame \<and> 4 \<le> length w \<and> length w \<le> 16392
            \<and> total_frame_size w = length w)
         \<and> length (framer_encode frame) = max 1 ((length (out_payload frame) + 16383) div 16384)"
proof (cases "length (out_payload frame) \<le> 16384")
  case True
  then have "(length (out_payload frame) + 16383) div 16384 \<le> 1" by linarith
  with True encoded_frames [OF assms] show ?thesis
    by (simp add: framer_encode_def kMaxFramePayloadSize_def max_def)
next
  case False
  then have "1 \<le> (length (out_payload frame) + 16383) div 16384" by linarith
  with False encoded_frames [OF assms] encode_loop_count [of 0 frame] show ?thesis
    by (simp add: framer_encode_def kMaxFramePayloadSize_def max_def)
qed

theorem framer_encode_wire_frames_witness:
  "length (framer_encode \<lparr>out_channel = 1, out_flags = 0x0B, out_payload = replicate 40000 7\<rparr>) = 3"
  using framer_encode_wire_frames
    [of "\<lparr>out_channel = 1, out_flags = 0x0B, out_payload = replicate 40000 7\<rparr>"]
  by simp

lemma parse_loop_suffix: "suffix (recv_buffer (fst (parse_loop fr))) (recv_buffer fr)"
proof (induction fr rule: parse_loop.induct)
  case (1 fr)
  show ?case
  proof (cases "try_parse_fragment fr")
    case None
    then show ?thesis by (simp add: parse_loop.simps [of fr])
  next
    case (Some p)
    then obtain fr1 f where p: "try_parse_fragment fr = Some (fr1, f)" by (cases p) auto
    then have "suffix (recv_buffer fr1) (recv_buffer fr)"
      by (simp add: try_parse_fragment_Some suffix_drop)
    then show ?thesis
      using "1.IH" [OF p refl] parse_loop_step [OF p] by (simp add: suffix_order.trans)
  qed
qed

text \<open>
  The receive buffer is bounded whatever the peer sends. After any sequence of slices,
  well-formed or not, the buffer is a suffix of the bytes received, holds no complete frame,
  and is shorter than 65543 bytes (a maximal header plus a maximal payload).
\<close>

theorem framer_buffer_bounded:
  "let fr = fst (feed_chunks framer_feed new_framer slices)
   in suffix (recv_buffer fr) (concat slices) \<and> try_parse_fragment fr = None
      \<and> length (recv_buffer fr) < 65543"
proof -
  let ?fr = "fst (feed_chunks framer_feed new_framer slices)"
  have fr: "?fr = fst (framer_feed new_framer (concat slices))"
    by (simp add: framer.feed_chunks_concat)
  have "try_parse_fragment new_framer = None"
    by (simp add: try_parse_fragment_None new_framer_def)
  then have none: "try_parse_fragment ?fr = None"
    by (simp only: fr framer_feed_drained)
  moreover have "suffix (recv_buffer ?fr) (concat slices)"
    using parse_loop_suffix [of "\<lparr>recv_buffer = concat slices\<rparr>"]
    unfolding fr by (simp add: framer_feed_def new_framer_def)
  ultimately show ?thesis
    by (simp add: Let_def drained_buffer_bound)
qed

end
