(* ===== verification/Crypto.thy ===== *)
theory Crypto
  imports Protocol
begin

text \<open>
  The crypto port \<open>ICryptoStrategy\<close> (\<open>core/include/aauto/crypto/ICryptoStrategy.hpp\<close>)
  and the pass-through strategy of the test suite (\<open>tests/core/mock/MockCrypto.hpp\<close>).

  A strategy object is a state of some type \<open>'c\<close>; the interface is a record of its
  operations. Every handler of the port is called exactly once, before the operation
  returns (both strategies of the repository do so), hence an operation returns the new
  state together with what it passes to its handler: an error code, or the result.

  The locale \<open>crypto_channel\<close> is the contract the message layer relies on: a sender
  state and a receiver state can be in step (\<open>sync\<close>), and then whatever the sender
  encrypts, the receiver decrypts, in however many consecutive pieces the ciphertext
  arrives.
\<close>

section \<open>The port\<close>

record handshake_result =
  output_bytes :: bytes
  complete :: bool

record 'c crypto_ops =
  handshake_step :: "bytes \<Rightarrow> 'c \<Rightarrow> 'c \<times> (error_code + handshake_result)"
  encrypt :: "bytes \<Rightarrow> 'c \<Rightarrow> 'c \<times> (error_code + bytes)"
  decrypt :: "bytes \<Rightarrow> 'c \<Rightarrow> 'c \<times> (error_code + bytes)"
  is_established :: "'c \<Rightarrow> bool"
  crypto_reset :: "'c \<Rightarrow> 'c"

text \<open>Decrypting consecutive pieces of a ciphertext, stopping at the first error.\<close>

primrec decrypt_pieces :: "'c crypto_ops \<Rightarrow> bytes list \<Rightarrow> 'c \<Rightarrow> 'c \<times> (error_code + bytes)" where
  "decrypt_pieces ops [] c = (c, Inr [])"
| "decrypt_pieces ops (x # xs) c =
     (case decrypt ops x c of
        (c1, Inl e) \<Rightarrow> (c1, Inl e)
      | (c1, Inr p) \<Rightarrow>
          (case decrypt_pieces ops xs c1 of
             (c2, Inl e) \<Rightarrow> (c2, Inl e)
           | (c2, Inr q) \<Rightarrow> (c2, Inr (p @ q))))"

locale crypto_channel =
  fixes ops :: "'c crypto_ops"
    and sync :: "'c \<Rightarrow> 'c \<Rightarrow> bool"
  assumes sync_established: "sync s r \<Longrightarrow> is_established ops s \<and> is_established ops r"
    and decrypt_keeps_established:
      "is_established ops (fst (decrypt ops x r)) = is_established ops r"
    and encrypt_decrypt:
      "sync s r \<Longrightarrow> encrypt ops p s = (s', Inr ct) \<Longrightarrow> concat pieces = ct \<Longrightarrow>
       \<exists>r'. decrypt_pieces ops pieces r = (r', Inr p) \<and> sync s' r'"

section \<open>The pass-through strategy of the tests\<close>

record mock_crypto =
  mock_established :: bool

definition mock_handshake_step ::
    "bytes \<Rightarrow> mock_crypto \<Rightarrow> mock_crypto \<times> (error_code + handshake_result)" where
  "mock_handshake_step input_data m =
     (m\<lparr>mock_established := True\<rparr>, Inr \<lparr>output_bytes = [], complete = True\<rparr>)"

definition mock_encrypt :: "bytes \<Rightarrow> mock_crypto \<Rightarrow> mock_crypto \<times> (error_code + bytes)" where
  "mock_encrypt plaintext m = (m, Inr plaintext)"

definition mock_decrypt :: "bytes \<Rightarrow> mock_crypto \<Rightarrow> mock_crypto \<times> (error_code + bytes)" where
  "mock_decrypt ciphertext m = (m, Inr ciphertext)"

definition mock_ops :: "mock_crypto crypto_ops" where
  "mock_ops =
     \<lparr>handshake_step = mock_handshake_step, encrypt = mock_encrypt, decrypt = mock_decrypt,
      is_established = mock_established, crypto_reset = (\<lambda>m. m\<lparr>mock_established := False\<rparr>)\<rparr>"

definition mock_sync :: "mock_crypto \<Rightarrow> mock_crypto \<Rightarrow> bool" where
  "mock_sync s r \<longleftrightarrow> mock_established s \<and> mock_established r"

lemma mock_decrypt_pieces: "decrypt_pieces mock_ops pieces m = (m, Inr (concat pieces))"
  by (induction pieces) (simp_all add: mock_ops_def mock_decrypt_def)

interpretation mock: crypto_channel mock_ops mock_sync
proof
  show "is_established mock_ops s \<and> is_established mock_ops r" if "mock_sync s r" for s r
    using that by (simp add: mock_sync_def mock_ops_def)
  show "is_established mock_ops (fst (decrypt mock_ops x r)) = is_established mock_ops r" for x r
    by (simp add: mock_ops_def mock_decrypt_def)
  show "\<exists>r'. decrypt_pieces mock_ops pieces r = (r', Inr p) \<and> mock_sync s' r'"
    if "mock_sync s r" and "encrypt mock_ops p s = (s', Inr ct)" and "concat pieces = ct"
    for s r p s' ct pieces
    using that by (auto simp: mock_decrypt_pieces) (auto simp: mock_ops_def mock_encrypt_def)
qed

end
