(* ===== verification/Outbound.thy ===== *)
theory Outbound
  imports Framer Crypto
begin

text \<open>
  \<open>OutboundMessageEncoder\<close> (\<open>core/src/session/OutboundMessageEncoder.cpp\<close>): from a typed
  message to the wire frames handed to the write queue. Each operation returns the new
  crypto state and either the error passed to \<open>on_error_\<close> or the frames passed, in
  order, to \<open>enqueue_frame_\<close>.
\<close>

definition build_message_payload :: "u16 \<Rightarrow> bytes \<Rightarrow> bytes" where
  "build_message_payload message_type payload = u16_bytes message_type @ payload"

definition queue_encoded_frame :: "byte \<Rightarrow> u16 \<Rightarrow> bool \<Rightarrow> bytes \<Rightarrow> bytes list" where
  "queue_encoded_frame channel_id message_type encrypted payload =
     framer_encode \<lparr>out_channel = channel_id,
       out_flags = compute_frame_flags channel_id message_type encrypted,
       out_payload = payload\<rparr>"

definition encrypt_and_queue_frame ::
    "'c crypto_ops \<Rightarrow> byte \<Rightarrow> byte \<Rightarrow> bytes \<Rightarrow> 'c \<Rightarrow> 'c \<times> (error_code + bytes list)" where
  "encrypt_and_queue_frame ops channel_id flags plaintext c =
     (case encrypt ops plaintext c of
        (c1, Inl ec) \<Rightarrow> (c1, Inl ec)
      | (c1, Inr ciphertext) \<Rightarrow>
          (c1, Inr (framer_encode
             \<lparr>out_channel = channel_id, out_flags = flags, out_payload = ciphertext\<rparr>)))"

definition encoder_send_message ::
    "'c crypto_ops \<Rightarrow> byte \<Rightarrow> u16 \<Rightarrow> bytes \<Rightarrow> 'c \<Rightarrow> 'c \<times> (error_code + bytes list)" where
  "encoder_send_message ops channel_id message_type payload c =
     (let full_payload = build_message_payload message_type payload
      in if is_established ops c
         then encrypt_and_queue_frame ops channel_id
                (compute_frame_flags channel_id message_type True) full_payload c
         else (c, Inr (queue_encoded_frame channel_id message_type False full_payload)))"

definition send_plaintext_control_message :: "u16 \<Rightarrow> bytes \<Rightarrow> bytes list" where
  "send_plaintext_control_message message_type payload =
     queue_encoded_frame kControlChannelId message_type False
       (build_message_payload message_type payload)"

text \<open>Sending a list of messages, as long as no encryption fails.\<close>

primrec encoder_send_all ::
    "'c crypto_ops \<Rightarrow> aap_message list \<Rightarrow> 'c \<Rightarrow> 'c \<times> (error_code + bytes list)" where
  "encoder_send_all ops [] c = (c, Inr [])"
| "encoder_send_all ops (m # ms) c =
     (case encoder_send_message ops (msg_channel m) (msg_type m) (msg_payload m) c of
        (c1, Inl ec) \<Rightarrow> (c1, Inl ec)
      | (c1, Inr ws) \<Rightarrow>
          (case encoder_send_all ops ms c1 of
             (c2, Inl ec) \<Rightarrow> (c2, Inl ec)
           | (c2, Inr vs) \<Rightarrow> (c2, Inr (ws @ vs))))"

lemma compute_frame_flags_unfragmented [simp]: "compute_frame_flags ch t enc AND 3 = 3"
  by (simp add: compute_frame_flags_def kFlagEncrypted_def kFlagControlOnMedia_def Let_def)

lemma length_build_message_payload [simp]:
  "length (build_message_payload t payload) = 2 + length payload"
  by (simp add: build_message_payload_def)

end
