(* ===== verification/Handshake.thy ===== *)
theory Handshake
  imports Outbound
begin

text \<open>
  \<open>HandshakeCoordinator\<close> (\<open>core/src/session/HandshakeCoordinator.cpp\<close>): the version check
  and the SSL exchange. The coordinator keeps no state of its own. What it does with its
  three handlers is a list of actions in the order of the calls; none of them depends on
  what an earlier handler did.
\<close>

datatype hs_action = HsSend u16 bytes | HsComplete | HsError error_code

definition handle_handshake_step_result :: "error_code + handshake_result \<Rightarrow> hs_action list" where
  "handle_handshake_step_result res =
     (case res of
        Inl ec \<Rightarrow> [HsError (ErrAap SslHandshakeFailed)]
      | Inr result \<Rightarrow>
          (if output_bytes result \<noteq> [] then [HsSend (ctl EncapsulatedSsl) (output_bytes result)] else [])
          @ (if complete result then [HsComplete] else []))"

definition on_ssl_data_received ::
    "'c crypto_ops \<Rightarrow> bytes \<Rightarrow> 'c \<Rightarrow> 'c \<times> hs_action list" where
  "on_ssl_data_received ops data c =
     (let (c1, res) = handshake_step ops data c in (c1, handle_handshake_step_result res))"

definition begin_ssl_handshake :: "'c crypto_ops \<Rightarrow> 'c \<Rightarrow> 'c \<times> hs_action list" where
  "begin_ssl_handshake ops c =
     (let (c1, res) = handshake_step ops [] c in (c1, handle_handshake_step_result res))"

definition version_status :: "bytes \<Rightarrow> u16" where
  "version_status payload = be16 (payload ! 4) (payload ! 5)"

definition version_accepted :: "bytes \<Rightarrow> bool" where
  "version_accepted payload \<longleftrightarrow> \<not> (length payload \<ge> 6 \<and> version_status payload \<noteq> 0)"

definition coord_on_version_response ::
    "'c crypto_ops \<Rightarrow> bytes \<Rightarrow> 'c \<Rightarrow> 'c \<times> hs_action list" where
  "coord_on_version_response ops payload c =
     (if \<not> version_accepted payload then (c, [HsError (ErrAap VersionMismatch)])
      else begin_ssl_handshake ops c)"

lemma version_status_zero:
  "version_status payload = 0 \<longleftrightarrow> payload ! 4 = 0 \<and> payload ! 5 = 0"
proof -
  have "version_status payload = 0 \<longleftrightarrow> unat (version_status payload) = 0"
    by (simp add: unat_eq_zero)
  also have "\<dots> \<longleftrightarrow> unat (payload ! 4) = 0 \<and> unat (payload ! 5) = 0"
    by (simp add: version_status_def unat_be16)
  finally show ?thesis by (simp add: unat_eq_zero)
qed

text \<open>
  The coordinator goes on exactly with phones that accept the version. A response with
  a status word is refused if and only if one of the status bytes is not zero, and then no
  crypto is touched and VersionMismatch is the only action; an accepted or short response
  starts the handshake, whose failure is SslHandshakeFailed; and completion is only ever
  signalled last.
\<close>

theorem version_response_decides:
  "if length payload \<ge> 6 \<and> \<not> (payload ! 4 = 0 \<and> payload ! 5 = 0)
   then coord_on_version_response ops payload c = (c, [HsError (ErrAap VersionMismatch)])
   else fst (coord_on_version_response ops payload c) = fst (handshake_step ops [] c)
     \<and> (case snd (handshake_step ops [] c) of
          Inl ec \<Rightarrow> snd (coord_on_version_response ops payload c) = [HsError (ErrAap SslHandshakeFailed)]
        | Inr result \<Rightarrow>
            (HsComplete \<in> set (snd (coord_on_version_response ops payload c))) = complete result
            \<and> HsComplete \<notin> set (butlast (snd (coord_on_version_response ops payload c)))
            \<and> (\<forall>ec. HsError ec \<notin> set (snd (coord_on_version_response ops payload c))))"
  by (auto simp: coord_on_version_response_def version_accepted_def version_status_zero
      begin_ssl_handshake_def handle_handshake_step_result_def split_beta Let_def split: sum.split)

end
