(* ===== verification/Inbound.thy ===== *)
theory Inbound
  imports Outbound
begin

text \<open>
  \<open>InboundMessageAssembler\<close> (\<open>core/src/session/InboundMessageAssembler.cpp\<close>): fragments are
  decrypted one by one and collected per channel until the last one of a message is there.

  \<open>assembler_on_fragment\<close> is the lambda that \<open>feed\<close> hands to the framer: it takes and
  returns the crypto state and the per-channel buffers (\<open>channel_payloads_\<close>, a map whose
  \<open>operator[]\<close> makes an absent entry an empty vector), and says which callback it calls,
  if any. \<open>assembler_feed\<close> runs it over every fragment a slice of bytes completes; the
  session threads its own state through the same per-fragment function, because there the
  callbacks act on the crypto object the assembler shares.
\<close>

section \<open>Operations\<close>

type_synonym channel_buffers = "byte \<rightharpoonup> bytes"

definition channel_buffer :: "channel_buffers \<Rightarrow> byte \<Rightarrow> bytes" where
  "channel_buffer bufs ch = (case bufs ch of None \<Rightarrow> [] | Some b \<Rightarrow> b)"

datatype asm_outcome = NoCallback | OnError error_code | OnMessage aap_message

text \<open>Returns the crypto state, the channel's buffer, and the error reported, if any.\<close>

definition append_fragment_payload ::
    "'c crypto_ops \<Rightarrow> aap_fragment \<Rightarrow> bytes \<Rightarrow> 'c \<Rightarrow> 'c \<times> bytes \<times> error_code option" where
  "append_fragment_payload ops frag channel_payload c =
     (let channel_payload = (if frag_first frag then [] else channel_payload)
      in if frag_encrypted frag \<and> is_established ops c
         then (case decrypt ops (frag_payload frag) c of
                 (c1, Inl ec) \<Rightarrow> (c1, [], Some (ErrAap DecryptionFailed))
               | (c1, Inr plaintext) \<Rightarrow> (c1, channel_payload @ plaintext, None))
         else (c, channel_payload @ frag_payload frag, None))"

definition extract_complete_message :: "byte \<Rightarrow> bytes \<Rightarrow> aap_message option" where
  "extract_complete_message channel_id channel_payload =
     (if length channel_payload < 2 then None
      else Some \<lparr>msg_channel = channel_id,
                 msg_type = be16 (channel_payload ! 0) (channel_payload ! 1),
                 msg_payload = drop 2 channel_payload\<rparr>)"

definition assembler_on_fragment ::
    "'c crypto_ops \<Rightarrow> aap_fragment \<Rightarrow> 'c \<times> channel_buffers \<Rightarrow>
     ('c \<times> channel_buffers) \<times> asm_outcome" where
  "assembler_on_fragment ops frag st =
     (let (c, bufs) = st;
          ch = frag_channel frag;
          (c1, payload, err) = append_fragment_payload ops frag (channel_buffer bufs ch) c
      in case err of
           Some ec \<Rightarrow> ((c1, bufs(ch \<mapsto> payload)), OnError ec)
         | None \<Rightarrow>
             if \<not> frag_last frag then ((c1, bufs(ch \<mapsto> payload)), NoCallback)
             else ((c1, bufs(ch \<mapsto> [])),
                   case extract_complete_message ch payload of
                     None \<Rightarrow> NoCallback
                   | Some m \<Rightarrow> OnMessage m))"

primrec assembler_on_fragments ::
    "'c crypto_ops \<Rightarrow> aap_fragment list \<Rightarrow> 'c \<times> channel_buffers \<Rightarrow>
     ('c \<times> channel_buffers) \<times> asm_outcome list" where
  "assembler_on_fragments ops [] st = (st, [])"
| "assembler_on_fragments ops (f # fs) st =
     (let (st1, out) = assembler_on_fragment ops f st;
          (st2, outs) = assembler_on_fragments ops fs st1
      in (st2, if out = NoCallback then outs else out # outs))"

record 'c assembler =
  asm_framer :: framer
  asm_crypto :: 'c
  asm_buffers :: channel_buffers

definition new_assembler :: "'c \<Rightarrow> 'c assembler" where
  "new_assembler c = \<lparr>asm_framer = new_framer, asm_crypto = c, asm_buffers = Map.empty\<rparr>"

definition assembler_feed ::
    "'c crypto_ops \<Rightarrow> 'c assembler \<Rightarrow> bytes \<Rightarrow> 'c assembler \<times> asm_outcome list" where
  "assembler_feed ops a data =
     (if data = [] then (a, [])
      else let (fr, frags) = framer_feed (asm_framer a) data;
               ((c, bufs), outs) = assembler_on_fragments ops frags (asm_crypto a, asm_buffers a)
           in (\<lparr>asm_framer = fr, asm_crypto = c, asm_buffers = bufs\<rparr>, outs))"

section \<open>Feeding slices\<close>

lemma assembler_on_fragments_append:
  "assembler_on_fragments ops (fs @ gs) st =
     (let (st1, o1) = assembler_on_fragments ops fs st;
          (st2, o2) = assembler_on_fragments ops gs st1 in (st2, o1 @ o2))"
  by (induction fs arbitrary: st) (simp_all split: prod.splits)

lemma assembler_feed_append:
  "assembler_feed ops a (xs @ ys) =
     (let (a1, o1) = assembler_feed ops a xs; (a2, o2) = assembler_feed ops a1 ys in (a2, o1 @ o2))"
proof (cases "xs = [] \<or> ys = []")
  case True
  then show ?thesis by (auto simp: assembler_feed_def split: prod.splits)
next
  case False
  then show ?thesis
    by (auto simp: assembler_feed_def framer_feed_append assembler_on_fragments_append
        split: prod.splits)
qed

interpretation inbound: stream_decoder "assembler_feed ops" for ops
  by unfold_locales (simp add: assembler_feed_def, rule assembler_feed_append)

section \<open>Reassembly\<close>

text \<open>The text of consecutive fragments: what \<open>append_fragment_payload\<close> appends for each.\<close>

primrec fragment_texts ::
    "'c crypto_ops \<Rightarrow> aap_fragment list \<Rightarrow> 'c \<Rightarrow> 'c \<times> (error_code + bytes)" where
  "fragment_texts ops [] c = (c, Inr [])"
| "fragment_texts ops (f # fs) c =
     (case (if frag_encrypted f \<and> is_established ops c then decrypt ops (frag_payload f) c
            else (c, Inr (frag_payload f))) of
        (c1, Inl e) \<Rightarrow> (c1, Inl e)
      | (c1, Inr p) \<Rightarrow>
          (case fragment_texts ops fs c1 of
             (c2, Inl e) \<Rightarrow> (c2, Inl e)
           | (c2, Inr q) \<Rightarrow> (c2, Inr (p @ q))))"

lemma fragment_texts_plain:
  "\<forall>f\<in>set fs. \<not> frag_encrypted f \<or> \<not> is_established ops c \<Longrightarrow>
   fragment_texts ops fs c = (c, Inr (concat (map frag_payload fs)))"
  by (induction fs) auto

lemma fragment_texts_encrypted:
  assumes keeps: "\<And>x r. is_established ops (fst (decrypt ops x r)) = is_established ops r"
  shows "\<forall>f\<in>set fs. frag_encrypted f \<Longrightarrow> is_established ops c \<Longrightarrow>
         fragment_texts ops fs c = decrypt_pieces ops (map frag_payload fs) c"
proof (induction fs arbitrary: c)
  case Nil
  then show ?case by simp
next
  case (Cons f fs)
  have "is_established ops (fst (decrypt ops (frag_payload f) c))"
    using Cons.prems(2) by (simp add: keeps)
  with Cons show ?case by (auto split: prod.splits sum.splits)
qed

definition message_outcomes :: "byte \<Rightarrow> bytes \<Rightarrow> asm_outcome list" where
  "message_outcomes ch text =
     (case extract_complete_message ch text of None \<Rightarrow> [] | Some m \<Rightarrow> [OnMessage m])"

lemma channel_buffer_upd [simp]: "channel_buffer (bufs(ch \<mapsto> b)) ch = b"
  by (simp add: channel_buffer_def)

lemma on_fragment_text:
  assumes "fragment_texts ops [f] c = (c1, Inr p)"
  shows "assembler_on_fragment ops f (c, bufs) =
    (let ch = frag_channel f;
         text = (if frag_first f then [] else channel_buffer bufs ch) @ p
     in if \<not> frag_last f then ((c1, bufs(ch \<mapsto> text)), NoCallback)
        else ((c1, bufs(ch \<mapsto> [])),
              case extract_complete_message ch text of None \<Rightarrow> NoCallback | Some m \<Rightarrow> OnMessage m))"
  using assms
  by (auto simp: assembler_on_fragment_def append_fragment_payload_def Let_def
      split: if_splits prod.splits sum.splits option.splits)

lemma fragment_texts_ConsD:
  assumes "fragment_texts ops (f # fs) c = (c2, Inr t)"
  obtains c1 p q where "fragment_texts ops [f] c = (c1, Inr p)"
    and "fragment_texts ops fs c1 = (c2, Inr q)" and "t = p @ q"
  using assms by (auto split: if_splits prod.splits sum.splits)

lemma reassemble_tail:
  assumes "fs \<noteq> []" and "\<forall>f\<in>set fs. frag_channel f = ch \<and> \<not> frag_first f"
    and "frag_last (last fs)" and "\<forall>f\<in>set (butlast fs). \<not> frag_last f"
    and "fragment_texts ops fs c = (c', Inr t)"
  shows "assembler_on_fragments ops fs (c, bufs) =
         ((c', bufs(ch \<mapsto> [])), message_outcomes ch (channel_buffer bufs ch @ t))"
  using assms
proof (induction fs arbitrary: c bufs t)
  case Nil
  then show ?case by simp
next
  case (Cons f fs)
  from Cons.prems(5) obtain c1 p q where p: "fragment_texts ops [f] c = (c1, Inr p)"
    and q: "fragment_texts ops fs c1 = (c', Inr q)" and t: "t = p @ q"
    by (rule fragment_texts_ConsD)
  note step = on_fragment_text [OF p, of bufs]
  show ?case
  proof (cases "fs = []")
    case True
    with Cons.prems q t step show ?thesis
      by (simp add: message_outcomes_def Let_def fun_upd_def split: option.split)
  next
    case False
    have f: "\<not> frag_last f" "frag_channel f = ch" "\<not> frag_first f"
      using Cons.prems(2,4) False by simp_all
    have tail: "\<forall>f\<in>set fs. frag_channel f = ch \<and> \<not> frag_first f" "frag_last (last fs)"
      "\<forall>f\<in>set (butlast fs). \<not> frag_last f"
      using Cons.prems(2-4) False by simp_all
    have "assembler_on_fragments ops fs (c1, bufs(ch \<mapsto> channel_buffer bufs ch @ p)) =
        ((c', bufs(ch \<mapsto> [])), message_outcomes ch (channel_buffer bufs ch @ t))"
      using Cons.IH [OF False tail q, of "bufs(ch \<mapsto> channel_buffer bufs ch @ p)"]
      by (simp only: t channel_buffer_upd fun_upd_upd append_assoc)
    with f step show ?thesis by (simp add: Let_def fun_upd_def)
  qed
qed

lemma reassemble_carried:
  assumes "carries frame fs" and "fragment_texts ops fs c = (c', Inr t)"
  shows "assembler_on_fragments ops fs (c, bufs) =
         ((c', bufs(out_channel frame \<mapsto> [])), message_outcomes (out_channel frame) t)"
proof -
  let ?ch = "out_channel frame"
  from assms(1) obtain f gs where fs: "fs = f # gs" by (cases fs) (auto simp: carries_def)
  from assms(2) obtain c1 p q where p: "fragment_texts ops [f] c = (c1, Inr p)"
    and q: "fragment_texts ops gs c1 = (c', Inr q)" and t: "t = p @ q"
    unfolding fs by (rule fragment_texts_ConsD)
  note step = on_fragment_text [OF p, of bufs]
  show ?thesis
  proof (cases "gs = []")
    case True
    with assms(1) q t step fs show ?thesis
      by (simp add: carries_def message_outcomes_def Let_def fun_upd_def split: option.split)
  next
    case False
    have f: "frag_first f" "\<not> frag_last f" "frag_channel f = ?ch"
      using assms(1) False by (simp_all add: carries_def fs)
    have tail: "\<forall>f\<in>set gs. frag_channel f = ?ch \<and> \<not> frag_first f" "frag_last (last gs)"
      "\<forall>f\<in>set (butlast gs). \<not> frag_last f"
      using assms(1) False by (simp_all add: carries_def fs)
    have "assembler_on_fragments ops gs (c1, bufs(?ch \<mapsto> p)) =
        ((c', bufs(?ch \<mapsto> [])), message_outcomes ?ch t)"
      using reassemble_tail [OF False tail q, of "bufs(?ch \<mapsto> p)"]
      by (simp only: t channel_buffer_upd fun_upd_upd append_assoc)
    with f step fs show ?thesis by (simp add: Let_def fun_upd_def)
  qed
qed

lemma extract_built_message:
  "extract_complete_message ch (build_message_payload t p) =
     Some \<lparr>msg_channel = ch, msg_type = t, msg_payload = p\<rparr>"
  using be16_u16_bytes [of t]
  by (simp add: extract_complete_message_def build_message_payload_def u16_bytes_def)

section \<open>The encoder and the assembler are inverse\<close>

text \<open>Sender and receiver agree: both encrypt and are in step, or neither encrypts.\<close>

definition in_step :: "'c crypto_ops \<Rightarrow> ('c \<Rightarrow> 'c \<Rightarrow> bool) \<Rightarrow> 'c \<Rightarrow> 'c \<Rightarrow> bool" where
  "in_step ops sync s r \<longleftrightarrow> sync s r \<or> \<not> is_established ops s \<and> \<not> is_established ops r"

lemma carried_message_outcome:
  assumes "carries frame fs" and "fragment_texts ops fs r = (r', Inr (build_message_payload t p))"
  shows "assembler_on_fragments ops fs (r, bufs) =
    ((r', bufs(out_channel frame \<mapsto> [])),
     [OnMessage \<lparr>msg_channel = out_channel frame, msg_type = t, msg_payload = p\<rparr>])"
  by (simp add: reassemble_carried [OF assms] message_outcomes_def extract_built_message)

context crypto_channel
begin

lemma encrypted_text:
  assumes "sync s r" and "encrypt ops p s = (s', Inr ct)" and "carries frame fs"
    and "out_payload frame = ct" and "out_flags frame AND 0x08 \<noteq> 0"
  shows "\<exists>r'. fragment_texts ops fs r = (r', Inr p) \<and> sync s' r'"
proof -
  from assms(3-5) have "concat (map frag_payload fs) = ct" "\<forall>f\<in>set fs. frag_encrypted f"
    by (simp_all add: carries_def)
  with encrypt_decrypt [OF assms(1,2)] sync_established [OF assms(1)]
  show ?thesis by (simp add: fragment_texts_encrypted [OF decrypt_keeps_established])
qed

lemma send_one:
  assumes "in_step ops sync s r"
    and "encoder_send_message ops (msg_channel m) (msg_type m) (msg_payload m) s = (s', Inr ws)"
  shows "\<exists>frame r'. ws = framer_encode frame \<and> out_flags frame AND 3 = 3 \<and> in_step ops sync s' r' \<and>
    (\<forall>bufs. \<exists>bufs'. assembler_on_fragments ops (fragments_of frame) (r, bufs) = ((r', bufs'), [OnMessage m]))"
proof (cases "is_established ops s")
  case True
  let ?fl = "compute_frame_flags (msg_channel m) (msg_type m) True"
  let ?text = "build_message_payload (msg_type m) (msg_payload m)"
  from True assms(1) have sync: "sync s r" by (simp add: in_step_def)
  from True assms(2) obtain ct where ct: "encrypt ops ?text s = (s', Inr ct)"
    and ws: "ws = framer_encode \<lparr>out_channel = msg_channel m, out_flags = ?fl, out_payload = ct\<rparr>"
    by (auto simp: encoder_send_message_def encrypt_and_queue_frame_def Let_def
        split: prod.splits sum.splits)
  let ?frame = "\<lparr>out_channel = msg_channel m, out_flags = ?fl, out_payload = ct\<rparr>"
  have car: "carries ?frame (fragments_of ?frame)" by (rule fragments_of_carries) simp
  from encrypted_text [OF sync ct car] obtain r' where
    "fragment_texts ops (fragments_of ?frame) r = (r', Inr ?text)" "sync s' r'"
    using compute_frame_flags_bits(3) [of "msg_channel m" "msg_type m" True] by auto
  with ws show ?thesis
    by (intro exI [of _ ?frame] exI [of _ r'])
       (simp add: in_step_def carried_message_outcome [OF car])
next
  case False
  let ?fl = "compute_frame_flags (msg_channel m) (msg_type m) False"
  let ?text = "build_message_payload (msg_type m) (msg_payload m)"
  let ?frame = "\<lparr>out_channel = msg_channel m, out_flags = ?fl, out_payload = ?text\<rparr>"
  from False assms(1) have r: "\<not> is_established ops r"
    using sync_established by (auto simp: in_step_def)
  have car: "carries ?frame (fragments_of ?frame)" by (rule fragments_of_carries) simp
  then have "fragment_texts ops (fragments_of ?frame) r = (r, Inr ?text)"
    using r by (simp add: fragment_texts_plain carries_def)
  with False assms(2) r show ?thesis
    by (intro exI [of _ ?frame] exI [of _ r])
       (auto simp: in_step_def encoder_send_message_def queue_encoded_frame_def
          carried_message_outcome [OF car])
qed

lemma send_all:
  assumes "in_step ops sync s r" and "encoder_send_all ops ms s = (s', Inr ws)"
  shows "\<exists>frames r'. ws = concat (map framer_encode frames) \<and> (\<forall>f\<in>set frames. out_flags f AND 3 = 3) \<and>
    (\<forall>bufs. \<exists>bufs'. assembler_on_fragments ops (concat (map fragments_of frames)) (r, bufs) =
       ((r', bufs'), map OnMessage ms))"
  using assms
proof (induction ms arbitrary: s r ws)
  case Nil
  then show ?case by (intro exI [of _ "[]"]) simp
next
  case (Cons m ms)
  from Cons.prems(2) obtain s1 ws1 ws2
    where one: "encoder_send_message ops (msg_channel m) (msg_type m) (msg_payload m) s = (s1, Inr ws1)"
    and rest: "encoder_send_all ops ms s1 = (s', Inr ws2)" and ws: "ws = ws1 @ ws2"
    by (auto split: prod.splits sum.splits)
  from send_one [OF Cons.prems(1) one] obtain frame r1 where
    frame: "ws1 = framer_encode frame" "out_flags frame AND 3 = 3" "in_step ops sync s1 r1"
    and out: "\<forall>bufs. \<exists>bufs'. assembler_on_fragments ops (fragments_of frame) (r, bufs) =
       ((r1, bufs'), [OnMessage m])" by blast
  from Cons.IH [OF frame(3) rest] obtain frames r2 where
    frames: "ws2 = concat (map framer_encode frames)" "\<forall>f\<in>set frames. out_flags f AND 3 = 3"
    and outs: "\<forall>bufs. \<exists>bufs'. assembler_on_fragments ops (concat (map fragments_of frames)) (r1, bufs) =
       ((r2, bufs'), map OnMessage ms)" by blast
  have "\<exists>bufs'. assembler_on_fragments ops (concat (map fragments_of (frame # frames))) (r, bufs) =
      ((r2, bufs'), map OnMessage (m # ms))" for bufs
  proof -
    from out obtain b1 where b1: "assembler_on_fragments ops (fragments_of frame) (r, bufs) =
      ((r1, b1), [OnMessage m])" by blast
    from outs obtain b2 where "assembler_on_fragments ops (concat (map fragments_of frames)) (r1, b1) =
      ((r2, b2), map OnMessage ms)" by blast
    with b1 show ?thesis by (simp add: assembler_on_fragments_append)
  qed
  with frame frames ws show ?case
    by (intro exI [of _ "frame # frames"] exI [of _ r2]) simp
qed

lemma messages_roundtrip:
  assumes "in_step ops sync s r" and "encoder_send_all ops ms s = (s', Inr ws)"
    and "concat slices = concat ws"
  shows "\<exists>a. feed_chunks (assembler_feed ops) (new_assembler r) slices = (a, map OnMessage ms)
    \<and> recv_buffer (asm_framer a) = []"
proof -
  from send_all [OF assms(1,2)] obtain frames r' where ws: "ws = concat (map framer_encode frames)"
    and fl: "\<forall>f\<in>set frames. out_flags f AND 3 = 3"
    and out: "\<forall>bufs. \<exists>bufs'. assembler_on_fragments ops (concat (map fragments_of frames)) (r, bufs) =
       ((r', bufs'), map OnMessage ms)" by blast
  from out obtain b where b: "assembler_on_fragments ops (concat (map fragments_of frames)) (r, Map.empty) =
    ((r', b), map OnMessage ms)" by blast
  have feed: "framer_feed new_framer (concat ws) = (new_framer, concat (map fragments_of frames))"
    using parse_framer_encode_all [OF fl]
    by (auto simp: ws framer_feed_def new_framer_def parse_loop_empty)
  have "assembler_feed ops (new_assembler r) (concat ws) =
    (if concat ws = [] then new_assembler r
     else \<lparr>asm_framer = new_framer, asm_crypto = r', asm_buffers = b\<rparr>, map OnMessage ms)"
  proof (cases "concat ws = []")
    case True
    with feed have "concat (map fragments_of frames) = []" by (simp only: framer_feed_def) simp
    with b have "ms = []" by (simp only: assembler_on_fragments.simps) simp
    with True show ?thesis by (simp only: assembler_feed_def) simp
  next
    case False
    with b feed show ?thesis by (simp only: assembler_feed_def new_assembler_def) simp
  qed
  then show ?thesis
    by (simp add: inbound.feed_chunks_concat assms(3) new_assembler_def new_framer_def)
qed

end

section \<open>Channels do not disturb each other\<close>

text \<open>
  What the fragments say, read in the order in which they arrive: each comes with its text, or
  with the error of its decryption. The crypto state goes from fragment to fragment, whatever
  their channels are.
\<close>

definition fragment_text :: "'c crypto_ops \<Rightarrow> aap_fragment \<Rightarrow> 'c \<Rightarrow> 'c \<times> (error_code + bytes)" where
  "fragment_text ops f c =
     (if frag_encrypted f \<and> is_established ops c then decrypt ops (frag_payload f) c
      else (c, Inr (frag_payload f)))"

primrec read_in_order ::
    "'c crypto_ops \<Rightarrow> aap_fragment list \<Rightarrow> 'c \<Rightarrow> 'c \<times> (aap_fragment \<times> (error_code + bytes)) list" where
  "read_in_order ops [] c = (c, [])"
| "read_in_order ops (f # fs) c =
     (let (c1, tx) = fragment_text ops f c; (c2, texts) = read_in_order ops fs c1
      in (c2, (f, tx) # texts))"

text \<open>
  The reassembly of one channel that has a single buffer, no crypto and no other channel: a
  first fragment starts anew, a last one delivers what has been collected, an error loses it.
\<close>

definition text_effect ::
    "byte \<Rightarrow> aap_fragment \<times> (error_code + bytes) \<Rightarrow> bytes \<Rightarrow> bytes \<times> aap_message option" where
  "text_effect ch ft buf =
     (case snd ft of
        Inl e \<Rightarrow> ([], None)
      | Inr p \<Rightarrow>
          let tx = (if frag_first (fst ft) then p else buf @ p)
          in if frag_last (fst ft) then ([], extract_complete_message ch tx) else (tx, None))"

primrec reassemble_alone ::
    "byte \<Rightarrow> (aap_fragment \<times> (error_code + bytes)) list \<Rightarrow> bytes \<Rightarrow> bytes \<times> aap_message list" where
  "reassemble_alone ch [] buf = (buf, [])"
| "reassemble_alone ch (ft # fts) buf =
     (let (buf1, m) = text_effect ch ft buf; (buf2, ms) = reassemble_alone ch fts buf1
      in (buf2, (case m of None \<Rightarrow> [] | Some m \<Rightarrow> [m]) @ ms))"

lemma on_fragment_effect:
  assumes "fragment_text ops f c = (c1, tx)"
    and "text_effect (frag_channel f) (f, tx) (channel_buffer bufs (frag_channel f)) = (buf, m)"
  shows "assembler_on_fragment ops f (c, bufs) =
    ((c1, bufs(frag_channel f \<mapsto> buf)),
     case tx of Inl e \<Rightarrow> OnError (ErrAap DecryptionFailed)
     | Inr p \<Rightarrow> (case m of None \<Rightarrow> NoCallback | Some m \<Rightarrow> OnMessage m))"
  using assms
  by (auto simp: assembler_on_fragment_def append_fragment_payload_def fragment_text_def text_effect_def Let_def
      split: if_splits sum.splits prod.splits)

text \<open>The messages that are delivered for one channel.\<close>

definition delivered_on :: "byte \<Rightarrow> asm_outcome list \<Rightarrow> aap_message list" where
  "delivered_on ch outs =
     concat (map (\<lambda>out. case out of OnMessage m \<Rightarrow> (if msg_channel m = ch then [m] else []) | _ \<Rightarrow> []) outs)"

lemma delivered_on_append [simp]: "delivered_on ch (xs @ ys) = delivered_on ch xs @ delivered_on ch ys"
  by (simp add: delivered_on_def)

lemma on_fragments_Cons:
  assumes "assembler_on_fragment ops f st = (st1, out)"
  shows "fst (assembler_on_fragments ops (f # fs) st) = fst (assembler_on_fragments ops fs st1)"
    and "snd (assembler_on_fragments ops (f # fs) st) =
         (if out = NoCallback then [] else [out]) @ snd (assembler_on_fragments ops fs st1)"
  using assms by (simp_all split: prod.splits)

lemma channel_buffer_other [simp]:
  "ch \<noteq> ch' \<Longrightarrow> channel_buffer (bufs(ch \<mapsto> b)) ch' = channel_buffer bufs ch'"
  by (simp add: channel_buffer_def)

lemma extract_channel: "extract_complete_message ch buf = Some m \<Longrightarrow> msg_channel m = ch"
  by (auto simp: extract_complete_message_def split: if_splits)

lemma isolation_run:
  "delivered_on ch (snd (assembler_on_fragments ops fs (c, bufs))) =
     snd (reassemble_alone ch (filter (\<lambda>ft. frag_channel (fst ft) = ch) (snd (read_in_order ops fs c)))
       (channel_buffer bufs ch))
   \<and> channel_buffer (snd (fst (assembler_on_fragments ops fs (c, bufs)))) ch =
     fst (reassemble_alone ch (filter (\<lambda>ft. frag_channel (fst ft) = ch) (snd (read_in_order ops fs c)))
       (channel_buffer bufs ch))
   \<and> fst (fst (assembler_on_fragments ops fs (c, bufs))) = fst (read_in_order ops fs c)"
proof (induction fs arbitrary: c bufs)
  case Nil
  then show ?case by (simp add: delivered_on_def)
next
  case (Cons f fs)
  obtain c1 tx where tx: "fragment_text ops f c = (c1, tx)" by force
  obtain buf m where eff: "text_effect (frag_channel f) (f, tx) (channel_buffer bufs (frag_channel f)) = (buf, m)"
    by force
  let ?out = "case tx of Inl e \<Rightarrow> OnError (ErrAap DecryptionFailed)
     | Inr p \<Rightarrow> (case m of None \<Rightarrow> NoCallback | Some m \<Rightarrow> OnMessage m)"
  note step = on_fragments_Cons [OF on_fragment_effect [OF tx eff], of fs]
  have m: "tx = Inl e \<Longrightarrow> m = None" "m = Some m' \<Longrightarrow> msg_channel m' = frag_channel f" for e m'
    using eff by (auto simp: text_effect_def Let_def dest: extract_channel split: sum.splits if_splits)
  have out: "delivered_on ch (if ?out = NoCallback then [] else [?out]) =
      (if frag_channel f = ch then case m of None \<Rightarrow> [] | Some m \<Rightarrow> [m] else [])"
    using m by (auto simp: delivered_on_def split: sum.split option.split)
  show ?case
    using Cons.IH [of c1 "bufs(frag_channel f \<mapsto> buf)"] tx eff
    by (cases "frag_channel f = ch")
       (simp_all add: step out split_beta Let_def del: assembler_on_fragments.simps fun_upd_apply)
qed

text \<open>
  C16. Interleaving is harmless. Whatever fragments of other channels arrive in between,
  encrypted or not, and whatever of them fails to decrypt: the messages that a channel delivers
  and the bytes it still holds are those that a reassembly of this channel alone makes of the
  texts of its own fragments. The other channels count only for the crypto state, which
  all fragments advance in the order in which they arrive.
\<close>

theorem assembler_channel_isolation:
  "let ((c1, bufs1), outs) = assembler_on_fragments ops frags (c, bufs);
       (c2, texts) = read_in_order ops frags c;
       (buffer, messages) =
         reassemble_alone ch (filter (\<lambda>ft. frag_channel (fst ft) = ch) texts) (channel_buffer bufs ch)
   in delivered_on ch outs = messages \<and> channel_buffer bufs1 ch = buffer \<and> c1 = c2"
  using isolation_run [of ch ops frags c bufs] by (simp add: case_prod_beta Let_def)

section \<open>Properties of the message layer\<close>

text \<open>
  C1. Messages survive the wire. If both ends agree on the crypto state, every message the
  encoder sends arrives exactly once, in order and unchanged, however the receiver's reads
  slice the byte stream, and no byte of the stream is left over.
\<close>

theorem message_roundtrip:
  assumes "crypto_channel ops sync" and "in_step ops sync s r"
    and "encoder_send_all ops ms s = (s', Inr ws)" and "concat slices = concat ws"
  shows "snd (feed_chunks (assembler_feed ops) (new_assembler r) slices) = map OnMessage ms
    \<and> recv_buffer (asm_framer (fst (feed_chunks (assembler_feed ops) (new_assembler r) slices))) = []"
  using crypto_channel.messages_roundtrip [OF assms] by force

definition sample_messages :: "aap_message list" where
  "sample_messages =
     [\<lparr>msg_channel = 2, msg_type = 7, msg_payload = [1, 2]\<rparr>,
      \<lparr>msg_channel = 0, msg_type = 11, msg_payload = []\<rparr>]"

theorem message_roundtrip_witness:
  "snd (feed_chunks (assembler_feed mock_ops) (new_assembler \<lparr>mock_established = True\<rparr>)
     [[2, 15, 0], [4, 0, 7, 1], [2, 0, 11, 0, 2, 0, 11]]) = map OnMessage sample_messages"
proof -
  have enc: "encoder_send_all mock_ops sample_messages \<lparr>mock_established = True\<rparr> =
      (\<lparr>mock_established = True\<rparr>, Inr [[2, 15, 0, 4, 0, 7, 1, 2], [0, 11, 0, 2, 0, 11]])"
    by code_simp
  have step: "in_step mock_ops mock_sync \<lparr>mock_established = True\<rparr> \<lparr>mock_established = True\<rparr>"
    by (simp add: in_step_def mock_sync_def)
  show ?thesis
    using message_roundtrip [OF mock.crypto_channel_axioms step enc,
        of "[[2, 15, 0], [4, 0, 7, 1], [2, 0, 11, 0, 2, 0, 11]]"]
    by (simp del: feed_chunks.simps)
qed

text \<open>
  A fragment that cannot be decrypted is reported as DecryptionFailed, and everything
  its channel had collected is thrown away; other channels keep their buffers. But the
  assembler does not remember the loss: if the next fragment of the channel continues the
  broken message and is its last, and the strategy can decrypt it, its own text alone is
  delivered as a message if it is at least two bytes long. OpenSSL does not get there: after a
  record that fails, \<open>SSL_read\<close> fails for good.
\<close>

theorem decryption_failure_truncates:
  assumes "frag_encrypted f" and "is_established ops c"
    and "decrypt ops (frag_payload f) c = (c1, Inl ec)"
    and "frag_channel g = frag_channel f" and "\<not> frag_first g" and "frag_last g"
    and "frag_encrypted g" and "is_established ops c1"
    and "decrypt ops (frag_payload g) c1 = (c2, Inr (hi # lo # rest))"
  shows "assembler_on_fragments ops [f, g] (c, bufs) =
    ((c2, bufs(frag_channel f \<mapsto> [])),
     [OnError (ErrAap DecryptionFailed),
      OnMessage \<lparr>msg_channel = frag_channel f, msg_type = be16 hi lo, msg_payload = rest\<rparr>])"
proof -
  have f: "assembler_on_fragment ops f (c, bufs) =
    ((c1, bufs(frag_channel f \<mapsto> [])), OnError (ErrAap DecryptionFailed))"
    using assms(1-3) by (simp add: assembler_on_fragment_def append_fragment_payload_def)
  have g: "assembler_on_fragment ops g (c1, bufs(frag_channel f \<mapsto> [])) =
    ((c2, bufs(frag_channel f \<mapsto> [])),
     OnMessage \<lparr>msg_channel = frag_channel f, msg_type = be16 hi lo, msg_payload = rest\<rparr>)"
    using assms(4-9)
    by (auto simp: assembler_on_fragment_def append_fragment_payload_def
        extract_complete_message_def channel_buffer_def Let_def)
  show ?thesis by (simp add: f g del: fun_upd_apply)
qed

text \<open>A crypto strategy that refuses records beginning with 0, for the witness.\<close>

definition picky_ops :: "mock_crypto crypto_ops" where
  "picky_ops = mock_ops\<lparr>decrypt := (\<lambda>x m. (m, case x of
       [] \<Rightarrow> Inr [] | b # bs \<Rightarrow> if b = 0 then Inl ErrAborted else Inr bs))\<rparr>"

theorem decryption_failure_truncates_witness:
  "assembler_on_fragments picky_ops
     [\<lparr>frag_channel = 3, frag_first = True, frag_last = False, frag_encrypted = True,
       frag_payload = [0, 5]\<rparr>,
      \<lparr>frag_channel = 3, frag_first = False, frag_last = True, frag_encrypted = True,
       frag_payload = [9, 0, 7, 1]\<rparr>] (\<lparr>mock_established = True\<rparr>, Map.empty) =
   ((\<lparr>mock_established = True\<rparr>, [3 \<mapsto> []]),
    [OnError (ErrAap DecryptionFailed),
     OnMessage \<lparr>msg_channel = 3, msg_type = be16 0 7, msg_payload = [1]\<rparr>])"
  using decryption_failure_truncates
    [where ops = picky_ops and c = "\<lparr>mock_established = True\<rparr>" and bufs = Map.empty
      and f = "\<lparr>frag_channel = 3, frag_first = True, frag_last = False, frag_encrypted = True,
        frag_payload = [0, 5]\<rparr>"
      and g = "\<lparr>frag_channel = 3, frag_first = False, frag_last = True, frag_encrypted = True,
        frag_payload = [9, 0, 7, 1]\<rparr>"]
  by (simp add: picky_ops_def mock_ops_def)

end
