(* ===== verification/Protobuf.thy ===== *)
theory Protobuf
  imports Protocol
begin

text \<open>
  The protobuf messages the services exchange. The classes themselves are generated at
  build time from \<open>protobuf/aap_protobuf/**.proto\<close>; what the services rely on is that a
  message with given field values can be serialised, and that \<open>ParseFromArray\<close> either
  fails or yields field values. So a message is a value listing the fields the code sets
  or reads, and the generated (de)serialisers are a record \<open>pb_codec\<close> that every
  definition using them takes as an argument. Nothing is assumed of it.

  Enumerations of the .proto files appear by number, as in the C++ casts; the ones the
  code names are definitions here.
\<close>

type_synonym i32 = "32 word"
type_synonym i64 = "64 word"

section \<open>Enumerators the code names\<close>

definition AUDIO_FOCUS_GAIN :: int where "AUDIO_FOCUS_GAIN = 1"
definition AUDIO_FOCUS_GAIN_TRANSIENT :: int where "AUDIO_FOCUS_GAIN_TRANSIENT = 2"
definition AUDIO_FOCUS_GAIN_TRANSIENT_MAY_DUCK :: int where
  "AUDIO_FOCUS_GAIN_TRANSIENT_MAY_DUCK = 3"
definition AUDIO_FOCUS_RELEASE :: int where "AUDIO_FOCUS_RELEASE = 4"

definition AUDIO_FOCUS_STATE_GAIN :: int where "AUDIO_FOCUS_STATE_GAIN = 1"
definition AUDIO_FOCUS_STATE_GAIN_TRANSIENT :: int where "AUDIO_FOCUS_STATE_GAIN_TRANSIENT = 2"
definition AUDIO_FOCUS_STATE_LOSS :: int where "AUDIO_FOCUS_STATE_LOSS = 3"
definition AUDIO_FOCUS_STATE_GAIN_TRANSIENT_GUIDANCE_ONLY :: int where
  "AUDIO_FOCUS_STATE_GAIN_TRANSIENT_GUIDANCE_ONLY = 7"

definition NAV_FOCUS_PROJECTED :: int where "NAV_FOCUS_PROJECTED = 2"
definition USER_SELECTION :: int where "USER_SELECTION = 1"
definition DRIVER_POSITION_LEFT :: int where "DRIVER_POSITION_LEFT = 0"
definition CONFIG_STATUS_READY :: int where "CONFIG_STATUS_READY = 2"
definition VIDEO_FOCUS_PROJECTED :: int where "VIDEO_FOCUS_PROJECTED = 1"
definition VIDEO_FOCUS_NATIVE :: int where "VIDEO_FOCUS_NATIVE = 2"
definition STATUS_SUCCESS :: int where "STATUS_SUCCESS = 0"
definition SENSOR_NIGHT_MODE :: int where "SENSOR_NIGHT_MODE = 10"
definition SENSOR_DRIVING_STATUS_DATA :: int where "SENSOR_DRIVING_STATUS_DATA = 13"
definition MEDIA_CODEC_AUDIO_PCM :: int where "MEDIA_CODEC_AUDIO_PCM = 1"
definition MEDIA_CODEC_VIDEO_H264_BP :: int where "MEDIA_CODEC_VIDEO_H264_BP = 3"
definition BLUETOOTH_PAIRING_PIN :: int where "BLUETOOTH_PAIRING_PIN = 4"
definition CAPACITIVE :: int where "CAPACITIVE = 1"
definition NAVIGATION_ENUM :: int where "NAVIGATION_ENUM = 2"

definition BLUETOOTH_MESSAGE_PAIRING_REQUEST :: u16 where
  "BLUETOOTH_MESSAGE_PAIRING_REQUEST = 32769"
definition BLUETOOTH_MESSAGE_PAIRING_RESPONSE :: u16 where
  "BLUETOOTH_MESSAGE_PAIRING_RESPONSE = 32770"
definition BLUETOOTH_MESSAGE_AUTHENTICATION_DATA :: u16 where
  "BLUETOOTH_MESSAGE_AUTHENTICATION_DATA = 32771"
definition BLUETOOTH_MESSAGE_AUTHENTICATION_RESULT :: u16 where
  "BLUETOOTH_MESSAGE_AUTHENTICATION_RESULT = 32772"
definition MEDIA_PLAYBACK_STATUS :: u16 where "MEDIA_PLAYBACK_STATUS = 32769"
definition MEDIA_PLAYBACK_METADATA :: u16 where "MEDIA_PLAYBACK_METADATA = 32771"
definition PHONE_STATUS :: u16 where "PHONE_STATUS = 32769"
definition MEDIA_ROOT_NODE :: u16 where "MEDIA_ROOT_NODE = 32769"
definition MEDIA_SOURCE_NODE :: u16 where "MEDIA_SOURCE_NODE = 32770"
definition MEDIA_LIST_NODE :: u16 where "MEDIA_LIST_NODE = 32771"
definition MEDIA_SONG_NODE :: u16 where "MEDIA_SONG_NODE = 32772"
definition MEDIA_GET_NODE :: u16 where "MEDIA_GET_NODE = 32773"
definition MEDIA_BROWSE_INPUT :: u16 where "MEDIA_BROWSE_INPUT = 32774"

lemmas message_id_defs =
  BLUETOOTH_MESSAGE_PAIRING_REQUEST_def BLUETOOTH_MESSAGE_PAIRING_RESPONSE_def
  BLUETOOTH_MESSAGE_AUTHENTICATION_DATA_def BLUETOOTH_MESSAGE_AUTHENTICATION_RESULT_def
  MEDIA_PLAYBACK_STATUS_def MEDIA_PLAYBACK_METADATA_def PHONE_STATUS_def
  MEDIA_ROOT_NODE_def MEDIA_SOURCE_NODE_def MEDIA_LIST_NODE_def MEDIA_SONG_NODE_def
  MEDIA_GET_NODE_def MEDIA_BROWSE_INPUT_def

section \<open>Messages the head unit sends\<close>

text \<open>The per-service part of a \<open>ServiceConfiguration\<close>, as \<open>fill_config\<close> sets it.\<close>

datatype service_config =
    NoConfig
  | CfgVideoSink (cfg_codec: int) (cfg_resolution: int) (cfg_frame_rate: int) (cfg_density: u32)
      (cfg_margins: "nat \<times> nat") (cfg_display_type: "int option") (cfg_display_id: "u32 option")
  | CfgAudioSink int int u32 u32 u32  \<comment> \<open>codec, stream type, rate, bits, channels\<close>
  | CfgInput u32 u32 int  \<comment> \<open>touch width, height, type\<close>
  | CfgSensor "int list"
  | CfgMicrophone int u32 byte byte  \<comment> \<open>codec, rate, bits, channels\<close>
  | CfgBluetooth string "int list"
  | CfgNavigation int int  \<comment> \<open>minimum interval, type\<close>
  | CfgVendorExtension string
  | CfgMediaPlayback
  | CfgMediaBrowser
  | CfgPhoneStatus
  | CfgNotification

record headunit_info =
  hui_make :: string
  hui_model :: string
  hui_head_unit_make :: string
  hui_head_unit_model :: string
  hui_software_version :: string
  hui_software_build :: string

record ping_configuration =
  tracked_ping_count :: nat
  timeout_ms :: nat
  interval_ms :: nat
  high_latency_threshold_ms :: nat

record service_discovery_response =
  sdr_display_name :: string
  sdr_driver_position :: int
  sdr_session_configuration :: int
  sdr_headunit_info :: headunit_info
  sdr_ping :: ping_configuration
  sdr_channels :: "(int \<times> service_config) list"

record key_report =
  key_code :: u32
  key_down :: bool
  key_metastate :: u32

datatype pb_out =
    PbServiceDiscoveryResponse service_discovery_response
  | PbAudioFocusNotification (focus_state: int) (focus_unsolicited: bool)
  | PbNavFocusNotification int
  | PbPingRequest i64
  | PbPingResponse i64
  | PbByeByeRequest int
  | PbAuthResponse int
  | PbMediaConfig (config_status: int) (config_max_unacked: u32) (config_indices: "u32 list")
  | PbAck (ack_session_id: i32) (ack_count: u32)
  | PbVideoFocusNotification (video_focus: int) (video_unsolicited: bool)
  | PbKeyBindingResponse int
  | PbInputTouch (report_timestamp: i64) (touch_action: i32) (touch_action_index: u32)
      (touch_pointers: "(u32 \<times> u32 \<times> u32) list")
  | PbInputKeys (report_timestamp: i64) (report_keys: "key_report list")
  | PbSensorStartResponse int
  | PbSensorBatch (driving_statuses: "int list")
  | PbPairingResponse i32 bool
  | PbAuthenticationResult i32
  | PbMediaGetNode (get_path: string) (get_start: "i32 option") (get_album_art: bool)
  | PbMediaBrowserInput (browse_path: string) (browse_action: int)

section \<open>Messages the phone sends\<close>

record service_discovery_request =
  req_device_name :: "string option"
  req_label_text :: "string option"

record media_start =
  start_session_id :: i32
  start_configuration_index :: u32

record video_focus_request =
  vfr_mode :: int
  vfr_reason :: int

record pairing_request =
  phone_address :: string
  pairing_method :: int

record authentication_data =
  auth_data :: string
  auth_method :: "int option"

record playback_status =
  pst_state :: i32
  pst_source :: string
  pst_seconds :: u32
  pst_shuffle :: bool
  pst_repeat :: bool
  pst_repeat_one :: bool

record playback_metadata =
  pmd_song :: string
  pmd_artist :: string
  pmd_album :: string
  pmd_album_art :: bytes
  pmd_playlist :: string
  pmd_duration :: u32

record phone_call =
  call_state :: i32
  call_duration :: u32
  call_number :: string
  call_caller_id :: string
  call_number_type :: string
  call_thumbnail :: bytes

record phone_status =
  ps_calls :: "phone_call list"
  ps_signal :: "u32 option"

record pb_media_source =
  src_path :: string
  src_name :: string
  src_album_art :: bytes

record pb_media_list =
  lst_path :: string
  lst_type :: i32
  lst_name :: "string option"
  lst_album_art :: bytes

record pb_media_song =
  song_path :: string
  song_name :: string
  song_artist :: "string option"
  song_album :: "string option"

record root_node =
  rn_path :: string
  rn_sources :: "pb_media_source list"

record source_node =
  sn_source :: pb_media_source
  sn_start :: i32
  sn_total :: i32
  sn_lists :: "pb_media_list list"

record list_node =
  ln_list :: pb_media_list
  ln_start :: i32
  ln_total :: i32
  ln_songs :: "pb_media_song list"

record song_node =
  so_song :: pb_media_song
  so_album_art :: bytes
  so_duration :: u32

section \<open>The generated code\<close>

record pb_codec =
  ser :: "pb_out \<Rightarrow> bytes"
  parse_service_discovery_request :: "bytes \<Rightarrow> service_discovery_request option"
  parse_audio_focus_request :: "bytes \<Rightarrow> int option"
  parse_ping_request :: "bytes \<Rightarrow> i64 option"
  parse_start :: "bytes \<Rightarrow> media_start option"
  parse_video_focus_request :: "bytes \<Rightarrow> video_focus_request option"
  parse_sensor_request :: "bytes \<Rightarrow> int option"
  parse_pairing_request :: "bytes \<Rightarrow> pairing_request option"
  parse_authentication_data :: "bytes \<Rightarrow> authentication_data option"
  parse_playback_status :: "bytes \<Rightarrow> playback_status option"
  parse_playback_metadata :: "bytes \<Rightarrow> playback_metadata option"
  parse_phone_status :: "bytes \<Rightarrow> phone_status option"
  parse_root_node :: "bytes \<Rightarrow> root_node option"
  parse_source_node :: "bytes \<Rightarrow> source_node option"
  parse_list_node :: "bytes \<Rightarrow> list_node option"
  parse_song_node :: "bytes \<Rightarrow> song_node option"

end
