(* ===== verification/Service_Base.thy ===== *)
theory Service_Base
  imports Protobuf
begin

text \<open>
  What all channel services share: \<open>IService\<close> and \<open>ServiceBase\<close>
  (\<open>core/include/aauto/service/\<close>), and the way their handlers are modelled.

  A handler changes the service and, at certain points, calls out: it sends a message
  through \<open>send_fn_\<close>, calls a sink or an application callback, arms a timer. A message
  sent through a session can fail to encrypt, and then the session closes every service
  at once, including the one in the middle of its handler. So a handler is a program
  (\<open>prog\<close>): it publishes the service's state with each call-out and continues with the
  state the call-out left behind. \<open>run_prog\<close> runs it where nothing comes back (a send
  function that only records, as in the unit tests); the session gives it its full
  meaning.
\<close>

section \<open>Calls out of a service\<close>

datatype display_type = DisplayMain | DisplayCluster | DisplayAuxiliary

record video_config =
  vc_width :: u32
  vc_height :: u32
  vc_fps :: u32
  vc_density :: u32
  vc_codec_type :: u32
  vc_codec_data :: bytes

datatype audio_stream_type = StreamMedia | StreamGuidance | StreamSystem | StreamCall

record audio_config =
  ac_sample_rate :: u32
  ac_bit_depth :: u32
  ac_channel_count :: u32
  ac_codec_type :: u32

datatype video_call =
    VSetWindow i64 | VConfigure video_config | VCodecConfig bytes i64 | VData bytes i64 | VStop

datatype audio_call =
    AConfigure audio_config audio_stream_type | ACodecConfig bytes | AData bytes i64 | AStop

text \<open>Entries as the application sees them (\<open>MediaBrowserService.hpp\<close>).\<close>

record source_entry =
  se_path :: string
  se_name :: string
  se_album_art :: bytes

record list_entry =
  le_path :: string
  le_type :: i32
  le_name :: string
  le_album_art :: bytes

record song_entry =
  sg_path :: string
  sg_name :: string
  sg_artist :: string
  sg_album :: string

datatype app_call =
    CbVideoFocus bool
  | CbPairingRequest string int
  | CbAuthData string int
  | CbPlaybackStatus i32 string u32 bool bool bool
  | CbPlaybackMetadata string string string bytes string u32
  | CbPhoneStatus "phone_call list" i32
  | CbRootNode string "source_entry list"
  | CbSourceNode source_entry i32 i32 "list_entry list"
  | CbListNode list_entry i32 i32 "song_entry list"
  | CbSongNode song_entry bytes u32

datatype local_call =
    VideoSink nat video_call   \<comment> \<open>the sink's index in \<open>sinks_\<close>, and the call\<close>
  | AudioSink nat audio_call
  | AppCall app_call
  | PhoneIdentified string
  | SessionClose
  | ArmHeartbeat nat
  | CancelHeartbeat

datatype svc_call = SendMsg byte u16 bytes | Local local_call

section \<open>Handlers as programs\<close>

datatype 's prog = Ret 's | Call svc_call 's "'s \<Rightarrow> 's prog"

primrec prog_bind :: "'s prog \<Rightarrow> ('s \<Rightarrow> 's prog) \<Rightarrow> 's prog" where
  "prog_bind (Ret s) k = k s"
| "prog_bind (Call c s r) k = Call c s (\<lambda>s'. prog_bind (r s') k)"

text \<open>Local calls one after the other, in the order of the list.\<close>

primrec call_all :: "local_call list \<Rightarrow> 's \<Rightarrow> 's prog" where
  "call_all [] s = Ret s"
| "call_all (c # cs) s = Call (Local c) s (call_all cs)"

text \<open>Running a handler when no call changes the service behind its back.\<close>

primrec run_prog :: "'s prog \<Rightarrow> 's \<times> svc_call list" where
  "run_prog (Ret s) = (s, [])"
| "run_prog (Call c s r) = (let (s', cs) = run_prog (r s) in (s', c # cs))"

lemma run_prog_bind:
  "run_prog (prog_bind p k) =
     (let (s, cs) = run_prog p; (s', ds) = run_prog (k s) in (s', cs @ ds))"
  by (induction p) (simp_all split: prod.splits)

lemma run_call_all [simp]: "run_prog (call_all cs s) = (s, map Local cs)"
  by (induction cs) simp_all

text \<open>Using a handler of one service type at a sum of all of them.\<close>

primrec lift_prog :: "('s \<Rightarrow> 't) \<Rightarrow> ('t \<Rightarrow> 's) \<Rightarrow> 's prog \<Rightarrow> 't prog" where
  "lift_prog into out_of (Ret s) = Ret (into s)"
| "lift_prog into out_of (Call c s r) = Call c (into s) (\<lambda>t. lift_prog into out_of (r (out_of t)))"

lemma run_lift_prog:
  "(\<And>s. out_of (into s) = s) \<Longrightarrow>
   run_prog (lift_prog into out_of p) = map_prod into id (run_prog p)"
  by (induction p) (simp_all split: prod.splits)

section \<open>ServiceBase\<close>

record svc_base =
  channel_id :: byte

definition set_channel :: "byte \<Rightarrow> 'a svc_base_scheme \<Rightarrow> 'a svc_base_scheme" where
  "set_channel ch s = s\<lparr>channel_id := ch\<rparr>"

definition send :: "u16 \<Rightarrow> bytes \<Rightarrow> 'a svc_base_scheme \<Rightarrow> 'a svc_base_scheme prog" where
  "send msg_type payload s = Call (SendMsg (channel_id s) msg_type payload) s Ret"

definition base_on_channel_open ::
    "byte \<Rightarrow> 'a svc_base_scheme \<Rightarrow> 'a svc_base_scheme prog" where
  "base_on_channel_open ch s = Ret (s\<lparr>channel_id := ch\<rparr>)"

definition base_on_channel_close :: "'a svc_base_scheme \<Rightarrow> 'a svc_base_scheme" where
  "base_on_channel_close s = s\<lparr>channel_id := 0\<rparr>"

type_synonym 's handlers = "u16 \<rightharpoonup> (bytes \<Rightarrow> 's \<Rightarrow> 's prog)"

definition base_on_message ::
    "(byte \<Rightarrow> 'a svc_base_scheme \<Rightarrow> 'a svc_base_scheme prog) \<Rightarrow>
     'a svc_base_scheme handlers \<Rightarrow> u16 \<Rightarrow> bytes \<Rightarrow> 'a svc_base_scheme \<Rightarrow>
     'a svc_base_scheme prog" where
  "base_on_message on_open handlers message_type payload s =
     (if message_type = ctl ChannelOpenRequest
      then prog_bind (send (ctl ChannelOpenResponse) [0x08, 0x00] s)
             (\<lambda>s. on_open (channel_id s) s)
      else case handlers message_type of
             Some handler \<Rightarrow> handler payload s
           | None \<Rightarrow> Ret s)"

lemma run_send [simp]:
  "run_prog (send t p s) = (s, [SendMsg (channel_id s) t p])"
  by (simp add: send_def)

section \<open>What a service promises\<close>

definition sent :: "svc_call list \<Rightarrow> (byte \<times> u16 \<times> bytes) list" where
  "sent cs = List.map_filter (\<lambda>c. case c of SendMsg ch t p \<Rightarrow> Some (ch, t, p) | Local _ \<Rightarrow> None) cs"

lemma sent_simps [simp]:
  "sent [] = []"
  "sent (SendMsg ch t p # cs) = (ch, t, p) # sent cs"
  "sent (Local l # cs) = sent cs"
  "sent (cs @ ds) = sent cs @ sent ds"
  by (simp_all add: sent_def List.map_filter_def)

lemma sent_map_Local [simp]: "sent (map Local ls) = []"
  by (induction ls) simp_all

text \<open>A service receiving messages one after the other.\<close>

primrec run_msgs ::
    "(u16 \<Rightarrow> bytes \<Rightarrow> 's \<Rightarrow> 's prog) \<Rightarrow> (u16 \<times> bytes) list \<Rightarrow> 's \<Rightarrow> 's \<times> svc_call list" where
  "run_msgs on_msg [] s = (s, [])"
| "run_msgs on_msg (m # ms) s =
     (let (s1, cs) = run_prog (on_msg (fst m) (snd m) s); (s2, ds) = run_msgs on_msg ms s1
      in (s2, cs @ ds))"

text \<open>
  The contract of a channel service: handlers keep the channel id and send on it only,
  an open request is confirmed before anything else happens, and closing leaves the
  service on channel 0 without sending anything.
\<close>

locale channel_service =
  fixes chan :: "'s \<Rightarrow> byte"
    and on_msg :: "u16 \<Rightarrow> bytes \<Rightarrow> 's \<Rightarrow> 's prog"
    and on_close :: "'s \<Rightarrow> 's \<times> local_call list"
  assumes keeps_channel: "chan (fst (run_prog (on_msg t p s))) = chan s"
    and sends_own_channel: "(ch, t', q) \<in> set (sent (snd (run_prog (on_msg t p s)))) \<Longrightarrow> ch = chan s"
    and open_confirmed: "\<exists>cs. snd (run_prog (on_msg (ctl ChannelOpenRequest) p s)) =
      SendMsg (chan s) (ctl ChannelOpenResponse) [0x08, 0x00] # cs"
    and close_resets: "chan (fst (on_close s)) = 0"
begin

lemma run_msgs_channel: "chan (fst (run_msgs on_msg ms s)) = chan s"
  by (induction ms arbitrary: s) (auto simp: split_beta Let_def keeps_channel)

lemma run_msgs_own_channel:
  "(ch, t, q) \<in> set (sent (snd (run_msgs on_msg ms s))) \<Longrightarrow> ch = chan s"
proof (induction ms arbitrary: s)
  case (Cons m ms)
  then show ?case
    using keeps_channel [of "fst m" "snd m" s] sends_own_channel [of ch t q "fst m" "snd m" s]
    by (auto simp: split_beta Let_def)
qed simp

end

section \<open>The contract, from the handlers\<close>

text \<open>A program that leaves the service on channel \<open>ch\<close> and sends on that channel only.\<close>

definition stays_on :: "byte \<Rightarrow> 'a svc_base_scheme prog \<Rightarrow> bool" where
  "stays_on ch p \<longleftrightarrow>
     channel_id (fst (run_prog p)) = ch \<and> (\<forall>m\<in>set (sent (snd (run_prog p))). fst m = ch)"

lemma stays_on_Ret [simp]: "stays_on ch (Ret s) \<longleftrightarrow> channel_id s = ch"
  by (simp add: stays_on_def)

lemma stays_on_send [simp]: "stays_on ch (send t p s) \<longleftrightarrow> channel_id s = ch"
  by (auto simp: stays_on_def)

lemma stays_on_call_all [simp]: "stays_on ch (call_all cs s) \<longleftrightarrow> channel_id s = ch"
  by (simp add: stays_on_def)

lemma stays_on_local [simp]: "stays_on ch (Call (Local c) s r) \<longleftrightarrow> stays_on ch (r s)"
  by (simp add: stays_on_def split_beta Let_def)

lemma stays_on_bind:
  "stays_on ch p \<Longrightarrow> (\<And>s. channel_id s = ch \<Longrightarrow> stays_on ch (k s)) \<Longrightarrow> stays_on ch (prog_bind p k)"
  by (force simp: stays_on_def run_prog_bind split_beta Let_def)

lemma run_open:
  "run_prog (base_on_message on_open handlers 7 p s) =
     (let (s', cs) = run_prog (on_open (channel_id s) s)
      in (s', SendMsg (channel_id s) (ctl ChannelOpenResponse) [0x08, 0x00] # cs))"
  by (simp add: base_on_message_def run_prog_bind)

lemma base_stays_on:
  assumes "\<And>s. stays_on (channel_id s) (on_open (channel_id s) s)"
    and "\<And>t h p s. handlers t = Some h \<Longrightarrow> stays_on (channel_id s) (h p s)"
  shows "stays_on (channel_id s) (base_on_message on_open handlers t p s)"
proof (cases "t = 7")
  case True
  then show ?thesis using assms(1) [of s] by (simp add: stays_on_def run_open split_beta Let_def)
next
  case False
  then show ?thesis using assms(2) [of t _ s p] by (auto simp: base_on_message_def split: option.split)
qed

lemma channel_serviceI:
  assumes "\<And>s. stays_on (channel_id s) (on_open (channel_id s) s)"
    and "\<And>t h p s. handlers t = Some h \<Longrightarrow> stays_on (channel_id s) (h p s)"
    and "\<And>s. channel_id (fst (on_close s)) = 0"
  shows "channel_service channel_id (base_on_message on_open handlers) on_close"
proof
  fix t p and s :: "'a svc_base_scheme" and ch t' q
  have st: "stays_on (channel_id s) (base_on_message on_open handlers t p s)" for t p
    by (rule base_stays_on) (use assms(1,2) in blast)+
  show "channel_id (fst (run_prog (base_on_message on_open handlers t p s))) = channel_id s"
    using st by (simp add: stays_on_def)
  show "ch = channel_id s"
    if "(ch, t', q) \<in> set (sent (snd (run_prog (base_on_message on_open handlers t p s))))"
    using st [of t p] that by (auto simp: stays_on_def)
  show "\<exists>cs. snd (run_prog (base_on_message on_open handlers (ctl ChannelOpenRequest) p s)) =
      SendMsg (channel_id s) (ctl ChannelOpenResponse) [0x08, 0x00] # cs"
    by (simp add: run_open split_beta Let_def)
  show "channel_id (fst (on_close s)) = 0" by (rule assms(3))
qed

end
