(* ===== verification/Control_Service.thy ===== *)
theory Control_Service
  imports Service_Base "HOL-Library.Signed_Division"
begin

text \<open>
  \<open>ControlService\<close> (\<open>core/src/service/ControlService.cpp\<close>): service discovery, focus
  requests, ping and heartbeat, bye-bye.

  \<open>steady_clock::now()\<close> is an argument (nanoseconds, an \<open>int\<close>: the 64-bit counter does
  not wrap within centuries). The peer services are listed with what their \<open>fill_config\<close>
  writes, which depends on their construction-time configuration only. Arming the timer
  and cancelling it are calls out; the expiry is the operation \<open>on_heartbeat_timer\<close>.
\<close>

section \<open>State and operations\<close>

record headunit_config =
  hu_make :: string
  hu_model :: string
  hu_sw_ver :: string
  display_name :: string

record control_service = svc_base +
  cs_hu_config :: headunit_config
  cs_peer_services :: "(int \<times> service_config) list"
  cs_has_close_cb :: bool
  cs_has_phone_cb :: bool
  cs_running :: bool
  cs_last_pong_ns :: int
  cs_close_triggered :: bool

definition kPingIntervalMs :: nat where "kPingIntervalMs = 5000"
definition kPingTimeoutMs :: int where "kPingTimeoutMs = 10000"

definition new_control_service ::
    "headunit_config \<Rightarrow> (int \<times> service_config) list \<Rightarrow> control_service" where
  "new_control_service hu peers =
     \<lparr>channel_id = 0, cs_hu_config = hu, cs_peer_services = peers, cs_has_close_cb = False,
      cs_has_phone_cb = False, cs_running = False, cs_last_pong_ns = 0,
      cs_close_triggered = False\<rparr>"

definition service_discovery_message :: "control_service \<Rightarrow> pb_out" where
  "service_discovery_message s =
     (let hu = cs_hu_config s in PbServiceDiscoveryResponse
       \<lparr>sdr_display_name = display_name hu,
        sdr_driver_position = DRIVER_POSITION_LEFT,
        sdr_session_configuration = 0,
        sdr_headunit_info =
          \<lparr>hui_make = hu_make hu, hui_model = hu_model hu,
           hui_head_unit_make = hu_make hu, hui_head_unit_model = hu_model hu,
           hui_software_version = hu_sw_ver hu, hui_software_build = hu_sw_ver hu\<rparr>,
        sdr_ping =
          \<lparr>tracked_ping_count = 5, timeout_ms = 3000, interval_ms = 1000,
           high_latency_threshold_ms = 200\<rparr>,
        sdr_channels = cs_peer_services s\<rparr>)"

definition send_service_discovery_response ::
    "pb_codec \<Rightarrow> control_service \<Rightarrow> control_service prog" where
  "send_service_discovery_response codec s =
     send (ctl ServiceDiscoveryResponse) (ser codec (service_discovery_message s)) s"

definition on_service_discovery_request ::
    "pb_codec \<Rightarrow> bytes \<Rightarrow> control_service \<Rightarrow> control_service prog" where
  "on_service_discovery_request codec payload s =
     (case parse_service_discovery_request codec payload of
        None \<Rightarrow> send_service_discovery_response codec s
      | Some req \<Rightarrow>
          let phone_name = (case req_device_name req of None \<Rightarrow> ''unknown'' | Some n \<Rightarrow> n)
          in if cs_has_phone_cb s
             then Call (Local (PhoneIdentified phone_name)) s (send_service_discovery_response codec)
             else send_service_discovery_response codec s)"

definition granted_focus_state :: "int \<Rightarrow> int" where
  "granted_focus_state request_type =
     (if request_type = AUDIO_FOCUS_GAIN then AUDIO_FOCUS_STATE_GAIN
      else if request_type = AUDIO_FOCUS_GAIN_TRANSIENT then AUDIO_FOCUS_STATE_GAIN_TRANSIENT
      else if request_type = AUDIO_FOCUS_GAIN_TRANSIENT_MAY_DUCK
        then AUDIO_FOCUS_STATE_GAIN_TRANSIENT_GUIDANCE_ONLY
      else if request_type = AUDIO_FOCUS_RELEASE then AUDIO_FOCUS_STATE_LOSS
      else AUDIO_FOCUS_STATE_GAIN)"

definition on_audio_focus_request ::
    "pb_codec \<Rightarrow> bytes \<Rightarrow> control_service \<Rightarrow> control_service prog" where
  "on_audio_focus_request codec payload s =
     (case parse_audio_focus_request codec payload of
        None \<Rightarrow> Ret s
      | Some request_type \<Rightarrow>
          send (ctl AudioFocusNotification)
            (ser codec (PbAudioFocusNotification (granted_focus_state request_type) False)) s)"

definition on_nav_focus_request ::
    "pb_codec \<Rightarrow> bytes \<Rightarrow> control_service \<Rightarrow> control_service prog" where
  "on_nav_focus_request codec payload s =
     send (ctl NavFocusNotification) (ser codec (PbNavFocusNotification NAV_FOCUS_PROJECTED)) s"

definition on_ping_request ::
    "pb_codec \<Rightarrow> bytes \<Rightarrow> control_service \<Rightarrow> control_service prog" where
  "on_ping_request codec payload s =
     (case parse_ping_request codec payload of
        None \<Rightarrow> Ret s
      | Some timestamp \<Rightarrow> send (ctl PingResponse) (ser codec (PbPingResponse timestamp)) s)"

definition on_ping_response :: "int \<Rightarrow> bytes \<Rightarrow> control_service \<Rightarrow> control_service prog" where
  "on_ping_response now payload s = Ret (s\<lparr>cs_last_pong_ns := now\<rparr>)"

definition trigger_session_close :: "control_service \<Rightarrow> control_service prog" where
  "trigger_session_close s =
     (if cs_close_triggered s then Ret s
      else let s1 = s\<lparr>cs_close_triggered := True\<rparr>
           in if cs_has_close_cb s1 then call_all [SessionClose] s1 else Ret s1)"

definition on_byebye_request :: "bytes \<Rightarrow> control_service \<Rightarrow> control_service prog" where
  "on_byebye_request payload s =
     prog_bind (send (ctl ByeByeResponse) [] s) trigger_session_close"

definition on_byebye_response :: "bytes \<Rightarrow> control_service \<Rightarrow> control_service prog" where
  "on_byebye_response payload s = trigger_session_close s"

definition control_handlers :: "pb_codec \<Rightarrow> int \<Rightarrow> control_service handlers" where
  "control_handlers codec now =
     [ctl ServiceDiscoveryRequest \<mapsto> on_service_discovery_request codec,
      ctl AudioFocusRequest \<mapsto> on_audio_focus_request codec,
      ctl NavFocusRequest \<mapsto> on_nav_focus_request codec,
      ctl PingRequest \<mapsto> on_ping_request codec,
      ctl PingResponse \<mapsto> on_ping_response now,
      ctl ByeByeRequest \<mapsto> on_byebye_request,
      ctl ByeByeResponse \<mapsto> on_byebye_response,
      ctl VoiceSessionNotification \<mapsto> (\<lambda>payload. Ret),
      ctl BatteryStatusNotification \<mapsto> (\<lambda>payload. Ret)]"

definition schedule_heartbeat :: "control_service \<Rightarrow> control_service prog" where
  "schedule_heartbeat s = call_all [ArmHeartbeat kPingIntervalMs] s"

definition control_on_channel_open ::
    "int \<Rightarrow> byte \<Rightarrow> control_service \<Rightarrow> control_service prog" where
  "control_on_channel_open now ch s =
     prog_bind (base_on_channel_open ch s)
       (\<lambda>s. schedule_heartbeat
              (s\<lparr>cs_last_pong_ns := now, cs_close_triggered := False, cs_running := True\<rparr>))"

definition control_on_message ::
    "pb_codec \<Rightarrow> int \<Rightarrow> u16 \<Rightarrow> bytes \<Rightarrow> control_service \<Rightarrow> control_service prog" where
  "control_on_message codec now =
     base_on_message (control_on_channel_open now) (control_handlers codec now)"

definition control_on_channel_close ::
    "control_service \<Rightarrow> control_service \<times> local_call list" where
  "control_on_channel_close s =
     (base_on_channel_close (s\<lparr>cs_running := False\<rparr>), [CancelHeartbeat])"

definition control_release_audio_focus :: "pb_codec \<Rightarrow> control_service \<Rightarrow> control_service prog" where
  "control_release_audio_focus codec s =
     send (ctl AudioFocusNotification)
       (ser codec (PbAudioFocusNotification AUDIO_FOCUS_STATE_LOSS True)) s"

definition control_gain_audio_focus :: "pb_codec \<Rightarrow> control_service \<Rightarrow> control_service prog" where
  "control_gain_audio_focus codec s =
     send (ctl AudioFocusNotification)
       (ser codec (PbAudioFocusNotification AUDIO_FOCUS_STATE_GAIN True)) s"

definition send_ping :: "pb_codec \<Rightarrow> int \<Rightarrow> control_service \<Rightarrow> control_service prog" where
  "send_ping codec now s =
     send (ctl PingRequest) (ser codec (PbPingRequest (word_of_int (now sdiv 1000000)))) s"

text \<open>The clock is read twice: for the ping's timestamp, then for the elapsed time.\<close>

definition on_heartbeat_timer ::
    "pb_codec \<Rightarrow> bool \<Rightarrow> int \<Rightarrow> int \<Rightarrow> control_service \<Rightarrow> control_service prog" where
  "on_heartbeat_timer codec aborted ping_now now s =
     (if aborted \<or> \<not> cs_running s then Ret s
      else prog_bind (send_ping codec ping_now s)
        (\<lambda>s. if (now - cs_last_pong_ns s) sdiv 1000000 > kPingTimeoutMs
             then trigger_session_close s
             else schedule_heartbeat s))"

definition initiate_bye :: "pb_codec \<Rightarrow> control_service \<Rightarrow> control_service prog" where
  "initiate_bye codec s =
     send (ctl ByeByeRequest) (ser codec (PbByeByeRequest USER_SELECTION)) s"

definition control_on_session_stop :: "pb_codec \<Rightarrow> control_service \<Rightarrow> control_service prog" where
  "control_on_session_stop codec s = initiate_bye codec s"

lemmas control_handler_defs =
  on_service_discovery_request_def send_service_discovery_response_def
  on_audio_focus_request_def on_nav_focus_request_def on_ping_request_def on_ping_response_def
  on_byebye_request_def on_byebye_response_def trigger_session_close_def
  schedule_heartbeat_def control_on_channel_open_def base_on_channel_open_def

section \<open>The service contract\<close>

lemma control_open_run [simplified]:
  "run_prog (control_on_message codec now (ctl ChannelOpenRequest) p s) =
     (s\<lparr>cs_last_pong_ns := now, cs_close_triggered := False, cs_running := True\<rparr>,
      [SendMsg (channel_id s) (ctl ChannelOpenResponse) [0x08, 0x00],
       Local (ArmHeartbeat kPingIntervalMs)])"
  by (simp add: control_on_message_def run_open control_handler_defs)

interpretation control: channel_service channel_id "control_on_message codec now"
    control_on_channel_close for codec now
  unfolding control_on_message_def
  by (rule channel_serviceI)
     (auto simp: control_handlers_def control_handler_defs control_on_channel_close_def
        base_on_channel_close_def Let_def intro!: stays_on_bind split: if_splits option.splits)

section \<open>Closing the session, once\<close>

definition closes :: "svc_call list \<Rightarrow> nat" where
  "closes cs = length (filter (\<lambda>c. c = Local SessionClose) cs)"

lemma closes_simps [simp]:
  "closes [] = 0" "closes (cs @ ds) = closes cs + closes ds"
  "closes (c # cs) = (if c = Local SessionClose then Suc (closes cs) else closes cs)"
  by (simp_all add: closes_def)

definition asks_to_close :: "u16 \<Rightarrow> bool" where
  "asks_to_close t \<longleftrightarrow> t = ctl ByeByeRequest \<or> t = ctl ByeByeResponse"

lemma control_message_close:
  fixes codec :: pb_codec and now :: int and p :: bytes and s :: control_service
  assumes "t \<noteq> ctl ChannelOpenRequest"
  defines "r \<equiv> run_prog (control_on_message codec now t p s)"
  shows "closes (snd r) = (if asks_to_close t \<and> \<not> cs_close_triggered s \<and> cs_has_close_cb s then 1 else 0)"
    and "cs_close_triggered (fst r) \<longleftrightarrow> cs_close_triggered s \<or> asks_to_close t"
    and "cs_has_close_cb (fst r) = cs_has_close_cb s"
  using assms
  by (auto simp: control_on_message_def base_on_message_def control_handlers_def asks_to_close_def
      control_handler_defs run_prog_bind Let_def split: option.splits)

definition sample_codec :: pb_codec where
  "sample_codec =
     \<lparr>ser = (\<lambda>m. []), parse_service_discovery_request = (\<lambda>b. None),
      parse_audio_focus_request = (\<lambda>b. Some (int (length b))),
      parse_ping_request = (\<lambda>b. None), parse_start = (\<lambda>b. None),
      parse_video_focus_request = (\<lambda>b. None), parse_sensor_request = (\<lambda>b. None),
      parse_pairing_request = (\<lambda>b. None), parse_authentication_data = (\<lambda>b. None),
      parse_playback_status = (\<lambda>b. None), parse_playback_metadata = (\<lambda>b. None),
      parse_phone_status = (\<lambda>b. None), parse_root_node = (\<lambda>b. None),
      parse_source_node = (\<lambda>b. None), parse_list_node = (\<lambda>b. None),
      parse_song_node = (\<lambda>b. None)\<rparr>"

definition sample_control :: control_service where
  "sample_control =
     (new_control_service
        \<lparr>hu_make = ''TCC'', hu_model = ''TCC803x'', hu_sw_ver = ''1.0.0'',
         display_name = ''Android Auto''\<rparr> [])
       \<lparr>cs_has_close_cb := True, cs_running := True\<rparr>"

text \<open>
  A bye-bye is answered before the session closes: on a request the response goes out
  on the control channel first, and the close callback follows it unless a close was
  already triggered; heartbeats and pings are not involved.
\<close>

theorem control_byebye_answered_first:
  "snd (run_prog (control_on_message codec now (ctl ByeByeRequest) payload s)) =
     SendMsg (channel_id s) (ctl ByeByeResponse) [] #
       (if cs_has_close_cb s \<and> \<not> cs_close_triggered s then [Local SessionClose] else [])"
  by (simp add: control_on_message_def base_on_message_def control_handlers_def
      control_handler_defs run_prog_bind Let_def)

section \<open>The heartbeat watchdog\<close>

text \<open>Timer expiries and pongs, with the time at which each is handled.\<close>

datatype watchdog_event = Tick int | Pong int

text \<open>
  The service from one armed timer on. A \<open>Tick\<close> is handled only while the timer is armed:
  after an expiry that does not arm it again there is none.
\<close>

primrec watchdog_run ::
    "pb_codec \<Rightarrow> watchdog_event list \<Rightarrow> control_service \<Rightarrow> svc_call list" where
  "watchdog_run codec [] s = []"
| "watchdog_run codec (e # es) s =
     (case e of
        Pong now \<Rightarrow>
          (let (s1, cs) = run_prog (control_on_message codec now (ctl PingResponse) [] s)
           in cs @ watchdog_run codec es s1)
      | Tick now \<Rightarrow>
          (let (s1, cs) = run_prog (on_heartbeat_timer codec False now now s)
           in cs @ (if Local (ArmHeartbeat kPingIntervalMs) \<in> set cs
                    then watchdog_run codec es s1 else [])))"

text \<open>Some expiry comes more than ten whole seconds after the last pong before it.\<close>

primrec overdue :: "int \<Rightarrow> watchdog_event list \<Rightarrow> bool" where
  "overdue last_pong [] = False"
| "overdue last_pong (e # es) =
     (case e of Pong now \<Rightarrow> overdue now es
      | Tick now \<Rightarrow> now - last_pong \<ge> 10001 * 1000000 \<or> overdue last_pong es)"

definition stale :: "int \<Rightarrow> control_service \<Rightarrow> bool" where
  "stale now s \<longleftrightarrow> (now - cs_last_pong_ns s) sdiv 1000000 > kPingTimeoutMs"

lemma elapsed_ms_limit: "(d sdiv 1000000 > kPingTimeoutMs) \<longleftrightarrow> d \<ge> 10001 * (1000000 :: int)"
proof (cases "d \<ge> 0")
  case True
  then have "d sdiv 1000000 = d div 1000000" by (simp add: signed_divide_int_def sgn_if)
  moreover have "d = 1000000 * (d div 1000000) + d mod 1000000" by simp
  then have "d div 1000000 > 10000 \<longleftrightarrow> d \<ge> 10001 * 1000000"
    using pos_mod_bound [of 1000000 d] pos_mod_sign [of 1000000 d] by linarith
  ultimately show ?thesis by (simp add: kPingTimeoutMs_def)
next
  case False
  then have "d sdiv 1000000 \<le> 0"
    by (simp add: signed_divide_int_def sgn_if pos_imp_zdiv_nonneg_iff)
  with False show ?thesis by (simp add: kPingTimeoutMs_def)
qed

lemma heartbeat_tick:
  assumes "cs_running s"
  shows "run_prog (on_heartbeat_timer codec False ping_now now s) =
    (let ping = SendMsg (channel_id s) (ctl PingRequest)
           (ser codec (PbPingRequest (word_of_int (ping_now sdiv 1000000))))
     in if stale now s
        then (s\<lparr>cs_close_triggered := True\<rparr>,
              ping # (if cs_has_close_cb s \<and> \<not> cs_close_triggered s then [Local SessionClose] else []))
        else (s, [ping, Local (ArmHeartbeat kPingIntervalMs)]))"
  using assms
  by (simp add: on_heartbeat_timer_def send_ping_def run_prog_bind stale_def [symmetric] Let_def
      trigger_session_close_def schedule_heartbeat_def)

lemma pong_run [simplified]:
  "run_prog (control_on_message codec now (ctl PingResponse) p s) = (s\<lparr>cs_last_pong_ns := now\<rparr>, [])"
  by (simp add: control_on_message_def base_on_message_def control_handlers_def control_handler_defs)

lemma overdue_Tick: "overdue (cs_last_pong_ns s) (Tick now # es) \<longleftrightarrow>
    stale now s \<or> overdue (cs_last_pong_ns s) es"
  by (simp add: stale_def elapsed_ms_limit)

lemma watchdog_run_Tick:
  "cs_running s \<Longrightarrow> cs_has_close_cb s \<Longrightarrow> \<not> cs_close_triggered s \<Longrightarrow>
   watchdog_run codec (Tick now # es) s =
     SendMsg (channel_id s) (ctl PingRequest) (ser codec (PbPingRequest (word_of_int (now sdiv 1000000))))
     # (if stale now s then [Local SessionClose]
        else Local (ArmHeartbeat kPingIntervalMs) # watchdog_run codec es s)"
  by (simp add: heartbeat_tick Let_def)

lemma watchdog_run_Pong:
  "watchdog_run codec (Pong now # es) s = watchdog_run codec es (s\<lparr>cs_last_pong_ns := now\<rparr>)"
  by (simp add: pong_run)

subsection \<open>All callers\<close>

text \<open>Everything that reaches the control service, from the phone, its timer and the head unit.\<close>

datatype control_event =
    CtlMessage int u16 bytes
  | CtlHeartbeat bool int int   \<comment> \<open>an expiry or, with \<open>True\<close>, the cancelled timer; the two readings of the clock\<close>
  | CtlOpen int byte
  | CtlClose
  | CtlSessionStop
  | CtlReleaseFocus
  | CtlGainFocus

definition control_step :: "pb_codec \<Rightarrow> control_event \<Rightarrow> control_service \<Rightarrow> control_service \<times> svc_call list" where
  "control_step codec e s =
     (case e of
        CtlMessage now t p \<Rightarrow> run_prog (control_on_message codec now t p s)
      | CtlHeartbeat aborted ping_now now \<Rightarrow> run_prog (on_heartbeat_timer codec aborted ping_now now s)
      | CtlOpen now ch \<Rightarrow> run_prog (control_on_channel_open now ch s)
      | CtlClose \<Rightarrow> (let (s1, cs) = control_on_channel_close s in (s1, map Local cs))
      | CtlSessionStop \<Rightarrow> run_prog (control_on_session_stop codec s)
      | CtlReleaseFocus \<Rightarrow> run_prog (control_release_audio_focus codec s)
      | CtlGainFocus \<Rightarrow> run_prog (control_gain_audio_focus codec s))"

primrec control_calls :: "pb_codec \<Rightarrow> control_event list \<Rightarrow> control_service \<Rightarrow> svc_call list" where
  "control_calls codec [] s = []"
| "control_calls codec (e # es) s =
     (let (s1, cs) = control_step codec e s in cs @ control_calls codec es s1)"

text \<open>The channel is opened (again), and a bye-bye or an overdue pong gives a reason to close.\<close>

definition opens_channel :: "control_event \<Rightarrow> bool" where
  "opens_channel e \<longleftrightarrow>
     (case e of CtlMessage now t p \<Rightarrow> t = ctl ChannelOpenRequest | CtlOpen now ch \<Rightarrow> True | _ \<Rightarrow> False)"

definition reason_to_close :: "control_service \<Rightarrow> control_event \<Rightarrow> bool" where
  "reason_to_close s e \<longleftrightarrow>
     (case e of
        CtlMessage now t p \<Rightarrow> t = ctl ByeByeRequest \<or> t = ctl ByeByeResponse
      | CtlHeartbeat aborted ping_now now \<Rightarrow>
          \<not> aborted \<and> cs_running s \<and> now - cs_last_pong_ns s \<ge> 10001 * 1000000
      | _ \<Rightarrow> False)"

primrec some_reason :: "pb_codec \<Rightarrow> control_event list \<Rightarrow> control_service \<Rightarrow> bool" where
  "some_reason codec [] s = False"
| "some_reason codec (e # es) s \<longleftrightarrow>
     reason_to_close s e \<or> some_reason codec es (fst (control_step codec e s))"

lemma control_step_closes:
  fixes codec :: pb_codec and s :: control_service
  assumes "\<not> opens_channel e" and "cs_has_close_cb s"
  defines "r \<equiv> control_step codec e s"
  shows "closes (snd r) = (if reason_to_close s e \<and> \<not> cs_close_triggered s then 1 else 0)"
    and "cs_close_triggered (fst r) \<longleftrightarrow> cs_close_triggered s \<or> reason_to_close s e"
    and "cs_has_close_cb (fst r)"
proof -
  have "closes (snd r) = (if reason_to_close s e \<and> \<not> cs_close_triggered s then 1 else 0)
    \<and> (cs_close_triggered (fst r) \<longleftrightarrow> cs_close_triggered s \<or> reason_to_close s e) \<and> cs_has_close_cb (fst r)"
  proof (cases e)
    case (CtlMessage now t p)
    with assms(1,2) control_message_close [of t codec now p s] show ?thesis
      by (simp add: r_def control_step_def opens_channel_def reason_to_close_def asks_to_close_def)
  next
    case (CtlHeartbeat aborted ping_now now)
    with assms(2) show ?thesis
      by (cases "aborted \<or> \<not> cs_running s")
         (auto simp: r_def control_step_def reason_to_close_def heartbeat_tick Let_def stale_def elapsed_ms_limit,
          simp_all add: on_heartbeat_timer_def)
  qed (use assms(1,2) in \<open>simp_all add: r_def control_step_def opens_channel_def reason_to_close_def Let_def
      control_on_channel_close_def base_on_channel_close_def control_on_session_stop_def initiate_bye_def
      control_release_audio_focus_def control_gain_audio_focus_def\<close>)
  then show "closes (snd r) = (if reason_to_close s e \<and> \<not> cs_close_triggered s then 1 else 0)"
    "cs_close_triggered (fst r) \<longleftrightarrow> cs_close_triggered s \<or> reason_to_close s e"
    "cs_has_close_cb (fst r)" by simp_all
qed

lemma open_step_closes:
  fixes codec :: pb_codec and s :: control_service
  assumes "opens_channel e" and "cs_has_close_cb s"
  shows "closes (snd (control_step codec e s)) = 0" and "cs_has_close_cb (fst (control_step codec e s))"
  using assms
  by (cases e; simp add: opens_channel_def control_step_def control_open_run control_on_channel_open_def
      base_on_channel_open_def schedule_heartbeat_def run_prog_bind)+

text \<open>
  C34. The control service asks for the session to be closed at most once for each opening of its
  channel, whoever gives the reason. In any sequence of messages, timer expiries and calls of the
  head unit, the close callback is called at most once more often than the channel is opened in
  it, and no more often than that if a close was requested before; and as long as the channel is
  not opened again, it is called exactly once if there is a reason, a bye-bye request or
  response or an expiry that finds the pong overdue, and no close was requested before, and
  never otherwise.
\<close>

theorem control_closes_session_once:
  assumes "cs_has_close_cb s"
  shows "closes (control_calls codec es s)
      \<le> length (filter opens_channel es) + (if cs_close_triggered s then 0 else 1)
    \<and> ((\<forall>e\<in>set es. \<not> opens_channel e) \<longrightarrow>
        closes (control_calls codec es s) = (if cs_close_triggered s \<or> \<not> some_reason codec es s then 0 else 1))"
  using assms
proof (induction es arbitrary: s)
  case (Cons e es)
  let ?r = "control_step codec e s"
  show ?case
  proof (cases "opens_channel e")
    case True
    with Cons.IH [of "fst ?r"] open_step_closes [OF True Cons.prems, of codec] show ?thesis
      by (auto simp: split_beta Let_def split: if_splits)
  next
    case False
    with Cons.IH [of "fst ?r"] control_step_closes [OF False Cons.prems, of codec] show ?thesis
      by (auto simp: split_beta Let_def split: if_splits)
  qed
qed simp

text \<open>The pong is overdue at the second expiry, and the phone says goodbye after it.\<close>

theorem control_closes_session_once_witness:
  "closes (control_calls sample_codec
     [CtlHeartbeat False 0 5000000000, CtlHeartbeat False 0 20000000000, CtlMessage 0 15 [], CtlMessage 0 16 []]
     sample_control) = 1"
  using control_closes_session_once [of sample_control sample_codec
      "[CtlHeartbeat False 0 5000000000, CtlHeartbeat False 0 20000000000, CtlMessage 0 15 [], CtlMessage 0 16 []]"]
  by (simp add: sample_control_def new_control_service_def opens_channel_def reason_to_close_def
      del: control_calls.simps)

subsection \<open>When the watchdog closes\<close>

text \<open>
  C35. The heartbeat watchdog closes the session exactly when it should. Whatever the
  timing of timer expiries and pongs, a running control service requests the close if and
  only if some expiry finds the last pong more than ten seconds old, to the millisecond
  the code rounds to; and if none does, every expiry sends one ping.
\<close>

theorem watchdog_closes_iff_overdue:
  assumes "cs_running s" and "cs_has_close_cb s" and "\<not> cs_close_triggered s"
  shows "(Local SessionClose \<in> set (watchdog_run codec es s) \<longleftrightarrow> overdue (cs_last_pong_ns s) es)
    \<and> (overdue (cs_last_pong_ns s) es \<or>
       length (sent (watchdog_run codec es s)) = length (filter (\<lambda>e. \<exists>t. e = Tick t) es))"
  using assms
proof (induction es arbitrary: s)
  case (Cons e es)
  show ?case
  proof (cases e)
    case (Tick now)
    with Cons.IH [OF Cons.prems] show ?thesis
      by (auto simp: watchdog_run_Tick [OF Cons.prems] overdue_Tick
          simp del: watchdog_run.simps overdue.simps)
  next
    case (Pong now)
    with Cons.IH [of "s\<lparr>cs_last_pong_ns := now\<rparr>"] Cons.prems show ?thesis
      by (simp add: watchdog_run_Pong del: watchdog_run.simps)
  qed
qed simp

theorem watchdog_closes_iff_overdue_witness:
  "Local SessionClose \<in> set (watchdog_run sample_codec
     [Tick 5000000000, Pong 6000000000, Tick 10000000000, Tick 15000000000, Tick 20000000000]
     sample_control)"
  using watchdog_closes_iff_overdue [of sample_control sample_codec
    "[Tick 5000000000, Pong 6000000000, Tick 10000000000, Tick 15000000000, Tick 20000000000]"]
  by (simp add: sample_control_def new_control_service_def del: watchdog_run.simps)

text \<open>
  The head unit offers exactly its services: whatever the discovery request looks
  like, even when it cannot be parsed, one response goes out, its channel list is the peer
  services with their configurations in the order of their ids, and the application hears
  of the phone before that if and only if the request could be parsed.
\<close>

theorem discovery_offers_peers:
  "run_prog (control_on_message codec now (ctl ServiceDiscoveryRequest) payload s) =
     (s, (case parse_service_discovery_request codec payload of
            Some req \<Rightarrow> if cs_has_phone_cb s
              then [Local (PhoneIdentified
                     (case req_device_name req of Some n \<Rightarrow> n | None \<Rightarrow> ''unknown''))] else []
          | None \<Rightarrow> []) @
         [SendMsg (channel_id s) (ctl ServiceDiscoveryResponse)
            (ser codec (service_discovery_message s))])
   \<and> (\<exists>resp. service_discovery_message s = PbServiceDiscoveryResponse resp
        \<and> sdr_channels resp = cs_peer_services s)"
  by (auto simp: control_on_message_def base_on_message_def control_handlers_def
      control_handler_defs service_discovery_message_def Let_def split: option.splits)

end
