(* ===== verification/Media_Sink.thy ===== *)
theory Media_Sink
  imports Service_Base
begin

text \<open>
  What the video and audio services have in common: the timestamp prefix of media data,
  the acknowledgement, and two contracts. \<open>acked_media\<close> is the credit-based flow control
  of the protocol (the phone may have \<open>max_unacked\<close> data messages outstanding, so every
  one of them must be acknowledged exactly once). \<open>lifecycle\<close> is an order of calls a sink
  may rely on (\<open>core/include/aauto/sink/IVideoSink.hpp\<close>, \<open>IAudioSink.hpp\<close>).
\<close>

section \<open>Media data\<close>

text \<open>\<open>memcpy\<close> of eight bytes into an \<open>int64_t\<close> on a little-endian host.\<close>

primrec le_value :: "bytes \<Rightarrow> nat" where
  "le_value [] = 0"
| "le_value (b # bs) = unat b + 256 * le_value bs"

definition kMediaTimestampBytes :: nat where "kMediaTimestampBytes = 8"

definition split_timestamp :: "bytes \<Rightarrow> bytes \<times> i64" where
  "split_timestamp data =
     (if length data > kMediaTimestampBytes
      then (drop kMediaTimestampBytes data, word_of_nat (le_value (take kMediaTimestampBytes data)))
      else (data, 0))"

definition media_ack :: "pb_codec \<Rightarrow> i32 \<Rightarrow> bytes" where
  "media_ack codec session_id = ser codec (PbAck session_id 1)"

definition media_config_reply :: "pb_codec \<Rightarrow> bytes" where
  "media_config_reply codec = ser codec (PbMediaConfig CONFIG_STATUS_READY 10 [0])"

section \<open>Contract: every data message is acknowledged once\<close>

definition acks :: "svc_call list \<Rightarrow> nat" where
  "acks cs = length (filter (\<lambda>m. fst (snd m) = med MediaAck) (sent cs))"

lemma acks_simps [simp]:
  "acks [] = 0"
  "acks (SendMsg ch t p # cs) = (if t = med MediaAck then 1 else 0) + acks cs"
  "acks (Local l # cs) = acks cs"
  "acks (cs @ ds) = acks cs + acks ds"
  "acks (map Local ls) = 0"
  by (simp_all add: acks_def)

locale acked_media = channel_service chan on_msg on_close
  for chan :: "'s \<Rightarrow> byte" and on_msg :: "u16 \<Rightarrow> bytes \<Rightarrow> 's \<Rightarrow> 's prog"
    and on_close :: "'s \<Rightarrow> 's \<times> local_call list" +
  fixes acked :: "u16 \<Rightarrow> bool"
  assumes one_ack: "acks (snd (run_prog (on_msg t p s))) = (if acked t then 1 else 0)"
begin

lemma flow_control:
  "acks (snd (run_msgs on_msg ms s)) = length (filter (\<lambda>m. acked (fst m)) ms)"
  by (induction ms arbitrary: s) (auto simp: split_beta Let_def one_ack)

text \<open>Every prefix of the messages is answered in full: no credit is ever outstanding.\<close>

lemma credit_returned:
  "acks (snd (run_msgs on_msg (take n ms) s)) = length (filter (\<lambda>m. acked (fst m)) (take n ms))"
  by (rule flow_control)

end

section \<open>Contract: the order of calls to a sink\<close>

primrec follows :: "('p \<Rightarrow> 'c \<Rightarrow> 'p option) \<Rightarrow> 'p \<Rightarrow> 'c list \<Rightarrow> 'p option" where
  "follows nxt ph [] = Some ph"
| "follows nxt ph (c # cs) = (case nxt ph c of None \<Rightarrow> None | Some ph1 \<Rightarrow> follows nxt ph1 cs)"

lemma follows_append:
  "follows nxt ph (cs @ ds) =
     (case follows nxt ph cs of None \<Rightarrow> None | Some ph1 \<Rightarrow> follows nxt ph1 ds)"
  by (induction cs arbitrary: ph) (simp_all split: option.split)

text \<open>Operations one after the other, with all their calls.\<close>

primrec run_ops :: "('s \<Rightarrow> 'e \<Rightarrow> 's \<times> svc_call list) \<Rightarrow> 's \<Rightarrow> 'e list \<Rightarrow> 's \<times> svc_call list" where
  "run_ops step s [] = (s, [])"
| "run_ops step s (e # es) =
     (let (s1, cs) = step s e; (s2, ds) = run_ops step s1 es in (s2, cs @ ds))"

locale lifecycle =
  fixes step :: "'s \<Rightarrow> 'e \<Rightarrow> 's \<times> svc_call list"
    and sink_calls :: "svc_call list \<Rightarrow> 'c list"
    and phase :: "'s \<Rightarrow> 'p"
    and nxt :: "'p \<Rightarrow> 'c \<Rightarrow> 'p option"
    and ok :: "'s \<Rightarrow> bool"
  assumes calls_Nil: "sink_calls [] = []"
    and calls_append: "sink_calls (cs @ ds) = sink_calls cs @ sink_calls ds"
    and step_ok: "ok s \<Longrightarrow> ok (fst (step s e))"
    and step_follows: "ok s \<Longrightarrow>
      follows nxt (phase s) (sink_calls (snd (step s e))) = Some (phase (fst (step s e)))"
begin

lemma run_follows:
  "ok s \<Longrightarrow> follows nxt (phase s) (sink_calls (snd (run_ops step s es))) =
     Some (phase (fst (run_ops step s es)))"
proof (induction es arbitrary: s)
  case Nil
  then show ?case by (simp add: calls_Nil)
next
  case (Cons e es)
  show ?case
    using Cons.IH [OF step_ok [OF Cons.prems]] step_follows [OF Cons.prems, of e]
    by (simp add: split_beta Let_def calls_append follows_append)
qed

end

end
