(* ===== verification/Audio_Service.thy ===== *)
theory Audio_Service
  imports Media_Sink
begin

text \<open>
  \<open>AudioService\<close> (\<open>core/src/service/AudioService.cpp\<close>): one PCM stream of the phone,
  multicast to the sinks. The sinks are known by their number; a call to all of them is
  the list of calls in index order.
\<close>

section \<open>State and operations\<close>

record audio_service_config =
  as_stream_type :: audio_stream_type
  as_sample_rate :: u32
  as_bit_depth :: u32
  as_channel_count :: u32

record audio_service = svc_base +
  aud_config :: audio_service_config
  aud_sinks :: nat
  aud_sinks_active :: bool
  aud_session_id :: i32
  aud_started :: bool
  aud_current_config :: audio_config

definition new_audio_service :: "audio_service_config \<Rightarrow> nat \<Rightarrow> audio_service" where
  "new_audio_service cfg sinks =
     \<lparr>channel_id = 0, aud_config = cfg, aud_sinks = sinks, aud_sinks_active = False,
      aud_session_id = 0, aud_started = False,
      aud_current_config =
        \<lparr>ac_sample_rate = 0, ac_bit_depth = 0, ac_channel_count = 0, ac_codec_type = 0\<rparr>\<rparr>"

definition audio_calls :: "nat \<Rightarrow> audio_call \<Rightarrow> local_call list" where
  "audio_calls n c = map (\<lambda>i. AudioSink i c) [0..<n]"

definition audio_send_ack :: "pb_codec \<Rightarrow> audio_service \<Rightarrow> audio_service prog" where
  "audio_send_ack codec s = send (med MediaAck) (media_ack codec (aud_session_id s)) s"

definition audio_on_setup :: "pb_codec \<Rightarrow> bytes \<Rightarrow> audio_service \<Rightarrow> audio_service prog" where
  "audio_on_setup codec payload s = send (med MediaConfig) (media_config_reply codec) s"

definition audio_on_config :: "bytes \<Rightarrow> audio_service \<Rightarrow> audio_service prog" where
  "audio_on_config payload s = Ret s"

definition audio_on_start :: "pb_codec \<Rightarrow> bytes \<Rightarrow> audio_service \<Rightarrow> audio_service prog" where
  "audio_on_start codec payload s =
     (let s1 = (case parse_start codec payload of
                  None \<Rightarrow> s | Some st \<Rightarrow> s\<lparr>aud_session_id := start_session_id st\<rparr>);
          s2 = s1\<lparr>aud_started := True\<rparr>
      in call_all (audio_calls (aud_sinks s2)
           (AConfigure (aud_current_config s2) (as_stream_type (aud_config s2)))) s2)"

definition audio_on_codec_config :: "bytes \<Rightarrow> audio_service \<Rightarrow> audio_service prog" where
  "audio_on_codec_config payload s =
     (if \<not> aud_started s then Ret s
      else call_all (audio_calls (aud_sinks s) (ACodecConfig payload)) s)"

definition audio_on_data :: "pb_codec \<Rightarrow> bytes \<Rightarrow> audio_service \<Rightarrow> audio_service prog" where
  "audio_on_data codec payload s =
     (if \<not> aud_started s \<or> \<not> aud_sinks_active s then audio_send_ack codec s
      else let (pcm, timestamp_us) = split_timestamp payload
           in prog_bind (call_all (audio_calls (aud_sinks s) (AData pcm timestamp_us)) s)
                (audio_send_ack codec))"

definition audio_stop_calls :: "audio_service \<Rightarrow> local_call list" where
  "audio_stop_calls s = (if aud_started s then audio_calls (aud_sinks s) AStop else [])"

definition audio_on_stop :: "bytes \<Rightarrow> audio_service \<Rightarrow> audio_service prog" where
  "audio_on_stop payload s =
     prog_bind (call_all (audio_stop_calls s) s)
       (\<lambda>s. Ret (if aud_started s then s\<lparr>aud_started := False\<rparr> else s))"

definition audio_handlers :: "pb_codec \<Rightarrow> audio_service handlers" where
  "audio_handlers codec =
     [med MediaSetup \<mapsto> audio_on_setup codec,
      med MediaConfig \<mapsto> audio_on_config,
      med MediaStart \<mapsto> audio_on_start codec,
      med MediaCodecConfig \<mapsto> audio_on_codec_config,
      med MediaData \<mapsto> audio_on_data codec,
      med MediaStop \<mapsto> audio_on_stop]"

definition audio_on_channel_open :: "byte \<Rightarrow> audio_service \<Rightarrow> audio_service prog" where
  "audio_on_channel_open ch s = base_on_channel_open ch s"

definition audio_on_message :: "pb_codec \<Rightarrow> u16 \<Rightarrow> bytes \<Rightarrow> audio_service \<Rightarrow> audio_service prog" where
  "audio_on_message codec = base_on_message audio_on_channel_open (audio_handlers codec)"

definition audio_on_channel_close :: "audio_service \<Rightarrow> audio_service \<times> local_call list" where
  "audio_on_channel_close s =
     (base_on_channel_close (if aud_started s then s\<lparr>aud_started := False\<rparr> else s),
      audio_stop_calls s)"

definition audio_attach_sinks :: "audio_service \<Rightarrow> audio_service" where
  "audio_attach_sinks s = s\<lparr>aud_sinks_active := True\<rparr>"

definition audio_detach_sinks :: "audio_service \<Rightarrow> audio_service" where
  "audio_detach_sinks s = s\<lparr>aud_sinks_active := False\<rparr>"

primrec to_proto_stream_type :: "audio_stream_type \<Rightarrow> int" where
  "to_proto_stream_type StreamMedia = 3"
| "to_proto_stream_type StreamGuidance = 1"
| "to_proto_stream_type StreamSystem = 2"
| "to_proto_stream_type StreamCall = 4"

definition audio_fill_config :: "audio_service \<Rightarrow> service_config" where
  "audio_fill_config s =
     CfgAudioSink MEDIA_CODEC_AUDIO_PCM (to_proto_stream_type (as_stream_type (aud_config s)))
       (as_sample_rate (aud_config s)) (as_bit_depth (aud_config s))
       (as_channel_count (aud_config s))"

lemmas audio_handler_defs =
  audio_on_setup_def audio_on_config_def audio_on_start_def audio_on_codec_config_def
  audio_on_data_def audio_on_stop_def audio_send_ack_def audio_stop_calls_def
  audio_on_channel_open_def base_on_channel_open_def

section \<open>The contracts\<close>

interpretation audio: channel_service channel_id "audio_on_message codec" audio_on_channel_close
    for codec
  unfolding audio_on_message_def
  by (rule channel_serviceI)
     (auto simp: audio_handlers_def audio_handler_defs audio_on_channel_close_def
        base_on_channel_close_def Let_def intro!: stays_on_bind split: if_splits option.splits prod.splits)

lemma audio_one_ack:
  "acks (snd (run_prog (audio_on_message codec t p s))) = (if t = med MediaData then 1 else 0)"
  by (cases "t = ctl ChannelOpenRequest")
     (auto simp: audio_on_message_def base_on_message_def audio_handlers_def audio_handler_defs
        run_prog_bind Let_def split_beta)

interpretation audio_flow: acked_media channel_id "audio_on_message codec" audio_on_channel_close
    "\<lambda>t. t = med MediaData" for codec
  by unfold_locales (rule audio_one_ack)

text \<open>Everything that can happen to an audio service.\<close>

datatype media_event = MediaMsg u16 bytes | MediaAttach | MediaDetach | MediaClose

primrec audio_step :: "pb_codec \<Rightarrow> audio_service \<Rightarrow> media_event \<Rightarrow> audio_service \<times> svc_call list" where
  "audio_step codec s (MediaMsg t p) = run_prog (audio_on_message codec t p s)"
| "audio_step codec s MediaAttach = (audio_attach_sinks s, [])"
| "audio_step codec s MediaDetach = (audio_detach_sinks s, [])"
| "audio_step codec s MediaClose = map_prod id (map Local) (audio_on_channel_close s)"

text \<open>The calls one sink gets, and the order it may rely on: \<open>True\<close> is the configured phase.\<close>

definition audio_sink_calls :: "nat \<Rightarrow> svc_call list \<Rightarrow> audio_call list" where
  "audio_sink_calls i cs =
     List.map_filter (\<lambda>c. case c of Local (AudioSink j a) \<Rightarrow> (if j = i then Some a else None)
                          | _ \<Rightarrow> None) cs"

definition audio_next :: "bool \<Rightarrow> audio_call \<Rightarrow> bool option" where
  "audio_next configured c =
     (case c of AConfigure cfg st \<Rightarrow> Some True
      | ACodecConfig d \<Rightarrow> if configured then Some True else None
      | AData d ts \<Rightarrow> if configured then Some True else None
      | AStop \<Rightarrow> if configured then Some False else None)"

lemma audio_sink_calls_simps [simp]:
  "audio_sink_calls i [] = []"
  "audio_sink_calls i (SendMsg ch t p # cs) = audio_sink_calls i cs"
  "audio_sink_calls i (cs @ ds) = audio_sink_calls i cs @ audio_sink_calls i ds"
  by (simp_all add: audio_sink_calls_def List.map_filter_def)

lemma audio_sink_calls_all:
  "i < n \<Longrightarrow> audio_sink_calls i (map Local (audio_calls n c)) = [c]"
proof (induction n)
  case (Suc n)
  have none: "audio_sink_calls i (map Local (audio_calls m c)) = []" if "m \<le> i" for m
    using that by (induction m) (simp_all add: audio_calls_def audio_sink_calls_def List.map_filter_def)
  show ?case
    using Suc none [of n] by (cases "i = n")
      (simp_all add: audio_calls_def audio_sink_calls_def List.map_filter_def)
qed simp

lemma audio_sinks_kept: "aud_sinks (fst (audio_step codec s e)) = aud_sinks s"
  by (cases e)
     (auto simp: audio_on_message_def base_on_message_def audio_handlers_def audio_handler_defs
        run_prog_bind Let_def split_beta audio_attach_sinks_def audio_detach_sinks_def
        audio_on_channel_close_def base_on_channel_close_def split: option.splits)

lemma audio_step_follows:
  assumes "i < aud_sinks s"
  shows "follows audio_next (aud_started s) (audio_sink_calls i (snd (audio_step codec s e))) =
    Some (aud_started (fst (audio_step codec s e)))"
  using assms
  by (cases e)
     (auto simp: audio_on_message_def base_on_message_def audio_handlers_def audio_handler_defs
        run_prog_bind Let_def split_beta audio_attach_sinks_def audio_detach_sinks_def
        audio_on_channel_close_def base_on_channel_close_def audio_sink_calls_all audio_next_def
        split: option.splits)

interpretation audio_life: lifecycle "audio_step codec" "audio_sink_calls i" aud_started audio_next
    "\<lambda>s. i < aud_sinks s" for codec i
  by unfold_locales (simp_all add: audio_sinks_kept audio_step_follows)

section \<open>Properties\<close>

text \<open>
  Audio flow control. Whatever messages arrive, well-formed or not, started or not,
  with sinks attached or not, the service sends exactly one acknowledgement for each data
  message and for nothing else, so the phone's credit never runs out.
\<close>

theorem audio_acks_every_data_message:
  "acks (snd (run_msgs (audio_on_message codec) ms s)) =
     length (filter (\<lambda>m. fst m = med MediaData) ms)"
  by (rule audio_flow.flow_control)

text \<open>
  Audio sinks see their documented lifecycle. Through any sequence of messages, sink
  attachments and channel closes, every sink of a fresh service is configured before it
  gets codec data, audio data or a stop, and is not stopped twice without being
  configured again.
\<close>

theorem audio_sink_lifecycle:
  assumes "i < sinks"
  shows "follows audio_next False
    (audio_sink_calls i (snd (run_ops (audio_step codec) (new_audio_service cfg sinks) es))) \<noteq> None"
  using audio_life.run_follows [of i "new_audio_service cfg sinks" codec es] assms
  by (simp add: new_audio_service_def)

definition guidance_config :: audio_service_config where
  "guidance_config =
     \<lparr>as_stream_type = StreamGuidance, as_sample_rate = 16000, as_bit_depth = 16,
      as_channel_count = 1\<rparr>"

definition media_codec :: pb_codec where
  "media_codec =
     \<lparr>ser = (\<lambda>m. []), parse_service_discovery_request = (\<lambda>b. None),
      parse_audio_focus_request = (\<lambda>b. None), parse_ping_request = (\<lambda>b. None),
      parse_start = (\<lambda>b. case b of [] \<Rightarrow> None
        | x # xs \<Rightarrow> Some \<lparr>start_session_id = ucast x, start_configuration_index = 0\<rparr>),
      parse_video_focus_request = (\<lambda>b. Some \<lparr>vfr_mode = int (length b), vfr_reason = 0\<rparr>),
      parse_sensor_request = (\<lambda>b. Some (int (length b))),
      parse_pairing_request = (\<lambda>b. None), parse_authentication_data = (\<lambda>b. None),
      parse_playback_status = (\<lambda>b. None), parse_playback_metadata = (\<lambda>b. None),
      parse_phone_status = (\<lambda>b. None), parse_root_node = (\<lambda>b. None),
      parse_source_node = (\<lambda>b. None), parse_list_node = (\<lambda>b. None),
      parse_song_node = (\<lambda>b. None)\<rparr>"

theorem audio_sink_lifecycle_witness:
  "follows audio_next False
    (audio_sink_calls 0 (snd (run_ops (audio_step media_codec) (new_audio_service guidance_config 1)
       [MediaAttach, MediaMsg 0 [1, 2], MediaMsg 32769 [7], MediaMsg 0 [1, 2], MediaClose]))) \<noteq> None"
  using audio_sink_lifecycle [of 0 1 media_codec guidance_config
      "[MediaAttach, MediaMsg 0 [1, 2], MediaMsg 32769 [7], MediaMsg 0 [1, 2], MediaClose]"]
  by (simp del: run_ops.simps)

text \<open>
  Audio is delivered while started and attached, and only then. A data message hands
  every sink, once and in order, the samples behind the eight-byte timestamp (the whole
  payload, at time 0, if it is not longer than that); otherwise no sink is called. The
  acknowledgement follows in both cases.
\<close>

theorem audio_data_delivery:
  "snd (run_prog (audio_on_message codec (med MediaData) payload s)) =
     (if aud_started s \<and> aud_sinks_active s
      then map (\<lambda>i. Local (AudioSink i
             (if length payload > 8
              then AData (drop 8 payload) (word_of_nat (le_value (take 8 payload)))
              else AData payload 0))) [0..<aud_sinks s]
      else []) @
     [SendMsg (channel_id s) (med MediaAck) (ser codec (PbAck (aud_session_id s) 1))]"
  by (auto simp: audio_on_message_def base_on_message_def audio_handlers_def audio_handler_defs
      run_prog_bind media_ack_def split_timestamp_def kMediaTimestampBytes_def audio_calls_def)

lemma in_audio_sink_calls: "c \<in> set (audio_sink_calls i cs) \<longleftrightarrow> Local (AudioSink i c) \<in> set cs"
  by (induction cs)
     (auto simp: audio_sink_calls_def List.map_filter_def split: svc_call.splits local_call.splits)

lemma audio_step_config:
  "aud_current_config (fst (audio_step codec s e)) = aud_current_config s"
  "aud_config (fst (audio_step codec s e)) = aud_config s"
  "Local (AudioSink i (AConfigure cfg st)) \<in> set (snd (audio_step codec s e)) \<Longrightarrow>
     cfg = aud_current_config s \<and> st = as_stream_type (aud_config s)"
  by (cases e;
      auto simp: audio_on_message_def base_on_message_def audio_handlers_def audio_handler_defs
        run_prog_bind Let_def split_beta audio_attach_sinks_def audio_detach_sinks_def audio_calls_def
        audio_on_channel_close_def base_on_channel_close_def split: option.splits if_splits)+

lemma audio_run_configures:
  "Local (AudioSink i (AConfigure cfg st)) \<in> set (snd (run_ops (audio_step codec) s es)) \<Longrightarrow>
     cfg = aud_current_config s \<and> st = as_stream_type (aud_config s)"
proof (induction es arbitrary: s)
  case (Cons e es)
  show ?case
    using Cons.prems Cons.IH [of "fst (audio_step codec s e)"]
    by (auto simp: split_beta Let_def audio_step_config(1,2) dest: audio_step_config(3))
qed simp

text \<open>
  Audio sinks are never told the format. Nothing in the service assigns the current
  configuration, so in every run of a fresh service every configure call carries sample
  rate, bit depth, channel count and codec 0, whatever the service was configured with and
  whatever the phone announced.
\<close>

theorem audio_configured_with_zeros:
  assumes "AConfigure cfg st \<in> set (audio_sink_calls i
    (snd (run_ops (audio_step codec) (new_audio_service acfg sinks) es)))"
  shows "cfg = \<lparr>ac_sample_rate = 0, ac_bit_depth = 0, ac_channel_count = 0, ac_codec_type = 0\<rparr>
    \<and> st = as_stream_type acfg"
  using assms audio_run_configures [of i cfg st codec "new_audio_service acfg sinks" es]
  by (simp add: in_audio_sink_calls new_audio_service_def)

theorem audio_configured_with_zeros_witness:
  "\<exists>cfg. AConfigure cfg StreamGuidance \<in> set (audio_sink_calls 0
      (snd (run_ops (audio_step media_codec) (new_audio_service guidance_config 1) [MediaMsg 32769 [7]])))
   \<and> cfg = \<lparr>ac_sample_rate = 0, ac_bit_depth = 0, ac_channel_count = 0, ac_codec_type = 0\<rparr>"
proof -
  have "AConfigure \<lparr>ac_sample_rate = 0, ac_bit_depth = 0, ac_channel_count = 0, ac_codec_type = 0\<rparr>
      StreamGuidance \<in> set (audio_sink_calls 0 (snd (run_ops (audio_step media_codec)
        (new_audio_service guidance_config 1) [MediaMsg 32769 [7]])))"
    by code_simp
  with audio_configured_with_zeros [OF this] show ?thesis by blast
qed

end
