(* ===== verification/Video_Service.thy ===== *)
theory Video_Service
  imports Audio_Service
begin

text \<open>
  \<open>VideoService\<close> (\<open>core/src/service/VideoService.cpp\<close>): the compressed video stream,
  multicast to the sinks, and the negotiation of video focus.
\<close>

section \<open>State and operations\<close>

primrec display_type_code :: "display_type \<Rightarrow> int" where
  "display_type_code DisplayMain = 0"
| "display_type_code DisplayCluster = 1"
| "display_type_code DisplayAuxiliary = 2"

record video_service_config =
  vs_width :: u32
  vs_height :: u32
  vs_fps :: u32
  vs_density :: u32
  vs_display_type :: display_type
  vs_display_id :: u32

record video_service = svc_base +
  vid_config :: video_service_config
  vid_sinks :: nat
  vid_has_focus_cb :: bool
  vid_sinks_active :: bool
  vid_session_id :: i32
  vid_started :: bool
  vid_current_config :: video_config

definition new_video_service :: "video_service_config \<Rightarrow> nat \<Rightarrow> video_service" where
  "new_video_service cfg sinks =
     \<lparr>channel_id = 0, vid_config = cfg, vid_sinks = sinks, vid_has_focus_cb = False,
      vid_sinks_active = False, vid_session_id = 0, vid_started = False,
      vid_current_config =
        \<lparr>vc_width = 0, vc_height = 0, vc_fps = 0, vc_density = 0, vc_codec_type = 0,
         vc_codec_data = []\<rparr>\<rparr>"

definition video_calls :: "nat \<Rightarrow> video_call \<Rightarrow> local_call list" where
  "video_calls n c = map (\<lambda>i. VideoSink i c) [0..<n]"

definition video_send_ack :: "pb_codec \<Rightarrow> video_service \<Rightarrow> video_service prog" where
  "video_send_ack codec s = send (med MediaAck) (media_ack codec (vid_session_id s)) s"

definition video_on_setup :: "pb_codec \<Rightarrow> bytes \<Rightarrow> video_service \<Rightarrow> video_service prog" where
  "video_on_setup codec payload s = send (med MediaConfig) (media_config_reply codec) s"

definition video_on_start :: "pb_codec \<Rightarrow> bytes \<Rightarrow> video_service \<Rightarrow> video_service prog" where
  "video_on_start codec payload s =
     (let s1 = (case parse_start codec payload of
                  None \<Rightarrow> s | Some st \<Rightarrow> s\<lparr>vid_session_id := start_session_id st\<rparr>);
          s2 = s1\<lparr>vid_started := True\<rparr>
      in call_all (video_calls (vid_sinks s2) (VConfigure (vid_current_config s2))) s2)"

definition video_on_codec_config :: "pb_codec \<Rightarrow> bytes \<Rightarrow> video_service \<Rightarrow> video_service prog" where
  "video_on_codec_config codec payload s =
     (let s1 = s\<lparr>vid_current_config := (vid_current_config s)
                  \<lparr>vc_codec_data := payload, vc_width := vs_width (vid_config s),
                   vc_height := vs_height (vid_config s), vc_fps := vs_fps (vid_config s)\<rparr>\<rparr>
      in prog_bind (call_all (video_calls (vid_sinks s1) (VCodecConfig payload 0)) s1)
           (video_send_ack codec))"

definition video_on_data :: "pb_codec \<Rightarrow> bytes \<Rightarrow> video_service \<Rightarrow> video_service prog" where
  "video_on_data codec payload s =
     (if \<not> vid_started s \<or> \<not> vid_sinks_active s then video_send_ack codec s
      else let (frame, timestamp_us) = split_timestamp payload
           in prog_bind (call_all (video_calls (vid_sinks s) (VData frame timestamp_us)) s)
                (video_send_ack codec))"

definition video_attach_sinks :: "video_service \<Rightarrow> video_service" where
  "video_attach_sinks s = s\<lparr>vid_sinks_active := True\<rparr>"

definition video_detach_sinks :: "video_service \<Rightarrow> video_service" where
  "video_detach_sinks s = s\<lparr>vid_sinks_active := False\<rparr>"

definition send_video_focus :: "pb_codec \<Rightarrow> bool \<Rightarrow> video_service \<Rightarrow> video_service prog" where
  "send_video_focus codec gain s =
     send (med VideoFocusNotification)
       (ser codec (PbVideoFocusNotification
          (if gain then VIDEO_FOCUS_PROJECTED else VIDEO_FOCUS_NATIVE) True)) s"

definition set_video_focus :: "pb_codec \<Rightarrow> bool \<Rightarrow> video_service \<Rightarrow> video_service prog" where
  "set_video_focus codec projected s =
     (if vs_display_type (vid_config s) \<noteq> DisplayMain then Ret s
      else send_video_focus codec projected
             (if projected then video_attach_sinks s else video_detach_sinks s))"

definition notify_focus :: "bool \<Rightarrow> video_service \<Rightarrow> video_service prog" where
  "notify_focus projected s =
     (if vid_has_focus_cb s then call_all [AppCall (CbVideoFocus projected)] s else Ret s)"

definition on_video_focus_request ::
    "pb_codec \<Rightarrow> bytes \<Rightarrow> video_service \<Rightarrow> video_service prog" where
  "on_video_focus_request codec payload s =
     (case parse_video_focus_request codec payload of
        None \<Rightarrow> Ret s
      | Some req \<Rightarrow>
          if vfr_mode req = VIDEO_FOCUS_NATIVE
          then prog_bind (set_video_focus codec False s) (notify_focus False)
          else if vfr_mode req = VIDEO_FOCUS_PROJECTED
          then prog_bind (set_video_focus codec True s) (notify_focus True)
          else Ret s)"

definition video_handlers :: "pb_codec \<Rightarrow> video_service handlers" where
  "video_handlers codec =
     [med MediaSetup \<mapsto> video_on_setup codec,
      med MediaStart \<mapsto> video_on_start codec,
      med MediaCodecConfig \<mapsto> video_on_codec_config codec,
      med MediaData \<mapsto> video_on_data codec,
      med MediaStop \<mapsto> (\<lambda>payload. Ret),
      med VideoFocusRequest \<mapsto> on_video_focus_request codec,
      med MediaAck \<mapsto> (\<lambda>payload. Ret)]"

definition video_on_channel_open :: "byte \<Rightarrow> video_service \<Rightarrow> video_service prog" where
  "video_on_channel_open ch s = base_on_channel_open ch s"

definition video_on_message :: "pb_codec \<Rightarrow> u16 \<Rightarrow> bytes \<Rightarrow> video_service \<Rightarrow> video_service prog" where
  "video_on_message codec = base_on_message video_on_channel_open (video_handlers codec)"

definition video_on_channel_close :: "video_service \<Rightarrow> video_service \<times> local_call list" where
  "video_on_channel_close s =
     (base_on_channel_close (if vid_started s then s\<lparr>vid_started := False\<rparr> else s),
      if vid_started s then video_calls (vid_sinks s) VStop else [])"

definition video_set_native_window :: "i64 \<Rightarrow> video_service \<Rightarrow> video_service prog" where
  "video_set_native_window window s = call_all (video_calls (vid_sinks s) (VSetWindow window)) s"

definition video_resolution :: "u32 \<Rightarrow> int" where
  "video_resolution width =
     (if width \<ge> 2560 then 4 else if width \<ge> 1920 then 3 else if width \<ge> 1280 then 2 else 1)"

definition video_frame_rate :: "u32 \<Rightarrow> int" where
  "video_frame_rate fps = (if fps \<ge> 60 then 1 else 2)"

definition video_fill_config :: "video_service \<Rightarrow> service_config" where
  "video_fill_config s =
     (let cfg = vid_config s in
      CfgVideoSink MEDIA_CODEC_VIDEO_H264_BP (video_resolution (vs_width cfg))
        (video_frame_rate (vs_fps cfg)) (vs_density cfg) (0, 0)
        (if vs_display_type cfg \<noteq> DisplayMain
         then Some (display_type_code (vs_display_type cfg)) else None)
        (if vs_display_id cfg \<noteq> 0 then Some (vs_display_id cfg) else None))"

lemmas video_handler_defs =
  video_on_setup_def video_on_start_def video_on_codec_config_def video_on_data_def
  video_send_ack_def on_video_focus_request_def set_video_focus_def send_video_focus_def
  notify_focus_def video_attach_sinks_def video_detach_sinks_def
  video_on_channel_open_def base_on_channel_open_def

section \<open>The contracts\<close>

interpretation video: channel_service channel_id "video_on_message codec" video_on_channel_close
    for codec
  unfolding video_on_message_def
  by (rule channel_serviceI)
     (auto simp: video_handlers_def video_handler_defs video_on_channel_close_def
        base_on_channel_close_def Let_def intro!: stays_on_bind split: if_splits option.splits prod.splits)

lemma video_one_ack:
  "acks (snd (run_prog (video_on_message codec t p s))) =
     (if t = med MediaData \<or> t = med MediaCodecConfig then 1 else 0)"
  by (cases "t = ctl ChannelOpenRequest")
     (auto simp: video_on_message_def base_on_message_def video_handlers_def video_handler_defs
        run_prog_bind Let_def split_beta split: option.splits)

interpretation video_flow: acked_media channel_id "video_on_message codec" video_on_channel_close
    "\<lambda>t. t = med MediaData \<or> t = med MediaCodecConfig" for codec
  by unfold_locales (rule video_one_ack)

datatype video_event =
  VideoMsg u16 bytes | VideoAttach | VideoDetach | VideoFocus bool | VideoWindow i64 | VideoClose

primrec video_step :: "pb_codec \<Rightarrow> video_service \<Rightarrow> video_event \<Rightarrow> video_service \<times> svc_call list" where
  "video_step codec s (VideoMsg t p) = run_prog (video_on_message codec t p s)"
| "video_step codec s VideoAttach = (video_attach_sinks s, [])"
| "video_step codec s VideoDetach = (video_detach_sinks s, [])"
| "video_step codec s (VideoFocus b) = run_prog (set_video_focus codec b s)"
| "video_step codec s (VideoWindow w) = run_prog (video_set_native_window w s)"
| "video_step codec s VideoClose = map_prod id (map Local) (video_on_channel_close s)"

definition video_sink_calls :: "nat \<Rightarrow> svc_call list \<Rightarrow> video_call list" where
  "video_sink_calls i cs =
     List.map_filter (\<lambda>c. case c of Local (VideoSink j a) \<Rightarrow> (if j = i then Some a else None)
                          | _ \<Rightarrow> None) cs"

text \<open>
  The order that the service does keep: data and stop only while configured. It is weaker than the life
  cycle that \<open>IVideoSink.hpp\<close> documents, which the service does not keep: codec data comes at any time,
  because it is not held back before the start, and frames come without any codec data.
\<close>

definition video_next :: "bool \<Rightarrow> video_call \<Rightarrow> bool option" where
  "video_next configured c =
     (case c of VSetWindow w \<Rightarrow> Some configured
      | VConfigure cfg \<Rightarrow> Some True
      | VCodecConfig d ts \<Rightarrow> Some configured
      | VData d ts \<Rightarrow> if configured then Some True else None
      | VStop \<Rightarrow> if configured then Some False else None)"

lemma video_sink_calls_simps [simp]:
  "video_sink_calls i [] = []"
  "video_sink_calls i (SendMsg ch t p # cs) = video_sink_calls i cs"
  "video_sink_calls i (Local (AppCall a) # cs) = video_sink_calls i cs"
  "video_sink_calls i (cs @ ds) = video_sink_calls i cs @ video_sink_calls i ds"
  by (simp_all add: video_sink_calls_def List.map_filter_def)

lemma in_video_sink_calls: "c \<in> set (video_sink_calls i cs) \<longleftrightarrow> Local (VideoSink i c) \<in> set cs"
  by (induction cs)
     (auto simp: video_sink_calls_def List.map_filter_def split: svc_call.splits local_call.splits)

lemma video_sink_calls_all:
  "i < n \<Longrightarrow> video_sink_calls i (map Local (video_calls n c)) = [c]"
proof (induction n)
  case (Suc n)
  have none: "video_sink_calls i (map Local (video_calls m c)) = []" if "m \<le> i" for m
    using that by (induction m) (simp_all add: video_calls_def video_sink_calls_def List.map_filter_def)
  show ?case
    using Suc none [of n] by (cases "i = n")
      (simp_all add: video_calls_def video_sink_calls_def List.map_filter_def)
qed simp

lemmas video_step_defs =
  video_on_message_def base_on_message_def video_handlers_def video_handler_defs
  run_prog_bind Let_def split_beta video_on_channel_close_def base_on_channel_close_def
  video_set_native_window_def

lemma video_sinks_kept: "vid_sinks (fst (video_step codec s e)) = vid_sinks s"
  by (cases e) (auto simp: video_step_defs split: option.splits)

lemma video_step_follows:
  assumes "i < vid_sinks s"
  shows "follows video_next (vid_started s) (video_sink_calls i (snd (video_step codec s e))) =
    Some (vid_started (fst (video_step codec s e)))"
  using assms
  by (cases e) (auto simp: video_step_defs video_sink_calls_all video_next_def split: option.splits)

interpretation video_life: lifecycle "video_step codec" "video_sink_calls i" vid_started video_next
    "\<lambda>s. i < vid_sinks s" for codec i
  by unfold_locales (simp_all add: video_sinks_kept video_step_follows)

section \<open>Properties\<close>

text \<open>
  Video flow control. The service sends exactly one acknowledgement for each data
  message and each codec configuration, whether or not it is started or has sinks
  attached, and none for anything else.
\<close>

theorem video_acks_every_frame:
  "acks (snd (run_msgs (video_on_message codec) ms s)) =
     length (filter (\<lambda>m. fst m = med MediaData \<or> fst m = med MediaCodecConfig) ms)"
  by (rule video_flow.flow_control)

text \<open>
  Video sinks are configured before they get frames. Through any sequence of messages,
  focus changes, surface changes and closes, every sink of a fresh service is configured
  before it gets video data or a stop, and gets no data after a stop until configured
  again.
\<close>

theorem video_sink_lifecycle:
  assumes "i < sinks"
  shows "follows video_next False
    (video_sink_calls i (snd (run_ops (video_step codec) (new_video_service cfg sinks) es))) \<noteq> None"
  using video_life.run_follows [of i "new_video_service cfg sinks" codec es] assms
  by (simp add: new_video_service_def)

definition main_display :: video_service_config where
  "main_display =
     \<lparr>vs_width = 1280, vs_height = 720, vs_fps = 30, vs_density = 160,
      vs_display_type = DisplayMain, vs_display_id = 0\<rparr>"

theorem video_sink_lifecycle_witness:
  "follows video_next False
    (video_sink_calls 0 (snd (run_ops (video_step media_codec) (new_video_service main_display 1)
       [VideoFocus True, VideoMsg 1 [3], VideoMsg 32769 [7], VideoMsg 0 [1, 2], VideoClose]))) \<noteq> None"
  using video_sink_lifecycle [of 0 1 media_codec main_display
      "[VideoFocus True, VideoMsg 1 [3], VideoMsg 32769 [7], VideoMsg 0 [1, 2], VideoClose]"]
  by (simp del: run_ops.simps)

text \<open>
  Frames reach the sinks exactly while the stream is started and the sinks are
  attached: then every sink gets the frame behind the timestamp once, in order; else none
  is called. The acknowledgement follows in both cases.
\<close>

theorem video_data_delivery:
  "snd (run_prog (video_on_message codec (med MediaData) payload s)) =
     (if vid_started s \<and> vid_sinks_active s
      then map (\<lambda>i. Local (VideoSink i
             (if length payload > 8
              then VData (drop 8 payload) (word_of_nat (le_value (take 8 payload)))
              else VData payload 0))) [0..<vid_sinks s]
      else []) @
     [SendMsg (channel_id s) (med MediaAck) (ser codec (PbAck (vid_session_id s) 1))]"
  by (auto simp: video_step_defs media_ack_def split_timestamp_def kMediaTimestampBytes_def
      video_calls_def)

text \<open>
  Focus negotiation is for the main display only. On any other display no message and
  no focus change ever attaches or detaches the sinks or sends a focus notification; on
  the main display a focus change leaves the sinks attached exactly if the focus is
  projected, and tells the phone so.
\<close>

theorem video_focus_main_only:
  "run_prog (set_video_focus codec projected s) =
     (if vs_display_type (vid_config s) = DisplayMain
      then (s\<lparr>vid_sinks_active := projected\<rparr>,
            [SendMsg (channel_id s) (med VideoFocusNotification)
               (ser codec (PbVideoFocusNotification (if projected then 1 else 2) True))])
      else (s, []))
   \<and> (vs_display_type (vid_config s) = DisplayMain
      \<or> (vid_sinks_active (fst (run_prog (video_on_message codec t p s))) = vid_sinks_active s
         \<and> med VideoFocusNotification \<notin>
             (fst \<circ> snd) ` set (sent (snd (run_prog (video_on_message codec t p s))))))"
  by (auto simp: video_step_defs VIDEO_FOCUS_PROJECTED_def VIDEO_FOCUS_NATIVE_def split: option.splits)

lemma video_run_configures:
  assumes "Local (VideoSink i (VConfigure cfg)) \<in> set (snd (run_ops (video_step codec) s es))"
    and "\<forall>p. VideoMsg (med MediaCodecConfig) p \<notin> set es"
  shows "cfg = vid_current_config s"
  using assms
proof (induction es arbitrary: s)
  case (Cons e es)
  from Cons.prems(2) have "\<forall>p. e \<noteq> VideoMsg (med MediaCodecConfig) p" by auto
  then have step: "vid_current_config (fst (video_step codec s e)) = vid_current_config s"
    "Local (VideoSink i (VConfigure cfg)) \<in> set (snd (video_step codec s e)) \<Longrightarrow>
      cfg = vid_current_config s"
    by (cases e; auto simp: video_step_defs video_calls_def split: option.splits if_splits)+
  show ?case
    using Cons.prems Cons.IH [of "fst (video_step codec s e)"] step
    by (auto simp: split_beta Let_def)
qed simp

text \<open>
  The first configuration of a stream is empty. As long as no codec configuration has
  arrived, every configure call carries width, height and frame rate 0, although the
  service knows its display's size: the code fills the configuration it hands out only when
  codec data arrives, and the phone sends that after the start that triggers the call.
\<close>

theorem video_first_configure_empty:
  assumes "VConfigure cfg \<in> set (video_sink_calls i
      (snd (run_ops (video_step codec) (new_video_service vcfg sinks) es)))"
    and "\<forall>p. VideoMsg (med MediaCodecConfig) p \<notin> set es"
  shows "vc_width cfg = 0 \<and> vc_height cfg = 0 \<and> vc_fps cfg = 0 \<and> vc_codec_data cfg = []"
  using video_run_configures [of i cfg codec "new_video_service vcfg sinks" es] assms
  by (simp add: in_video_sink_calls new_video_service_def)

theorem video_first_configure_empty_witness:
  "\<exists>cfg. VConfigure cfg \<in> set (video_sink_calls 0 (snd (run_ops (video_step media_codec)
      (new_video_service main_display 1) [VideoFocus True, VideoMsg 32769 [7]]))) \<and> vc_width cfg = 0"
proof -
  have "VConfigure (vid_current_config (new_video_service main_display 1)) \<in> set (video_sink_calls 0
      (snd (run_ops (video_step media_codec) (new_video_service main_display 1)
        [VideoFocus True, VideoMsg 32769 [7]])))"
    by code_simp
  from this video_first_configure_empty [OF this] show ?thesis by auto
qed

end
