(* ===== verification/Input_Sensor.thy ===== *)
theory Input_Sensor
  imports Service_Base "HOL-Library.Signed_Division"
begin

text \<open>
  The input and sensor services (\<open>core/src/service/InputService.cpp\<close>,
  \<open>SensorService.cpp\<close>): touch and media-key reports to the phone, the key-binding reply,
  and the driving status. The steady clock is an argument, in nanoseconds.
\<close>

section \<open>InputService\<close>

record input_service = svc_base +
  in_touch_width :: u32
  in_touch_height :: u32

definition input_on_key_binding_request ::
    "pb_codec \<Rightarrow> bytes \<Rightarrow> input_service \<Rightarrow> input_service prog" where
  "input_on_key_binding_request codec payload s =
     send (inp KeyBindingResponse) (ser codec (PbKeyBindingResponse STATUS_SUCCESS)) s"

definition input_handlers :: "pb_codec \<Rightarrow> input_service handlers" where
  "input_handlers codec = [inp KeyBindingRequest \<mapsto> input_on_key_binding_request codec]"

definition input_on_message :: "pb_codec \<Rightarrow> u16 \<Rightarrow> bytes \<Rightarrow> input_service \<Rightarrow> input_service prog" where
  "input_on_message codec = base_on_message base_on_channel_open (input_handlers codec)"

definition report_time :: "int \<Rightarrow> i64" where
  "report_time now = word_of_int (now sdiv 1000)"

definition send_touch ::
    "pb_codec \<Rightarrow> int \<Rightarrow> i32 \<Rightarrow> i32 \<Rightarrow> i32 \<Rightarrow> input_service \<Rightarrow> input_service prog" where
  "send_touch codec now x y action s =
     send (inp InputReport)
       (ser codec (PbInputTouch (report_time now) action 0 [(x, y, 0)])) s"

definition send_media_key ::
    "pb_codec \<Rightarrow> int \<Rightarrow> i32 \<Rightarrow> input_service \<Rightarrow> input_service prog" where
  "send_media_key codec now keycode s =
     send (inp InputReport)
       (ser codec (PbInputKeys (report_time now)
          [\<lparr>key_code = keycode, key_down = True, key_metastate = 0\<rparr>,
           \<lparr>key_code = keycode, key_down = False, key_metastate = 0\<rparr>])) s"

definition input_fill_config :: "input_service \<Rightarrow> service_config" where
  "input_fill_config s = CfgInput (in_touch_width s) (in_touch_height s) CAPACITIVE"

definition input_on_channel_close :: "input_service \<Rightarrow> input_service \<times> local_call list" where
  "input_on_channel_close s = (base_on_channel_close s, [])"

interpretation input: channel_service channel_id "input_on_message codec" input_on_channel_close
    for codec
  unfolding input_on_message_def
  by (rule channel_serviceI)
     (auto simp: input_handlers_def input_on_key_binding_request_def base_on_channel_open_def
        input_on_channel_close_def base_on_channel_close_def split: if_splits)

section \<open>SensorService\<close>

definition send_driving_status ::
    "pb_codec \<Rightarrow> 'a svc_base_scheme \<Rightarrow> 'a svc_base_scheme prog" where
  "send_driving_status codec s = send (sen SensorBatchMsg) (ser codec (PbSensorBatch [0])) s"

definition sensor_on_request ::
    "pb_codec \<Rightarrow> bytes \<Rightarrow> 'a svc_base_scheme \<Rightarrow> 'a svc_base_scheme prog" where
  "sensor_on_request codec payload s =
     (case parse_sensor_request codec payload of
        None \<Rightarrow> Ret s
      | Some sensor_type \<Rightarrow>
          prog_bind (send (sen SensorResp) (ser codec (PbSensorStartResponse STATUS_SUCCESS)) s)
            (\<lambda>s. if sensor_type = SENSOR_DRIVING_STATUS_DATA then send_driving_status codec s
                 else Ret s))"

definition sensor_on_channel_open ::
    "pb_codec \<Rightarrow> byte \<Rightarrow> 'a svc_base_scheme \<Rightarrow> 'a svc_base_scheme prog" where
  "sensor_on_channel_open codec ch s =
     prog_bind (base_on_channel_open ch s) (send_driving_status codec)"

definition sensor_handlers :: "pb_codec \<Rightarrow> 'a svc_base_scheme handlers" where
  "sensor_handlers codec = [sen SensorReq \<mapsto> sensor_on_request codec]"

definition sensor_on_message ::
    "pb_codec \<Rightarrow> u16 \<Rightarrow> bytes \<Rightarrow> svc_base \<Rightarrow> svc_base prog" where
  "sensor_on_message codec = base_on_message (sensor_on_channel_open codec) (sensor_handlers codec)"

definition sensor_fill_config :: "svc_base \<Rightarrow> service_config" where
  "sensor_fill_config s = CfgSensor [SENSOR_DRIVING_STATUS_DATA, SENSOR_NIGHT_MODE]"

definition plain_on_channel_close :: "'a svc_base_scheme \<Rightarrow> 'a svc_base_scheme \<times> local_call list" where
  "plain_on_channel_close s = (base_on_channel_close s, [])"

lemmas sensor_defs = sensor_on_message_def sensor_handlers_def sensor_on_request_def
  sensor_on_channel_open_def send_driving_status_def base_on_channel_open_def

interpretation sensor: channel_service channel_id "sensor_on_message codec" plain_on_channel_close
    for codec
  unfolding sensor_on_message_def
  by (rule channel_serviceI)
     (auto simp: sensor_defs plain_on_channel_close_def base_on_channel_close_def
        intro!: stays_on_bind split: if_splits option.splits)

text \<open>
  The phone learns the driving status as soon as it can use it: on opening the channel
  the confirmation is followed at once by the unrestricted status, and a sensor start
  request that can be parsed is confirmed first and followed by the status if and only if
  it asks for the driving status.
\<close>

theorem sensor_driving_status:
  "snd (run_prog (sensor_on_message codec t payload s)) =
     (if t = ctl ChannelOpenRequest
      then [SendMsg (channel_id s) (ctl ChannelOpenResponse) [8, 0],
            SendMsg (channel_id s) (sen SensorBatchMsg) (ser codec (PbSensorBatch [0]))]
      else if t = sen SensorReq
      then (case parse_sensor_request codec payload of
              None \<Rightarrow> []
            | Some sensor \<Rightarrow>
                SendMsg (channel_id s) (sen SensorResp) (ser codec (PbSensorStartResponse 0)) #
                (if sensor = 13
                 then [SendMsg (channel_id s) (sen SensorBatchMsg) (ser codec (PbSensorBatch [0]))]
                 else []))
      else [])"
  by (simp add: sensor_defs base_on_message_def run_prog_bind STATUS_SUCCESS_def
      SENSOR_DRIVING_STATUS_DATA_def split: option.split)

end
