(* ===== verification/Bluetooth_Service.thy ===== *)
theory Bluetooth_Service
  imports Service_Base
begin

text \<open>
  \<open>BluetoothService\<close> (\<open>core/src/service/BluetoothService.cpp\<close>): pairing requests and
  authentication data go to the application, whose answers come back through
  \<open>send_pairing_response\<close> and \<open>send_auth_result\<close>.
\<close>

record bluetooth_service = svc_base +
  bt_car_address :: string
  bt_has_pairing_cb :: bool
  bt_has_auth_cb :: bool

definition PairingMethod_Unavailable :: int where "PairingMethod_Unavailable = -1"

definition bt_on_pairing_request ::
    "pb_codec \<Rightarrow> bytes \<Rightarrow> bluetooth_service \<Rightarrow> bluetooth_service prog" where
  "bt_on_pairing_request codec payload s =
     (case parse_pairing_request codec payload of
        None \<Rightarrow> Ret s
      | Some msg \<Rightarrow>
          if bt_has_pairing_cb s
          then call_all [AppCall (CbPairingRequest (phone_address msg) (pairing_method msg))] s
          else Ret s)"

definition bt_on_auth_data ::
    "pb_codec \<Rightarrow> bytes \<Rightarrow> bluetooth_service \<Rightarrow> bluetooth_service prog" where
  "bt_on_auth_data codec payload s =
     (case parse_authentication_data codec payload of
        None \<Rightarrow> Ret s
      | Some msg \<Rightarrow>
          let m = (case auth_method msg of Some m \<Rightarrow> m | None \<Rightarrow> PairingMethod_Unavailable)
          in if bt_has_auth_cb s then call_all [AppCall (CbAuthData (auth_data msg) m)] s
             else Ret s)"

definition bluetooth_handlers :: "pb_codec \<Rightarrow> bluetooth_service handlers" where
  "bluetooth_handlers codec =
     [BLUETOOTH_MESSAGE_PAIRING_REQUEST \<mapsto> bt_on_pairing_request codec,
      BLUETOOTH_MESSAGE_AUTHENTICATION_DATA \<mapsto> bt_on_auth_data codec]"

definition bluetooth_on_message ::
    "pb_codec \<Rightarrow> u16 \<Rightarrow> bytes \<Rightarrow> bluetooth_service \<Rightarrow> bluetooth_service prog" where
  "bluetooth_on_message codec = base_on_message base_on_channel_open (bluetooth_handlers codec)"

definition send_pairing_response ::
    "pb_codec \<Rightarrow> i32 \<Rightarrow> bool \<Rightarrow> bluetooth_service \<Rightarrow> bluetooth_service prog" where
  "send_pairing_response codec status already_paired s =
     send BLUETOOTH_MESSAGE_PAIRING_RESPONSE (ser codec (PbPairingResponse status already_paired)) s"

definition send_auth_result :: "pb_codec \<Rightarrow> i32 \<Rightarrow> bluetooth_service \<Rightarrow> bluetooth_service prog" where
  "send_auth_result codec status s =
     send BLUETOOTH_MESSAGE_AUTHENTICATION_RESULT (ser codec (PbAuthenticationResult status)) s"

definition bluetooth_fill_config :: "bluetooth_service \<Rightarrow> service_config" where
  "bluetooth_fill_config s = CfgBluetooth (bt_car_address s) [BLUETOOTH_PAIRING_PIN]"

definition bluetooth_on_channel_close ::
    "bluetooth_service \<Rightarrow> bluetooth_service \<times> local_call list" where
  "bluetooth_on_channel_close s = (base_on_channel_close s, [])"

lemmas bluetooth_defs = bluetooth_on_message_def bluetooth_handlers_def bt_on_pairing_request_def
  bt_on_auth_data_def base_on_channel_open_def

interpretation bluetooth: channel_service channel_id "bluetooth_on_message codec"
    bluetooth_on_channel_close for codec
  unfolding bluetooth_on_message_def
  by (rule channel_serviceI)
     (auto simp: bluetooth_defs bluetooth_on_channel_close_def base_on_channel_close_def Let_def
        split: if_splits option.splits)

lemma bluetooth_silent:
  "t \<noteq> ctl ChannelOpenRequest \<Longrightarrow> sent (snd (run_prog (bluetooth_on_message codec t p s))) = []"
  by (auto simp: bluetooth_defs base_on_message_def Let_def split: option.splits)

text \<open>
  Pairing is decided by the application alone. Whatever the phone sends, the service
  itself never sends a pairing response or an authentication result: apart from the
  confirmations of channel opens, a run of messages sends nothing.
\<close>

theorem bluetooth_never_answers_alone:
  "sent (snd (run_msgs (bluetooth_on_message codec) ms s)) =
     replicate (length (filter (\<lambda>m. fst m = ctl ChannelOpenRequest) ms))
       (channel_id s, ctl ChannelOpenResponse, [8, 0])"
proof (induction ms arbitrary: s)
  case (Cons m ms)
  have chan: "channel_id (fst (run_prog (bluetooth_on_message codec (fst m) (snd m) s))) = channel_id s"
    by (rule bluetooth.keeps_channel)
  have open_run: "sent (snd (run_prog (bluetooth_on_message codec 7 p s))) =
      [(channel_id s, ctl ChannelOpenResponse, [8, 0])]" for p
    by (simp add: bluetooth_defs run_open)
  show ?case
    using Cons.IH [of "fst (run_prog (bluetooth_on_message codec (fst m) (snd m) s))"] chan
      bluetooth_silent [of "fst m" codec "snd m" s] open_run [of "snd m"]
    by (cases "fst m = 7") (simp_all add: split_beta Let_def)
qed simp

end
