(* ===== verification/Status_Services.thy ===== *)
theory Status_Services
  imports Service_Base
begin

text \<open>
  \<open>MediaPlaybackService\<close> and \<open>PhoneStatusService\<close> (\<open>core/src/service/\<close>): status messages of
  the phone go to the application. Each service keeps what it logged last, because the
  phone repeats itself about once a second and only changes are logged.
\<close>

section \<open>MediaPlaybackService\<close>

record playback_service = svc_base +
  mp_has_status_cb :: bool
  mp_has_metadata_cb :: bool
  last_status_seen :: bool
  last_status_state :: i32
  last_status_source :: string
  last_status_shuffle :: bool
  last_status_repeat :: bool
  last_status_repeat_one :: bool

definition new_playback_service :: playback_service where
  "new_playback_service =
     \<lparr>channel_id = 0, mp_has_status_cb = False, mp_has_metadata_cb = False,
      last_status_seen = False, last_status_state = -1, last_status_source = [],
      last_status_shuffle = False, last_status_repeat = False, last_status_repeat_one = False\<rparr>"

definition playback_changed :: "playback_status \<Rightarrow> playback_service \<Rightarrow> bool" where
  "playback_changed msg s \<longleftrightarrow>
     \<not> last_status_seen s \<or> pst_state msg \<noteq> last_status_state s
     \<or> pst_source msg \<noteq> last_status_source s \<or> pst_shuffle msg \<noteq> last_status_shuffle s
     \<or> pst_repeat msg \<noteq> last_status_repeat s \<or> pst_repeat_one msg \<noteq> last_status_repeat_one s"

definition on_playback_status ::
    "pb_codec \<Rightarrow> bytes \<Rightarrow> playback_service \<Rightarrow> playback_service prog" where
  "on_playback_status codec payload s =
     (case parse_playback_status codec payload of
        None \<Rightarrow> Ret s
      | Some msg \<Rightarrow>
          let s1 = (if playback_changed msg s
                    then s\<lparr>last_status_seen := True, last_status_state := pst_state msg,
                           last_status_source := pst_source msg,
                           last_status_shuffle := pst_shuffle msg,
                           last_status_repeat := pst_repeat msg,
                           last_status_repeat_one := pst_repeat_one msg\<rparr>
                    else s)
          in if mp_has_status_cb s1
             then call_all [AppCall (CbPlaybackStatus (pst_state msg) (pst_source msg)
                    (pst_seconds msg) (pst_shuffle msg) (pst_repeat msg) (pst_repeat_one msg))] s1
             else Ret s1)"

definition on_playback_metadata ::
    "pb_codec \<Rightarrow> bytes \<Rightarrow> playback_service \<Rightarrow> playback_service prog" where
  "on_playback_metadata codec payload s =
     (case parse_playback_metadata codec payload of
        None \<Rightarrow> Ret s
      | Some msg \<Rightarrow>
          if mp_has_metadata_cb s
          then call_all [AppCall (CbPlaybackMetadata (pmd_song msg) (pmd_artist msg) (pmd_album msg)
                 (pmd_album_art msg) (pmd_playlist msg) (pmd_duration msg))] s
          else Ret s)"

definition playback_handlers :: "pb_codec \<Rightarrow> playback_service handlers" where
  "playback_handlers codec =
     [MEDIA_PLAYBACK_STATUS \<mapsto> on_playback_status codec,
      MEDIA_PLAYBACK_METADATA \<mapsto> on_playback_metadata codec]"

definition playback_on_message ::
    "pb_codec \<Rightarrow> u16 \<Rightarrow> bytes \<Rightarrow> playback_service \<Rightarrow> playback_service prog" where
  "playback_on_message codec = base_on_message base_on_channel_open (playback_handlers codec)"

definition playback_on_channel_close ::
    "playback_service \<Rightarrow> playback_service \<times> local_call list" where
  "playback_on_channel_close s = (base_on_channel_close s, [])"

lemmas playback_defs = playback_on_message_def playback_handlers_def on_playback_status_def
  on_playback_metadata_def base_on_channel_open_def

interpretation playback: channel_service channel_id "playback_on_message codec"
    playback_on_channel_close for codec
  unfolding playback_on_message_def
  by (rule channel_serviceI)
     (auto simp: playback_defs playback_on_channel_close_def base_on_channel_close_def Let_def
        split: if_splits option.splits)

text \<open>The statuses a run of messages carries, in order.\<close>

primrec statuses :: "pb_codec \<Rightarrow> (u16 \<times> bytes) list \<Rightarrow> playback_status list" where
  "statuses codec [] = []"
| "statuses codec (m # ms) =
     (case (if fst m = MEDIA_PLAYBACK_STATUS then parse_playback_status codec (snd m) else None) of
        None \<Rightarrow> statuses codec ms | Some msg \<Rightarrow> msg # statuses codec ms)"

definition status_call :: "playback_status \<Rightarrow> svc_call" where
  "status_call msg = Local (AppCall (CbPlaybackStatus (pst_state msg) (pst_source msg)
     (pst_seconds msg) (pst_shuffle msg) (pst_repeat msg) (pst_repeat_one msg)))"

definition is_status_call :: "svc_call \<Rightarrow> bool" where
  "is_status_call c = (case c of Local (AppCall (CbPlaybackStatus a b d e f g)) \<Rightarrow> True | _ \<Rightarrow> False)"

definition remembers :: "playback_service \<Rightarrow> playback_status \<Rightarrow> bool" where
  "remembers s msg \<longleftrightarrow> last_status_seen s \<and> \<not> playback_changed msg s"

lemma playback_message:
  "fst m \<noteq> MEDIA_PLAYBACK_STATUS \<or> parse_playback_status codec (snd m) = None \<Longrightarrow>
     filter is_status_call (snd (run_prog (playback_on_message codec (fst m) (snd m) s))) = []
     \<and> mp_has_status_cb (fst (run_prog (playback_on_message codec (fst m) (snd m) s))) = mp_has_status_cb s
     \<and> remembers (fst (run_prog (playback_on_message codec (fst m) (snd m) s))) = remembers s"
  "fst m = MEDIA_PLAYBACK_STATUS \<Longrightarrow> parse_playback_status codec (snd m) = Some msg \<Longrightarrow>
     snd (run_prog (playback_on_message codec (fst m) (snd m) s)) =
       (if mp_has_status_cb s then [status_call msg] else [])
     \<and> mp_has_status_cb (fst (run_prog (playback_on_message codec (fst m) (snd m) s))) = mp_has_status_cb s
     \<and> remembers (fst (run_prog (playback_on_message codec (fst m) (snd m) s))) msg"
  by (auto simp: playback_defs base_on_message_def run_prog_bind message_id_defs is_status_call_def
      remembers_def playback_changed_def status_call_def Let_def fun_eq_iff split: option.splits)

lemma playback_run:
  "filter is_status_call (snd (run_msgs (playback_on_message codec) ms s)) =
     (if mp_has_status_cb s then map status_call (statuses codec ms) else [])
   \<and> (if statuses codec ms = []
      then remembers (fst (run_msgs (playback_on_message codec) ms s)) = remembers s
      else remembers (fst (run_msgs (playback_on_message codec) ms s)) (last (statuses codec ms)))"
proof (induction ms arbitrary: s)
  case Nil
  then show ?case by simp
next
  case (Cons m ms)
  let ?s1 = "fst (run_prog (playback_on_message codec (fst m) (snd m) s))"
  note ih = Cons.IH [of ?s1]
  show ?case
  proof (cases "if fst m = MEDIA_PLAYBACK_STATUS then parse_playback_status codec (snd m) else None")
    case None
    then have "fst m \<noteq> MEDIA_PLAYBACK_STATUS \<or> parse_playback_status codec (snd m) = None"
      by (auto split: if_splits)
    note step = playback_message(1) [OF this, of s]
    show ?thesis using ih step None by (simp only: statuses.simps) (simp add: split_beta Let_def)
  next
    case (Some msg)
    then have "fst m = MEDIA_PLAYBACK_STATUS" "parse_playback_status codec (snd m) = Some msg"
      by (auto split: if_splits)
    note step = playback_message(2) [OF this, of s]
    have call: "is_status_call (status_call msg)" by (simp add: is_status_call_def status_call_def)
    show ?thesis using ih step call Some
      by (simp only: statuses.simps) (auto simp: split_beta Let_def)
  qed
qed

text \<open>
  The progress bar never stalls. Suppressing repeated log lines suppresses no
  notification: the application hears every status that can be parsed, once, in order,
  with its position; and what the service remembers is always the latest of them.
\<close>

theorem playback_status_always_delivered:
  "filter is_status_call (snd (run_msgs (playback_on_message codec) ms s)) =
     (if mp_has_status_cb s then map status_call (statuses codec ms) else [])
   \<and> (statuses codec ms = []
      \<or> remembers (fst (run_msgs (playback_on_message codec) ms s)) (last (statuses codec ms)))"
  using playback_run [of codec ms s] by (cases "statuses codec ms = []") auto

section \<open>PhoneStatusService\<close>

record phone_status_service = svc_base +
  ps_has_status_cb :: bool
  last_seen :: bool
  last_call_count :: nat
  last_first_state :: i32
  last_first_number :: string
  last_signal :: i32

definition first_call_key :: "phone_status \<Rightarrow> i32 \<times> string" where
  "first_call_key msg =
     (case ps_calls msg of [] \<Rightarrow> (-1, []) | c # cs \<Rightarrow> (call_state c, call_number c))"

definition signal_of :: "phone_status \<Rightarrow> i32" where
  "signal_of msg = (case ps_signal msg of Some v \<Rightarrow> v | None \<Rightarrow> -1)"

definition phone_status_changed :: "phone_status \<Rightarrow> phone_status_service \<Rightarrow> bool" where
  "phone_status_changed msg s \<longleftrightarrow>
     \<not> last_seen s \<or> length (ps_calls msg) \<noteq> last_call_count s
     \<or> fst (first_call_key msg) \<noteq> last_first_state s
     \<or> snd (first_call_key msg) \<noteq> last_first_number s
     \<or> signal_of msg \<noteq> last_signal s"

definition on_phone_status ::
    "pb_codec \<Rightarrow> bytes \<Rightarrow> phone_status_service \<Rightarrow> phone_status_service prog" where
  "on_phone_status codec payload s =
     (case parse_phone_status codec payload of
        None \<Rightarrow> Ret s
      | Some msg \<Rightarrow>
          let s1 = (if phone_status_changed msg s
                    then s\<lparr>last_seen := True, last_call_count := length (ps_calls msg),
                           last_first_state := fst (first_call_key msg),
                           last_first_number := snd (first_call_key msg),
                           last_signal := signal_of msg\<rparr>
                    else s)
          in if ps_has_status_cb s1
             then call_all [AppCall (CbPhoneStatus (ps_calls msg) (signal_of msg))] s1
             else Ret s1)"

definition phone_status_handlers :: "pb_codec \<Rightarrow> phone_status_service handlers" where
  "phone_status_handlers codec = [PHONE_STATUS \<mapsto> on_phone_status codec]"

definition phone_status_on_message ::
    "pb_codec \<Rightarrow> u16 \<Rightarrow> bytes \<Rightarrow> phone_status_service \<Rightarrow> phone_status_service prog" where
  "phone_status_on_message codec =
     base_on_message base_on_channel_open (phone_status_handlers codec)"

definition phone_status_on_channel_close ::
    "phone_status_service \<Rightarrow> phone_status_service \<times> local_call list" where
  "phone_status_on_channel_close s = (base_on_channel_close s, [])"

interpretation phone: channel_service channel_id "phone_status_on_message codec"
    phone_status_on_channel_close for codec
  unfolding phone_status_on_message_def
  by (rule channel_serviceI)
     (auto simp: phone_status_handlers_def on_phone_status_def base_on_channel_open_def
        phone_status_on_channel_close_def base_on_channel_close_def Let_def
        split: if_splits option.splits)

end
