(* ===== verification/Browser_Service.thy ===== *)
theory Browser_Service
  imports Service_Base
begin

text \<open>
  \<open>MediaBrowserService\<close> (\<open>core/src/service/MediaBrowserService.cpp\<close>): nodes of the phone's
  media tree go to the application, node requests and browse input go to the phone.
\<close>

record browser_service = svc_base +
  mb_has_root_cb :: bool
  mb_has_source_cb :: bool
  mb_has_list_cb :: bool
  mb_has_song_cb :: bool

datatype browse_action_code =
  BrowseUnknown | BrowseUp | BrowseDown | BrowseLeft | BrowseRight | BrowseEnter | BrowseBack | BrowseCall

primrec browse_code :: "browse_action_code \<Rightarrow> int" where
  "browse_code BrowseUnknown = 0" | "browse_code BrowseUp = 1" | "browse_code BrowseDown = 2"
| "browse_code BrowseLeft = 3" | "browse_code BrowseRight = 4" | "browse_code BrowseEnter = 5"
| "browse_code BrowseBack = 6" | "browse_code BrowseCall = 7"

section \<open>From protobuf elements to entries\<close>

definition opt_string :: "string option \<Rightarrow> string" where
  "opt_string s = (case s of None \<Rightarrow> [] | Some t \<Rightarrow> t)"

definition to_source_entry :: "pb_media_source \<Rightarrow> source_entry" where
  "to_source_entry s =
     \<lparr>se_path = src_path s, se_name = src_name s, se_album_art = src_album_art s\<rparr>"

definition to_list_entry :: "pb_media_list \<Rightarrow> list_entry" where
  "to_list_entry l =
     \<lparr>le_path = lst_path l, le_type = lst_type l, le_name = opt_string (lst_name l),
      le_album_art = lst_album_art l\<rparr>"

definition to_song_entry :: "pb_media_song \<Rightarrow> song_entry" where
  "to_song_entry s =
     \<lparr>sg_path = song_path s, sg_name = song_name s, sg_artist = opt_string (song_artist s),
      sg_album = opt_string (song_album s)\<rparr>"

section \<open>Handlers\<close>

definition on_root_node :: "pb_codec \<Rightarrow> bytes \<Rightarrow> browser_service \<Rightarrow> browser_service prog" where
  "on_root_node codec payload s =
     (case parse_root_node codec payload of
        None \<Rightarrow> Ret s
      | Some msg \<Rightarrow>
          let sources = map to_source_entry (rn_sources msg)
          in if mb_has_root_cb s then call_all [AppCall (CbRootNode (rn_path msg) sources)] s
             else Ret s)"

definition on_source_node :: "pb_codec \<Rightarrow> bytes \<Rightarrow> browser_service \<Rightarrow> browser_service prog" where
  "on_source_node codec payload s =
     (case parse_source_node codec payload of
        None \<Rightarrow> Ret s
      | Some msg \<Rightarrow>
          let src = to_source_entry (sn_source msg); lists = map to_list_entry (sn_lists msg)
          in if mb_has_source_cb s
             then call_all [AppCall (CbSourceNode src (sn_start msg) (sn_total msg) lists)] s
             else Ret s)"

definition on_list_node :: "pb_codec \<Rightarrow> bytes \<Rightarrow> browser_service \<Rightarrow> browser_service prog" where
  "on_list_node codec payload s =
     (case parse_list_node codec payload of
        None \<Rightarrow> Ret s
      | Some msg \<Rightarrow>
          let lst = to_list_entry (ln_list msg); songs = map to_song_entry (ln_songs msg)
          in if mb_has_list_cb s
             then call_all [AppCall (CbListNode lst (ln_start msg) (ln_total msg) songs)] s
             else Ret s)"

definition on_song_node :: "pb_codec \<Rightarrow> bytes \<Rightarrow> browser_service \<Rightarrow> browser_service prog" where
  "on_song_node codec payload s =
     (case parse_song_node codec payload of
        None \<Rightarrow> Ret s
      | Some msg \<Rightarrow>
          let song = to_song_entry (so_song msg)
          in if mb_has_song_cb s
             then call_all [AppCall (CbSongNode song (so_album_art msg) (so_duration msg))] s
             else Ret s)"

definition browser_handlers :: "pb_codec \<Rightarrow> browser_service handlers" where
  "browser_handlers codec =
     [MEDIA_ROOT_NODE \<mapsto> on_root_node codec,
      MEDIA_SOURCE_NODE \<mapsto> on_source_node codec,
      MEDIA_LIST_NODE \<mapsto> on_list_node codec,
      MEDIA_SONG_NODE \<mapsto> on_song_node codec]"

definition browser_on_message ::
    "pb_codec \<Rightarrow> u16 \<Rightarrow> bytes \<Rightarrow> browser_service \<Rightarrow> browser_service prog" where
  "browser_on_message codec = base_on_message base_on_channel_open (browser_handlers codec)"

definition request_node ::
    "pb_codec \<Rightarrow> string \<Rightarrow> i32 \<Rightarrow> bool \<Rightarrow> browser_service \<Rightarrow> browser_service prog" where
  "request_node codec path start get_art s =
     send MEDIA_GET_NODE
       (ser codec (PbMediaGetNode path (if start \<noteq> 0 then Some start else None) get_art)) s"

definition browse_input ::
    "pb_codec \<Rightarrow> string \<Rightarrow> browse_action_code \<Rightarrow> browser_service \<Rightarrow> browser_service prog" where
  "browse_input codec path action s =
     send MEDIA_BROWSE_INPUT (ser codec (PbMediaBrowserInput path (browse_code action))) s"

definition browser_on_channel_close :: "browser_service \<Rightarrow> browser_service \<times> local_call list" where
  "browser_on_channel_close s = (base_on_channel_close s, [])"

lemmas browser_defs = browser_on_message_def browser_handlers_def on_root_node_def
  on_source_node_def on_list_node_def on_song_node_def base_on_channel_open_def

interpretation browser: channel_service channel_id "browser_on_message codec"
    browser_on_channel_close for codec
  unfolding browser_on_message_def
  by (rule channel_serviceI)
     (auto simp: browser_defs browser_on_channel_close_def base_on_channel_close_def Let_def
        split: if_splits option.splits)

end
