(* ===== verification/Services.thy ===== *)
theory Services
  imports Control_Service Video_Service Input_Sensor Bluetooth_Service Status_Services Browser_Service
begin

text \<open>
  The services behind the interface \<open>IService\<close>: the four services that only describe
  themselves (microphone, navigation status, notification, vendor extension), the sum of
  all service types, and each virtual function of \<open>IService\<close> as a case distinction over
  it, with the defaults of \<open>IService.hpp\<close> where a service does not override it.

  \<open>service_ops\<close> is the interface as the session sees it.
\<close>

section \<open>Services without handlers\<close>

record microphone_service = svc_base +
  mic_sample_rate :: u32
  mic_channels :: byte
  mic_bits_per_sample :: byte

record vendor_service = svc_base +
  vendor_name :: string

definition microphone_fill_config :: "microphone_service \<Rightarrow> service_config" where
  "microphone_fill_config s =
     CfgMicrophone MEDIA_CODEC_AUDIO_PCM (mic_sample_rate s) (mic_bits_per_sample s) (mic_channels s)"

definition navigation_fill_config :: "svc_base \<Rightarrow> service_config" where
  "navigation_fill_config s = CfgNavigation 500 NAVIGATION_ENUM"

definition notification_fill_config :: "svc_base \<Rightarrow> service_config" where
  "notification_fill_config s = CfgNotification"

definition vendor_fill_config :: "vendor_service \<Rightarrow> service_config" where
  "vendor_fill_config s = CfgVendorExtension (vendor_name s)"

definition playback_fill_config :: "playback_service \<Rightarrow> service_config" where
  "playback_fill_config s = CfgMediaPlayback"

definition phone_status_fill_config :: "phone_status_service \<Rightarrow> service_config" where
  "phone_status_fill_config s = CfgPhoneStatus"

definition browser_fill_config :: "browser_service \<Rightarrow> service_config" where
  "browser_fill_config s = CfgMediaBrowser"

definition plain_on_message ::
    "u16 \<Rightarrow> bytes \<Rightarrow> 'a svc_base_scheme \<Rightarrow> 'a svc_base_scheme prog" where
  "plain_on_message = base_on_message base_on_channel_open Map.empty"

interpretation plain: channel_service channel_id plain_on_message plain_on_channel_close
  unfolding plain_on_message_def
  by (rule channel_serviceI)
     (auto simp: base_on_channel_open_def plain_on_channel_close_def base_on_channel_close_def)

section \<open>IService\<close>

datatype service_type =
    TypeControl | TypeMediaSink | TypeMediaSource | TypeInputSource | TypeSensorSource
  | TypeBluetoothService | TypeNavigationStatus | TypePhoneStatus | TypeMediaBrowser
  | TypeMediaPlayback | TypeRadioService | TypeVendorExtension | TypeGenericNotification
  | TypeWifiProjection

datatype service =
    Svc_Control (the_control: control_service)
  | Svc_Video (the_video: video_service)
  | Svc_Audio (the_audio: audio_service)
  | Svc_Input (the_input: input_service)
  | Svc_Sensor (the_sensor: svc_base)
  | Svc_Microphone (the_microphone: microphone_service)
  | Svc_Bluetooth (the_bluetooth: bluetooth_service)
  | Svc_Playback (the_playback: playback_service)
  | Svc_Phone (the_phone: phone_status_service)
  | Svc_Browser (the_browser: browser_service)
  | Svc_Navigation (the_navigation: svc_base)
  | Svc_Notification (the_notification: svc_base)
  | Svc_Vendor (the_vendor: vendor_service)

primrec service_channel :: "service \<Rightarrow> byte" where
  "service_channel (Svc_Control s) = channel_id s"
| "service_channel (Svc_Video s) = channel_id s"
| "service_channel (Svc_Audio s) = channel_id s"
| "service_channel (Svc_Input s) = channel_id s"
| "service_channel (Svc_Sensor s) = channel_id s"
| "service_channel (Svc_Microphone s) = channel_id s"
| "service_channel (Svc_Bluetooth s) = channel_id s"
| "service_channel (Svc_Playback s) = channel_id s"
| "service_channel (Svc_Phone s) = channel_id s"
| "service_channel (Svc_Browser s) = channel_id s"
| "service_channel (Svc_Navigation s) = channel_id s"
| "service_channel (Svc_Notification s) = channel_id s"
| "service_channel (Svc_Vendor s) = channel_id s"

primrec service_set_channel :: "byte \<Rightarrow> service \<Rightarrow> service" where
  "service_set_channel ch (Svc_Control s) = Svc_Control (set_channel ch s)"
| "service_set_channel ch (Svc_Video s) = Svc_Video (set_channel ch s)"
| "service_set_channel ch (Svc_Audio s) = Svc_Audio (set_channel ch s)"
| "service_set_channel ch (Svc_Input s) = Svc_Input (set_channel ch s)"
| "service_set_channel ch (Svc_Sensor s) = Svc_Sensor (set_channel ch s)"
| "service_set_channel ch (Svc_Microphone s) = Svc_Microphone (set_channel ch s)"
| "service_set_channel ch (Svc_Bluetooth s) = Svc_Bluetooth (set_channel ch s)"
| "service_set_channel ch (Svc_Playback s) = Svc_Playback (set_channel ch s)"
| "service_set_channel ch (Svc_Phone s) = Svc_Phone (set_channel ch s)"
| "service_set_channel ch (Svc_Browser s) = Svc_Browser (set_channel ch s)"
| "service_set_channel ch (Svc_Navigation s) = Svc_Navigation (set_channel ch s)"
| "service_set_channel ch (Svc_Notification s) = Svc_Notification (set_channel ch s)"
| "service_set_channel ch (Svc_Vendor s) = Svc_Vendor (set_channel ch s)"

primrec service_type_of :: "service \<Rightarrow> service_type" where
  "service_type_of (Svc_Control s) = TypeControl"
| "service_type_of (Svc_Video s) = TypeMediaSink"
| "service_type_of (Svc_Audio s) = TypeMediaSink"
| "service_type_of (Svc_Input s) = TypeInputSource"
| "service_type_of (Svc_Sensor s) = TypeSensorSource"
| "service_type_of (Svc_Microphone s) = TypeMediaSource"
| "service_type_of (Svc_Bluetooth s) = TypeBluetoothService"
| "service_type_of (Svc_Playback s) = TypeMediaPlayback"
| "service_type_of (Svc_Phone s) = TypePhoneStatus"
| "service_type_of (Svc_Browser s) = TypeMediaBrowser"
| "service_type_of (Svc_Navigation s) = TypeNavigationStatus"
| "service_type_of (Svc_Notification s) = TypeGenericNotification"
| "service_type_of (Svc_Vendor s) = TypeVendorExtension"

primrec service_on_message ::
    "pb_codec \<Rightarrow> int \<Rightarrow> u16 \<Rightarrow> bytes \<Rightarrow> service \<Rightarrow> service prog" where
  "service_on_message codec now t p (Svc_Control s) =
     lift_prog Svc_Control the_control (control_on_message codec now t p s)"
| "service_on_message codec now t p (Svc_Video s) =
     lift_prog Svc_Video the_video (video_on_message codec t p s)"
| "service_on_message codec now t p (Svc_Audio s) =
     lift_prog Svc_Audio the_audio (audio_on_message codec t p s)"
| "service_on_message codec now t p (Svc_Input s) =
     lift_prog Svc_Input the_input (input_on_message codec t p s)"
| "service_on_message codec now t p (Svc_Sensor s) =
     lift_prog Svc_Sensor the_sensor (sensor_on_message codec t p s)"
| "service_on_message codec now t p (Svc_Microphone s) =
     lift_prog Svc_Microphone the_microphone (plain_on_message t p s)"
| "service_on_message codec now t p (Svc_Bluetooth s) =
     lift_prog Svc_Bluetooth the_bluetooth (bluetooth_on_message codec t p s)"
| "service_on_message codec now t p (Svc_Playback s) =
     lift_prog Svc_Playback the_playback (playback_on_message codec t p s)"
| "service_on_message codec now t p (Svc_Phone s) =
     lift_prog Svc_Phone the_phone (phone_status_on_message codec t p s)"
| "service_on_message codec now t p (Svc_Browser s) =
     lift_prog Svc_Browser the_browser (browser_on_message codec t p s)"
| "service_on_message codec now t p (Svc_Navigation s) =
     lift_prog Svc_Navigation the_navigation (plain_on_message t p s)"
| "service_on_message codec now t p (Svc_Notification s) =
     lift_prog Svc_Notification the_notification (plain_on_message t p s)"
| "service_on_message codec now t p (Svc_Vendor s) =
     lift_prog Svc_Vendor the_vendor (plain_on_message t p s)"

primrec service_on_channel_close :: "service \<Rightarrow> service \<times> local_call list" where
  "service_on_channel_close (Svc_Control s) = map_prod Svc_Control id (control_on_channel_close s)"
| "service_on_channel_close (Svc_Video s) = map_prod Svc_Video id (video_on_channel_close s)"
| "service_on_channel_close (Svc_Audio s) = map_prod Svc_Audio id (audio_on_channel_close s)"
| "service_on_channel_close (Svc_Input s) = map_prod Svc_Input id (input_on_channel_close s)"
| "service_on_channel_close (Svc_Sensor s) = map_prod Svc_Sensor id (plain_on_channel_close s)"
| "service_on_channel_close (Svc_Microphone s) = map_prod Svc_Microphone id (plain_on_channel_close s)"
| "service_on_channel_close (Svc_Bluetooth s) = map_prod Svc_Bluetooth id (bluetooth_on_channel_close s)"
| "service_on_channel_close (Svc_Playback s) = map_prod Svc_Playback id (playback_on_channel_close s)"
| "service_on_channel_close (Svc_Phone s) = map_prod Svc_Phone id (phone_status_on_channel_close s)"
| "service_on_channel_close (Svc_Browser s) = map_prod Svc_Browser id (browser_on_channel_close s)"
| "service_on_channel_close (Svc_Navigation s) = map_prod Svc_Navigation id (plain_on_channel_close s)"
| "service_on_channel_close (Svc_Notification s) = map_prod Svc_Notification id (plain_on_channel_close s)"
| "service_on_channel_close (Svc_Vendor s) = map_prod Svc_Vendor id (plain_on_channel_close s)"

primrec service_fill_config :: "service \<Rightarrow> service_config" where
  "service_fill_config (Svc_Control s) = NoConfig"
| "service_fill_config (Svc_Video s) = video_fill_config s"
| "service_fill_config (Svc_Audio s) = audio_fill_config s"
| "service_fill_config (Svc_Input s) = input_fill_config s"
| "service_fill_config (Svc_Sensor s) = sensor_fill_config s"
| "service_fill_config (Svc_Microphone s) = microphone_fill_config s"
| "service_fill_config (Svc_Bluetooth s) = bluetooth_fill_config s"
| "service_fill_config (Svc_Playback s) = playback_fill_config s"
| "service_fill_config (Svc_Phone s) = phone_status_fill_config s"
| "service_fill_config (Svc_Browser s) = browser_fill_config s"
| "service_fill_config (Svc_Navigation s) = navigation_fill_config s"
| "service_fill_config (Svc_Notification s) = notification_fill_config s"
| "service_fill_config (Svc_Vendor s) = vendor_fill_config s"

text \<open>The requests a session passes on to all its services, most of which ignore them.\<close>

datatype broadcast =
    BcSetNativeWindow i64 | BcVideoFocus bool | BcAttachSinks | BcDetachSinks
  | BcTouch i32 i32 i32 | BcMediaKey i32 | BcReleaseAudioFocus | BcGainAudioFocus | BcSessionStop

definition service_broadcast :: "pb_codec \<Rightarrow> int \<Rightarrow> broadcast \<Rightarrow> service \<Rightarrow> service prog" where
  "service_broadcast codec now b svc =
     (case (b, svc) of
        (BcSetNativeWindow w, Svc_Video s) \<Rightarrow>
          lift_prog Svc_Video the_video (video_set_native_window w s)
      | (BcVideoFocus projected, Svc_Video s) \<Rightarrow>
          lift_prog Svc_Video the_video (set_video_focus codec projected s)
      | (BcAttachSinks, Svc_Video s) \<Rightarrow> Ret (Svc_Video (video_attach_sinks s))
      | (BcAttachSinks, Svc_Audio s) \<Rightarrow> Ret (Svc_Audio (audio_attach_sinks s))
      | (BcDetachSinks, Svc_Video s) \<Rightarrow> Ret (Svc_Video (video_detach_sinks s))
      | (BcDetachSinks, Svc_Audio s) \<Rightarrow> Ret (Svc_Audio (audio_detach_sinks s))
      | (BcTouch x y action, Svc_Input s) \<Rightarrow>
          lift_prog Svc_Input the_input (send_touch codec now x y action s)
      | (BcMediaKey keycode, Svc_Input s) \<Rightarrow>
          lift_prog Svc_Input the_input (send_media_key codec now keycode s)
      | (BcReleaseAudioFocus, Svc_Control s) \<Rightarrow>
          lift_prog Svc_Control the_control (control_release_audio_focus codec s)
      | (BcGainAudioFocus, Svc_Control s) \<Rightarrow>
          lift_prog Svc_Control the_control (control_gain_audio_focus codec s)
      | (BcSessionStop, Svc_Control s) \<Rightarrow>
          lift_prog Svc_Control the_control (control_on_session_stop codec s)
      | _ \<Rightarrow> Ret svc)"

section \<open>The interface the session uses\<close>

record 'v service_ops =
  svc_on_message :: "u16 \<Rightarrow> bytes \<Rightarrow> 'v \<Rightarrow> 'v prog"
  svc_on_channel_close :: "'v \<Rightarrow> 'v \<times> local_call list"
  svc_broadcast :: "broadcast \<Rightarrow> 'v \<Rightarrow> 'v prog"
  svc_heartbeat :: "'v \<Rightarrow> 'v prog"
  svc_pairing_response :: "i32 \<Rightarrow> bool \<Rightarrow> 'v \<Rightarrow> 'v prog"
  svc_auth_result :: "i32 \<Rightarrow> 'v \<Rightarrow> 'v prog"
  svc_type :: "'v \<Rightarrow> service_type"

definition service_heartbeat :: "pb_codec \<Rightarrow> int \<Rightarrow> service \<Rightarrow> service prog" where
  "service_heartbeat codec now svc =
     (case svc of Svc_Control s \<Rightarrow>
        lift_prog Svc_Control the_control (on_heartbeat_timer codec False now now s)
      | _ \<Rightarrow> Ret svc)"

definition service_pairing_response :: "pb_codec \<Rightarrow> i32 \<Rightarrow> bool \<Rightarrow> service \<Rightarrow> service prog" where
  "service_pairing_response codec status paired svc =
     (case svc of Svc_Bluetooth s \<Rightarrow>
        lift_prog Svc_Bluetooth the_bluetooth (send_pairing_response codec status paired s)
      | _ \<Rightarrow> Ret svc)"

definition service_auth_result :: "pb_codec \<Rightarrow> i32 \<Rightarrow> service \<Rightarrow> service prog" where
  "service_auth_result codec status svc =
     (case svc of Svc_Bluetooth s \<Rightarrow>
        lift_prog Svc_Bluetooth the_bluetooth (send_auth_result codec status s)
      | _ \<Rightarrow> Ret svc)"

definition aap_services :: "pb_codec \<Rightarrow> int \<Rightarrow> service service_ops" where
  "aap_services codec now =
     \<lparr>svc_on_message = service_on_message codec now,
      svc_on_channel_close = service_on_channel_close,
      svc_broadcast = service_broadcast codec now,
      svc_heartbeat = service_heartbeat codec now,
      svc_pairing_response = service_pairing_response codec,
      svc_auth_result = service_auth_result codec,
      svc_type = service_type_of\<rparr>"

text \<open>Every service of the program keeps the contract of \<open>channel_service\<close>.\<close>

lemmas service_contracts [intro] =
  control.keeps_channel video.keeps_channel audio.keeps_channel input.keeps_channel
  sensor.keeps_channel plain.keeps_channel bluetooth.keeps_channel playback.keeps_channel
  phone.keeps_channel browser.keeps_channel

interpretation services: channel_service service_channel "service_on_message codec now"
    service_on_channel_close for codec now
proof
  fix t p s ch t' q
  show "service_channel (fst (run_prog (service_on_message codec now t p s))) = service_channel s"
    by (cases s) (simp_all add: run_lift_prog service_contracts)
  show "ch = service_channel s"
    if "(ch, t', q) \<in> set (sent (snd (run_prog (service_on_message codec now t p s))))"
    using that
    by (cases s) (auto simp: run_lift_prog dest: control.sends_own_channel video.sends_own_channel
        audio.sends_own_channel input.sends_own_channel sensor.sends_own_channel
        plain.sends_own_channel bluetooth.sends_own_channel playback.sends_own_channel
        phone.sends_own_channel browser.sends_own_channel)
  show "\<exists>cs. snd (run_prog (service_on_message codec now (ctl ChannelOpenRequest) p s)) =
      SendMsg (service_channel s) (ctl ChannelOpenResponse) [0x08, 0x00] # cs"
    by (cases s) (simp_all add: run_lift_prog control.open_confirmed [simplified]
        video.open_confirmed [simplified] audio.open_confirmed [simplified]
        input.open_confirmed [simplified] sensor.open_confirmed [simplified]
        plain.open_confirmed [simplified] bluetooth.open_confirmed [simplified]
        playback.open_confirmed [simplified] phone.open_confirmed [simplified]
        browser.open_confirmed [simplified])
  show "service_channel (fst (service_on_channel_close s)) = 0"
    by (cases s) (simp_all add: control.close_resets video.close_resets audio.close_resets
        input.close_resets plain.close_resets bluetooth.close_resets playback.close_resets
        phone.close_resets browser.close_resets)
qed

text \<open>
  Every service of the head unit answers a channel open first and stays on its channel:
  whatever messages it handles, all it sends goes out on the channel it was assigned, the
  confirmation of an open request precedes anything the opening causes, and closing it
  sends nothing and puts it on channel 0.
\<close>

theorem every_service_keeps_its_channel:
  "service_channel (fst (run_msgs (service_on_message codec now) ms svc)) = service_channel svc
   \<and> fst ` set (sent (snd (run_msgs (service_on_message codec now) ms svc))) \<subseteq> {service_channel svc}
   \<and> (\<exists>cs. snd (run_prog (service_on_message codec now (ctl ChannelOpenRequest) p svc)) =
         SendMsg (service_channel svc) (ctl ChannelOpenResponse) [8, 0] # cs)
   \<and> service_channel (fst (service_on_channel_close svc)) = 0"
  using services.run_msgs_channel [of codec now ms svc]
    services.run_msgs_own_channel [of _ _ _ codec now ms svc]
    services.open_confirmed [of codec now p svc] services.close_resets [of svc]
  by auto

end
