(* ===== verification/Session.thy ===== *)
theory Session
  imports Handshake Inbound Services
begin

text \<open>
  \<open>Session\<close> (\<open>core/src/session/Session.cpp\<close>): one connection to one phone. The session owns
  the framer, the crypto object that encoder, assembler and handshake coordinator share,
  the write queue and the services, and runs the connection's state machine.

  Everything happens on one strand: an event (a completion of a read or write, a timer
  expiry, a posted \<open>start\<close> or \<open>stop\<close>, a call of the engine) runs to its end before the
  next, so the session is the function \<open>session_step\<close> from state and event to state. Calls
  to the transport, the timer, the observer and out of the services are appended to the
  log \<open>ss_log\<close> in the order in which they are made. The callbacks between the session and
  its parts are synchronous: \<open>asio::bind_executor\<close> only attaches an executor, and calling
  the wrapped function is a direct call.

  The services are known through \<open>service_ops\<close>; the time at which an event is handled is
  part of the event, because services read the clock.
\<close>

section \<open>State\<close>

datatype session_state =
  Idle | VersionExchange | SslHandshake | Running | Disconnecting | Disconnected | SessionError

definition is_terminal :: "session_state \<Rightarrow> bool" where
  "is_terminal s \<longleftrightarrow> s = Disconnected \<or> s = SessionError"

record session_config =
  cfg_session_id :: u32
  ssl_handshake_timeout_ms :: nat
  version_exchange_timeout_ms :: nat
  byebye_timeout_ms :: nat

definition default_session_config :: "u32 \<Rightarrow> session_config" where
  "default_session_config sid =
     \<lparr>cfg_session_id = sid, ssl_handshake_timeout_ms = 10000,
      version_exchange_timeout_ms = 5000, byebye_timeout_ms = 3000\<rparr>"

definition kMaxWriteQueueSize :: nat where "kMaxWriteQueueSize = 256"

datatype session_call =
    ToObserverState session_state
  | ToObserverError error_code
  | TransportRead
  | TransportWrite bytes
  | TransportClose
  | TimerArm nat
  | TimerCancel
  | FromService byte local_call

record ('c, 'v) session =
  ss_config :: session_config
  ss_state :: session_state
  ss_crypto :: 'c
  ss_framer :: framer
  ss_buffers :: channel_buffers
  ss_write_queue :: "bytes list"
  ss_write_in_progress :: bool
  ss_services :: "(byte \<times> 'v) list"
  ss_log :: "session_call list"

text \<open>What a session is given: the crypto operations, the services at a time, the codec.\<close>

record ('c, 'v) session_env =
  env_crypto :: "'c crypto_ops"
  env_services :: "int \<Rightarrow> 'v service_ops"
  env_codec :: pb_codec

definition new_session :: "session_config \<Rightarrow> 'c \<Rightarrow> ('c, 'v) session" where
  "new_session cfg c =
     \<lparr>ss_config = cfg, ss_state = Idle, ss_crypto = c, ss_framer = new_framer,
      ss_buffers = Map.empty, ss_write_queue = [], ss_write_in_progress = False,
      ss_services = [], ss_log = []\<rparr>"

definition emit :: "session_call \<Rightarrow> ('c, 'v) session \<Rightarrow> ('c, 'v) session" where
  "emit c s = s\<lparr>ss_log := ss_log s @ [c]\<rparr>"

text \<open>\<open>services_\<close> is an ordered map: the list is kept sorted by channel.\<close>

fun put_service :: "byte \<Rightarrow> 'v \<Rightarrow> (byte \<times> 'v) list \<Rightarrow> (byte \<times> 'v) list" where
  "put_service ch v [] = [(ch, v)]"
| "put_service ch v ((k, w) # kvs) =
     (if ch < k then (ch, v) # (k, w) # kvs
      else if ch = k then (ch, v) # kvs
      else (k, w) # put_service ch v kvs)"

definition register_service :: "byte \<Rightarrow> 'v \<Rightarrow> ('c, 'v) session \<Rightarrow> ('c, 'v) session" where
  "register_service ch v s = s\<lparr>ss_services := put_service ch v (ss_services s)\<rparr>"

definition find_service :: "byte \<Rightarrow> ('c, 'v) session \<Rightarrow> 'v option" where
  "find_service ch s = map_of (ss_services s) ch"

section \<open>Write queue\<close>

definition do_write_next :: "('c, 'v) session \<Rightarrow> ('c, 'v) session" where
  "do_write_next s =
     (case ss_write_queue s of
        [] \<Rightarrow> s\<lparr>ss_write_in_progress := False\<rparr>
      | front # rest \<Rightarrow> emit (TransportWrite front) (s\<lparr>ss_write_in_progress := True\<rparr>))"

definition enqueue_write :: "('c, 'v) session \<Rightarrow> bytes \<Rightarrow> ('c, 'v) session" where
  "enqueue_write s wire_data =
     (if length (ss_write_queue s) \<ge> kMaxWriteQueueSize then s
      else let s1 = s\<lparr>ss_write_queue := ss_write_queue s @ [wire_data]\<rparr>
           in if \<not> ss_write_in_progress s1 then do_write_next s1 else s1)"

section \<open>State changes and errors\<close>

definition transition_to :: "session_state \<Rightarrow> ('c, 'v) session \<Rightarrow> ('c, 'v) session" where
  "transition_to new_state s =
     emit (ToObserverState new_state) (emit TimerCancel (s\<lparr>ss_state := new_state\<rparr>))"

primrec close_each :: "'v service_ops \<Rightarrow> (byte \<times> 'v) list \<Rightarrow> (byte \<times> 'v) list \<times> session_call list" where
  "close_each vops [] = ([], [])"
| "close_each vops (kv # kvs) =
     (let (v, calls) = svc_on_channel_close vops (snd kv);
          (kvs', log) = close_each vops kvs
      in ((fst kv, v) # kvs', map (FromService (fst kv)) calls @ log))"

definition close_transport_and_services ::
    "'v service_ops \<Rightarrow> ('c, 'v) session \<Rightarrow> ('c, 'v) session" where
  "close_transport_and_services vops s =
     (let s1 = emit TransportClose (emit TimerCancel s);
          (svcs, calls) = close_each vops (ss_services s1)
      in s1\<lparr>ss_services := svcs, ss_log := ss_log s1 @ calls\<rparr>)"

definition handle_error ::
    "'v service_ops \<Rightarrow> error_code \<Rightarrow> ('c, 'v) session \<Rightarrow> ('c, 'v) session" where
  "handle_error vops ec s =
     (if is_terminal (ss_state s) then s
      else emit (ToObserverError ec)
             (close_transport_and_services vops (transition_to SessionError s)))"

section \<open>Sending\<close>

definition send_message ::
    "'c crypto_ops \<Rightarrow> 'v service_ops \<Rightarrow> byte \<Rightarrow> u16 \<Rightarrow> bytes \<Rightarrow> ('c, 'v) session \<Rightarrow> ('c, 'v) session" where
  "send_message ops vops ch message_type payload s =
     (case encoder_send_message ops ch message_type payload (ss_crypto s) of
        (c, Inl ec) \<Rightarrow> handle_error vops ec (s\<lparr>ss_crypto := c\<rparr>)
      | (c, Inr wires) \<Rightarrow> foldl enqueue_write (s\<lparr>ss_crypto := c\<rparr>) wires)"

section \<open>Running a service\<close>

definition perform_call ::
    "'c crypto_ops \<Rightarrow> 'v service_ops \<Rightarrow> byte \<Rightarrow> svc_call \<Rightarrow> ('c, 'v) session \<Rightarrow> ('c, 'v) session" where
  "perform_call ops vops ch c s =
     (case c of
        SendMsg ch' t p \<Rightarrow> send_message ops vops ch' t p s
      | Local l \<Rightarrow> emit (FromService ch l) s)"

definition update_service :: "byte \<Rightarrow> 'v \<Rightarrow> ('c, 'v) session \<Rightarrow> ('c, 'v) session" where
  "update_service ch v s =
     s\<lparr>ss_services := map (\<lambda>kv. if fst kv = ch then (ch, v) else kv) (ss_services s)\<rparr>"

text \<open>
  A handler of the service on channel \<open>ch\<close>, with the session behind its calls: the service's
  state is put back before each call, and read again after it.
\<close>

primrec exec_prog ::
    "'c crypto_ops \<Rightarrow> 'v service_ops \<Rightarrow> byte \<Rightarrow> 'v prog \<Rightarrow> ('c, 'v) session \<Rightarrow> ('c, 'v) session" where
  "exec_prog ops vops ch (Ret v) s = update_service ch v s"
| "exec_prog ops vops ch (Call c v r) s =
     (let s1 = perform_call ops vops ch c (update_service ch v s)
      in case find_service ch s1 of None \<Rightarrow> s1 | Some v1 \<Rightarrow> exec_prog ops vops ch (r v1) s1)"

text \<open>One of the \<open>for (auto& [ch, svc] : services_)\<close> loops.\<close>

primrec for_services ::
    "'c crypto_ops \<Rightarrow> 'v service_ops \<Rightarrow> ('v \<Rightarrow> 'v prog) \<Rightarrow> byte list \<Rightarrow> ('c, 'v) session \<Rightarrow> ('c, 'v) session" where
  "for_services ops vops f [] s = s"
| "for_services ops vops f (ch # chs) s =
     (case find_service ch s of
        None \<Rightarrow> for_services ops vops f chs s
      | Some v \<Rightarrow> for_services ops vops f chs (exec_prog ops vops ch (f v) s))"

definition broadcast_services ::
    "'c crypto_ops \<Rightarrow> 'v service_ops \<Rightarrow> broadcast \<Rightarrow> ('c, 'v) session \<Rightarrow> ('c, 'v) session" where
  "broadcast_services ops vops b s =
     for_services ops vops (svc_broadcast vops b) (map fst (ss_services s)) s"

definition find_bluetooth_service :: "'v service_ops \<Rightarrow> ('c, 'v) session \<Rightarrow> byte option" where
  "find_bluetooth_service vops s =
     map_option fst (find (\<lambda>kv. svc_type vops (snd kv) = TypeBluetoothService) (ss_services s))"

definition on_bluetooth ::
    "'c crypto_ops \<Rightarrow> 'v service_ops \<Rightarrow> ('v \<Rightarrow> 'v prog) \<Rightarrow> ('c, 'v) session \<Rightarrow> ('c, 'v) session" where
  "on_bluetooth ops vops f s =
     (case find_bluetooth_service vops s of None \<Rightarrow> s | Some ch \<Rightarrow> for_services ops vops f [ch] s)"

section \<open>Handshake\<close>

definition start_read :: "('c, 'v) session \<Rightarrow> ('c, 'v) session" where
  "start_read s = (if is_terminal (ss_state s) then s else emit TransportRead s)"

definition start_state_timer :: "nat \<Rightarrow> ('c, 'v) session \<Rightarrow> ('c, 'v) session" where
  "start_state_timer ms s = emit (TimerArm ms) s"

definition on_ssl_complete :: "pb_codec \<Rightarrow> ('c, 'v) session \<Rightarrow> ('c, 'v) session" where
  "on_ssl_complete codec s =
     transition_to Running
       (foldl enqueue_write s
          (send_plaintext_control_message (ctl AuthComplete) (ser codec (PbAuthResponse 0))))"

definition perform_hs_action ::
    "'c crypto_ops \<Rightarrow> 'v service_ops \<Rightarrow> pb_codec \<Rightarrow> ('c, 'v) session \<Rightarrow> hs_action \<Rightarrow> ('c, 'v) session" where
  "perform_hs_action ops vops codec s a =
     (case a of
        HsSend t p \<Rightarrow> send_message ops vops kControlChannelId t p s
      | HsComplete \<Rightarrow> on_ssl_complete codec s
      | HsError ec \<Rightarrow> handle_error vops ec s)"

definition run_coordinator ::
    "'c crypto_ops \<Rightarrow> 'v service_ops \<Rightarrow> pb_codec \<Rightarrow> ('c \<Rightarrow> 'c \<times> hs_action list) \<Rightarrow>
     ('c, 'v) session \<Rightarrow> ('c, 'v) session" where
  "run_coordinator ops vops codec f s =
     (let (c, actions) = f (ss_crypto s)
      in foldl (perform_hs_action ops vops codec) (s\<lparr>ss_crypto := c\<rparr>) actions)"

definition send_version_request ::
    "'c crypto_ops \<Rightarrow> 'v service_ops \<Rightarrow> ('c, 'v) session \<Rightarrow> ('c, 'v) session" where
  "send_version_request ops vops s =
     send_message ops vops kControlChannelId (ctl VersionRequest) [0, 1, 0, 1] s"

definition begin_version_exchange ::
    "'c crypto_ops \<Rightarrow> 'v service_ops \<Rightarrow> ('c, 'v) session \<Rightarrow> ('c, 'v) session" where
  "begin_version_exchange ops vops s =
     send_version_request ops vops
       (start_read
         (start_state_timer (version_exchange_timeout_ms (ss_config s))
           (transition_to VersionExchange s)))"

definition on_version_response ::
    "'c crypto_ops \<Rightarrow> 'v service_ops \<Rightarrow> pb_codec \<Rightarrow> bytes \<Rightarrow> ('c, 'v) session \<Rightarrow> ('c, 'v) session" where
  "on_version_response ops vops codec payload s =
     run_coordinator ops vops codec (coord_on_version_response ops payload)
       (start_state_timer (ssl_handshake_timeout_ms (ss_config s)) (transition_to SslHandshake s))"

definition handle_handshake_message ::
    "'c crypto_ops \<Rightarrow> 'v service_ops \<Rightarrow> pb_codec \<Rightarrow> u16 \<Rightarrow> bytes \<Rightarrow> ('c, 'v) session \<Rightarrow> ('c, 'v) session" where
  "handle_handshake_message ops vops codec message_type payload s =
     (if message_type = ctl VersionResponse then on_version_response ops vops codec payload s
      else if message_type = ctl EncapsulatedSsl
        then run_coordinator ops vops codec (on_ssl_data_received ops payload) s
      else s)"

definition is_handshake_state :: "session_state \<Rightarrow> bool" where
  "is_handshake_state st \<longleftrightarrow> st = VersionExchange \<or> st = SslHandshake"

section \<open>Receiving\<close>

definition dispatch_decrypted ::
    "'c crypto_ops \<Rightarrow> 'v service_ops \<Rightarrow> pb_codec \<Rightarrow> aap_message \<Rightarrow> ('c, 'v) session \<Rightarrow> ('c, 'v) session" where
  "dispatch_decrypted ops vops codec m s =
     (if is_handshake_state (ss_state s)
      then handle_handshake_message ops vops codec (msg_type m) (msg_payload m) s
      else case find_service (msg_channel m) s of
             None \<Rightarrow> s
           | Some v \<Rightarrow> exec_prog ops vops (msg_channel m)
                         (svc_on_message vops (msg_type m) (msg_payload m) v) s)"

definition on_fragment ::
    "'c crypto_ops \<Rightarrow> 'v service_ops \<Rightarrow> pb_codec \<Rightarrow> ('c, 'v) session \<Rightarrow> aap_fragment \<Rightarrow> ('c, 'v) session" where
  "on_fragment ops vops codec s frag =
     (let ((c, bufs), outcome) = assembler_on_fragment ops frag (ss_crypto s, ss_buffers s);
          s1 = s\<lparr>ss_crypto := c, ss_buffers := bufs\<rparr>
      in case outcome of
           NoCallback \<Rightarrow> s1
         | OnError ec \<Rightarrow> handle_error vops ec s1
         | OnMessage m \<Rightarrow> dispatch_decrypted ops vops codec m s1)"

definition session_feed ::
    "'c crypto_ops \<Rightarrow> 'v service_ops \<Rightarrow> pb_codec \<Rightarrow> bytes \<Rightarrow> ('c, 'v) session \<Rightarrow> ('c, 'v) session" where
  "session_feed ops vops codec data s =
     (if data = [] then s
      else let (fr, frags) = framer_feed (ss_framer s) data
           in foldl (on_fragment ops vops codec) (s\<lparr>ss_framer := fr\<rparr>) frags)"

definition on_read_complete ::
    "'c crypto_ops \<Rightarrow> 'v service_ops \<Rightarrow> pb_codec \<Rightarrow> error_code option \<Rightarrow> bytes \<Rightarrow>
     ('c, 'v) session \<Rightarrow> ('c, 'v) session" where
  "on_read_complete ops vops codec ec data s =
     (case ec of
        Some e \<Rightarrow> if e = ErrAborted then s else handle_error vops (ErrAap TransportReadError) s
      | None \<Rightarrow> start_read (session_feed ops vops codec data s))"

definition on_write_complete ::
    "'v service_ops \<Rightarrow> error_code option \<Rightarrow> ('c, 'v) session \<Rightarrow> ('c, 'v) session" where
  "on_write_complete vops ec s =
     (case ec of
        Some e \<Rightarrow> if e = ErrAborted then s else handle_error vops (ErrAap TransportWriteError) s
      | None \<Rightarrow> do_write_next (s\<lparr>ss_write_queue := tl (ss_write_queue s)\<rparr>))"

section \<open>Disconnecting and timeouts\<close>

definition complete_disconnect :: "('c, 'v) session \<Rightarrow> ('c, 'v) session" where
  "complete_disconnect s = emit TransportClose (transition_to Disconnected s)"

definition begin_disconnect ::
    "'c crypto_ops \<Rightarrow> 'v service_ops \<Rightarrow> ('c, 'v) session \<Rightarrow> ('c, 'v) session" where
  "begin_disconnect ops vops s =
     (let s1 = start_state_timer (byebye_timeout_ms (ss_config s)) (transition_to Disconnecting s)
      in case find_service kControlChannelId s1 of
           None \<Rightarrow> complete_disconnect s1
         | Some v \<Rightarrow> broadcast_services ops vops BcSessionStop s1)"

definition do_stop ::
    "'c crypto_ops \<Rightarrow> 'v service_ops \<Rightarrow> ('c, 'v) session \<Rightarrow> ('c, 'v) session" where
  "do_stop ops vops s =
     (if is_terminal (ss_state s) then s
      else if ss_state s = Running then begin_disconnect ops vops s
      else handle_error vops (ErrAap SessionTerminated) s)"

definition on_state_timeout :: "'v service_ops \<Rightarrow> ('c, 'v) session \<Rightarrow> ('c, 'v) session" where
  "on_state_timeout vops s =
     (case ss_state s of
        VersionExchange \<Rightarrow> handle_error vops (ErrAap VersionMismatch) s
      | SslHandshake \<Rightarrow> handle_error vops (ErrAap SslHandshakeFailed) s
      | Disconnecting \<Rightarrow> complete_disconnect s
      | _ \<Rightarrow> s)"

section \<open>Events\<close>

datatype session_event =
    EvStart
  | EvStop
  | EvRead "error_code option" bytes
  | EvWrite "error_code option"
  | EvTimeout
  | EvSend byte u16 bytes
  | EvBroadcast broadcast
  | EvPairing i32 bool
  | EvAuth i32
  | EvHeartbeat byte

definition session_step ::
    "('c, 'v) session_env \<Rightarrow> ('c, 'v) session \<Rightarrow> int \<times> session_event \<Rightarrow> ('c, 'v) session" where
  "session_step env s te =
     (let ops = env_crypto env; vops = env_services env (fst te); codec = env_codec env
      in case snd te of
           EvStart \<Rightarrow> begin_version_exchange ops vops s
         | EvStop \<Rightarrow> do_stop ops vops s
         | EvRead ec data \<Rightarrow> on_read_complete ops vops codec ec data s
         | EvWrite ec \<Rightarrow> on_write_complete vops ec s
         | EvTimeout \<Rightarrow> on_state_timeout vops s
         | EvSend ch t p \<Rightarrow> send_message ops vops ch t p s
         | EvBroadcast b \<Rightarrow> broadcast_services ops vops b s
         | EvPairing status paired \<Rightarrow>
             on_bluetooth ops vops (svc_pairing_response vops status paired) s
         | EvAuth status \<Rightarrow> on_bluetooth ops vops (svc_auth_result vops status) s
         | EvHeartbeat ch \<Rightarrow> for_services ops vops (svc_heartbeat vops) [ch] s)"

end
