(* ===== verification/Session_Invariant.thy ===== *)
theory Session_Invariant
  imports Session
begin

text \<open>
  The invariant of a session, and what every handler of \<open>Session.thy\<close> does to it. A handler
  that runs a service is a sequence of the few effects of the relation \<open>quiet\<close>: changing
  data, logging a call of a service, queueing a frame, reporting an error.
\<close>

section \<open>Reading the log\<close>

primrec arm_timer :: "bool \<Rightarrow> session_call \<Rightarrow> bool" where
  "arm_timer b (ToObserverState st) = b"
| "arm_timer b (ToObserverError ec) = b"
| "arm_timer b TransportRead = b"
| "arm_timer b (TransportWrite w) = b"
| "arm_timer b TransportClose = b"
| "arm_timer b (TimerArm ms) = True"
| "arm_timer b TimerCancel = False"
| "arm_timer b (FromService ch l) = b"

definition timer_armed :: "session_call list \<Rightarrow> bool" where
  "timer_armed log = foldl arm_timer False log"

primrec observe :: "session_state \<Rightarrow> session_call \<Rightarrow> session_state" where
  "observe b (ToObserverState st) = st"
| "observe b (ToObserverError ec) = b"
| "observe b TransportRead = b"
| "observe b (TransportWrite w) = b"
| "observe b TransportClose = b"
| "observe b (TimerArm ms) = b"
| "observe b TimerCancel = b"
| "observe b (FromService ch l) = b"

definition observed_state :: "session_call list \<Rightarrow> session_state" where
  "observed_state log = foldl observe Idle log"

definition counts :: "(session_call \<Rightarrow> bool) \<Rightarrow> session_call list \<Rightarrow> nat" where
  "counts p log = length (filter p log)"

definition error_reports :: "session_call list \<Rightarrow> nat" where
  "error_reports = counts (\<lambda>c. \<exists>ec. c = ToObserverError ec)"

definition transport_closes :: "session_call list \<Rightarrow> nat" where
  "transport_closes = counts (\<lambda>c. c = TransportClose)"

definition entered :: "(session_state \<Rightarrow> bool) \<Rightarrow> session_call list \<Rightarrow> nat" where
  "entered p = counts (\<lambda>c. \<exists>st. c = ToObserverState st \<and> p st)"

definition needs_timer :: "session_state \<Rightarrow> bool" where
  "needs_timer st \<longleftrightarrow> st = VersionExchange \<or> st = SslHandshake \<or> st = Disconnecting"

lemmas log_defs = timer_armed_def observed_state_def error_reports_def transport_closes_def
  entered_def counts_def

lemma log_append [simp]:
  "timer_armed (log @ cs) = foldl arm_timer (timer_armed log) cs"
  "observed_state (log @ cs) = foldl observe (observed_state log) cs"
  "error_reports (xs @ ys) = error_reports xs + error_reports ys"
  "transport_closes (xs @ ys) = transport_closes xs + transport_closes ys"
  "entered p (xs @ ys) = entered p xs + entered p ys"
  by (simp_all add: log_defs)

lemma log_Cons [simp]:
  "error_reports [] = 0" "transport_closes [] = 0" "entered p [] = 0"
  "error_reports (c # cs) = (if \<exists>ec. c = ToObserverError ec then 1 else 0) + error_reports cs"
  "transport_closes (c # cs) = (if c = TransportClose then 1 else 0) + transport_closes cs"
  "entered p (c # cs) = (if \<exists>st. c = ToObserverState st \<and> p st then 1 else 0) + entered p cs"
  by (simp_all add: log_defs)

definition service_call :: "session_call \<Rightarrow> bool" where
  "service_call c \<longleftrightarrow> (\<exists>ch l. c = FromService ch l)"

lemma log_services:
  assumes "\<forall>c\<in>set cs. service_call c"
  shows "foldl arm_timer b cs = b" "foldl observe st cs = st" "error_reports cs = 0"
    "transport_closes cs = 0" "entered p cs = 0"
  using assms by (induction cs) (auto simp: service_call_def)

lemma close_each_calls:
  "\<forall>c\<in>set (snd (close_each vops kvs)). service_call c"
  "map fst (fst (close_each vops kvs)) = map fst kvs"
  by (induction kvs) (auto simp: split_beta Let_def service_call_def)

section \<open>The invariant\<close>

definition session_ok :: "('c, 'v) session \<Rightarrow> bool" where
  "session_ok s \<longleftrightarrow>
     length (ss_write_queue s) \<le> kMaxWriteQueueSize
     \<and> (ss_write_in_progress s \<longleftrightarrow> ss_write_queue s \<noteq> [])
     \<and> (timer_armed (ss_log s) \<longleftrightarrow> needs_timer (ss_state s))
     \<and> observed_state (ss_log s) = ss_state s
     \<and> error_reports (ss_log s) = entered (\<lambda>st. st = SessionError) (ss_log s)
     \<and> transport_closes (ss_log s) = entered is_terminal (ss_log s)"

lemma emit_simps [simp]:
  "ss_config (emit c s) = ss_config s" "ss_state (emit c s) = ss_state s"
  "ss_crypto (emit c s) = ss_crypto s" "ss_framer (emit c s) = ss_framer s"
  "ss_buffers (emit c s) = ss_buffers s" "ss_write_queue (emit c s) = ss_write_queue s"
  "ss_write_in_progress (emit c s) = ss_write_in_progress s"
  "ss_services (emit c s) = ss_services s" "ss_log (emit c s) = ss_log s @ [c]"
  by (simp_all add: emit_def)

lemma new_session_ok: "session_ok (new_session cfg c)"
  by (simp add: session_ok_def new_session_def kMaxWriteQueueSize_def needs_timer_def log_defs)

lemma do_write_next_ok:
  assumes "session_ok (s\<lparr>ss_write_in_progress := ss_write_queue s \<noteq> []\<rparr>)"
  shows "session_ok (do_write_next s)"
  using assms by (auto simp: session_ok_def do_write_next_def split: list.split)

lemma enqueue_write_ok: "session_ok s \<Longrightarrow> session_ok (enqueue_write s w)"
  by (auto simp: enqueue_write_def session_ok_def do_write_next_def Let_def split: list.split)

lemma enqueue_all_ok: "session_ok s \<Longrightarrow> session_ok (foldl enqueue_write s ws)"
  by (induction ws arbitrary: s) (simp_all add: enqueue_write_ok)

lemma enqueue_data [simp]:
  "ss_config (enqueue_write s w) = ss_config s" "ss_state (enqueue_write s w) = ss_state s"
  "ss_crypto (enqueue_write s w) = ss_crypto s" "ss_framer (enqueue_write s w) = ss_framer s"
  "ss_buffers (enqueue_write s w) = ss_buffers s" "ss_services (enqueue_write s w) = ss_services s"
  by (simp_all add: enqueue_write_def do_write_next_def Let_def split: list.split)

lemma enqueue_all_data [simp]:
  "ss_config (foldl enqueue_write s ws) = ss_config s" "ss_state (foldl enqueue_write s ws) = ss_state s"
  "ss_crypto (foldl enqueue_write s ws) = ss_crypto s" "ss_framer (foldl enqueue_write s ws) = ss_framer s"
  "ss_buffers (foldl enqueue_write s ws) = ss_buffers s" "ss_services (foldl enqueue_write s ws) = ss_services s"
  by (induction ws arbitrary: s) simp_all

lemma enqueue_log: "\<exists>ds. ss_log (enqueue_write s w) = ss_log s @ ds"
  by (auto simp: enqueue_write_def do_write_next_def Let_def split: list.split)

lemma enqueue_all_log: "\<exists>ds. ss_log (foldl enqueue_write s ws) = ss_log s @ ds"
proof (induction ws arbitrary: s)
  case (Cons w ws)
  obtain d where d: "ss_log (enqueue_write s w) = ss_log s @ d" using enqueue_log by blast
  then show ?case using Cons [of "enqueue_write s w"] by auto
qed simp

text \<open>An error from a state that is not terminal: the session enters \<open>SessionError\<close>, closes and reports.\<close>

lemma handle_error_terminal [simp]: "is_terminal (ss_state s) \<Longrightarrow> handle_error vops ec s = s"
  by (simp add: handle_error_def)

lemma handle_error_live:
  assumes "\<not> is_terminal (ss_state s)"
  shows "handle_error vops ec s =
    s\<lparr>ss_state := SessionError, ss_services := fst (close_each vops (ss_services s)),
      ss_log := ss_log s @ [TimerCancel, ToObserverState SessionError, TimerCancel, TransportClose]
        @ snd (close_each vops (ss_services s)) @ [ToObserverError ec]\<rparr>"
  using assms
  by (simp add: handle_error_def transition_to_def close_transport_and_services_def emit_def
      Let_def split_beta)

lemma handle_error_ok: "session_ok s \<Longrightarrow> session_ok (handle_error vops ec s)"
  using log_services [OF close_each_calls(1) [of vops "ss_services s"]]
  by (cases "is_terminal (ss_state s)")
     (simp_all add: handle_error_live session_ok_def needs_timer_def is_terminal_def)

section \<open>What running a service can do\<close>

text \<open>
  Frames reach the write queue as all the wire frames of one outbound frame; the queue takes them
  one by one.
\<close>

inductive quiet :: "'v service_ops \<Rightarrow> ('c, 'v) session \<Rightarrow> ('c, 'v) session \<Rightarrow> bool"
  for vops :: "'v service_ops" where
  quiet_crypto: "quiet vops s (s\<lparr>ss_crypto := c\<rparr>)"
| quiet_update: "quiet vops s (update_service ch v s)"
| quiet_call: "quiet vops s (emit (FromService ch l) s)"
| quiet_enqueue: "out_flags frame AND 3 = 3 \<Longrightarrow> quiet vops s (foldl enqueue_write s (framer_encode frame))"
| quiet_error: "quiet vops s (handle_error vops ec s)"

lemmas quiet_steps = quiet.intros [THEN r_into_rtranclp [where r = "quiet vops" for vops]]

lemma quiet_star_step: "quiet vops s s1 \<Longrightarrow> (quiet vops)\<^sup>*\<^sup>* s1 s2 \<Longrightarrow> (quiet vops)\<^sup>*\<^sup>* s s2"
  by (rule converse_rtranclp_into_rtranclp)

lemma quiet_plaintext: "(quiet vops)\<^sup>*\<^sup>* s (foldl enqueue_write s (send_plaintext_control_message t p))"
  by (simp add: send_plaintext_control_message_def queue_encoded_frame_def quiet_steps)

lemma encoder_frames:
  assumes "encoder_send_message ops ch t p c = (c', Inr ws)"
  obtains frame where "out_flags frame AND 3 = 3" and "ws = framer_encode frame"
proof -
  have "\<exists>frame. out_flags frame AND 3 = 3 \<and> ws = framer_encode frame"
    using assms
    by (auto simp: encoder_send_message_def encrypt_and_queue_frame_def queue_encoded_frame_def Let_def
        split: if_splits prod.splits sum.splits intro!: exI [where x = "\<lparr>out_channel = a, out_flags = b, out_payload = d\<rparr>" for a b d])
  then show ?thesis using that by blast
qed

lemma quiet_send_message: "(quiet vops)\<^sup>*\<^sup>* s (send_message ops vops ch t p s)"
  unfolding send_message_def
  by (auto split: prod.split sum.split elim!: encoder_frames
      intro: quiet_star_step [OF quiet_crypto] quiet_steps)

lemma quiet_perform_call: "(quiet vops)\<^sup>*\<^sup>* s (perform_call ops vops ch c s)"
  by (cases c) (simp_all add: perform_call_def quiet_send_message quiet_steps)

lemma quiet_exec: "(quiet vops)\<^sup>*\<^sup>* s (exec_prog ops vops ch p s)"
proof (induction p arbitrary: s)
  case (Ret v)
  then show ?case by (simp add: quiet_steps)
next
  case (Call c v r)
  let ?s1 = "perform_call ops vops ch c (update_service ch v s)"
  have "(quiet vops)\<^sup>*\<^sup>* s ?s1"
    by (rule quiet_star_step [OF quiet_update quiet_perform_call])
  then show ?case
    using Call.IH rtranclp_trans [of "quiet vops" s ?s1] by (simp add: Let_def split: option.split)
qed

lemma quiet_for_services: "(quiet vops)\<^sup>*\<^sup>* s (for_services ops vops f chs s)"
proof (induction chs arbitrary: s)
  case (Cons ch chs)
  then show ?case
    using rtranclp_trans [OF quiet_exec Cons.IH] by (simp split: option.split)
qed simp

lemma quiet_broadcast: "(quiet vops)\<^sup>*\<^sup>* s (broadcast_services ops vops b s)"
  by (simp add: broadcast_services_def quiet_for_services)

lemma quiet_on_bluetooth: "(quiet vops)\<^sup>*\<^sup>* s (on_bluetooth ops vops f s)"
  by (simp add: on_bluetooth_def quiet_for_services del: for_services.simps split: option.split)

text \<open>To show that services preserve something, it is enough to look at the five effects.\<close>

lemma quiet_preserves:
  assumes "(quiet vops)\<^sup>*\<^sup>* s s'" and "P s" and "\<And>s s'. quiet vops s s' \<Longrightarrow> P s \<Longrightarrow> P s'"
  shows "P s'"
  using assms(1,2) by (induction rule: rtranclp_induct) (auto intro: assms(3))

lemma update_service_ok [simp]: "session_ok (update_service ch v s) = session_ok s"
  by (simp add: session_ok_def update_service_def)

lemma quiet_step_ok: "quiet vops s s' \<Longrightarrow> session_ok s \<Longrightarrow> session_ok s'"
proof (induction rule: quiet.induct)
  case (quiet_crypto s c)
  then show ?case by (simp add: session_ok_def)
next
  case (quiet_call s ch l)
  then show ?case by (simp add: session_ok_def)
qed (simp_all add: enqueue_all_ok handle_error_ok)

lemmas quiet_runs = quiet_send_message quiet_exec quiet_for_services quiet_broadcast quiet_on_bluetooth

section \<open>Events as sequences of effects\<close>

text \<open>
  The effects of everything but the read loop and the completion of a write: those of
  \<open>quiet\<close>, changes of the reassembly data, and the kinds of state change.
\<close>

inductive micro :: "'v service_ops \<Rightarrow> ('c, 'v) session \<Rightarrow> ('c, 'v) session \<Rightarrow> bool"
  for vops :: "'v service_ops" where
  micro_quiet: "quiet vops s s' \<Longrightarrow> micro vops s s'"
| micro_data: "micro vops s (s\<lparr>ss_framer := fr, ss_crypto := c, ss_buffers := b\<rparr>)"
| micro_timed: "needs_timer st \<Longrightarrow> micro vops s (start_state_timer ms (transition_to st s))"
| micro_running: "micro vops s (transition_to Running s)"
| micro_disconnected: "micro vops s (complete_disconnect s)"

lemma micro_star_step: "micro vops s s1 \<Longrightarrow> (micro vops)\<^sup>*\<^sup>* s1 s2 \<Longrightarrow> (micro vops)\<^sup>*\<^sup>* s s2"
  by (rule converse_rtranclp_into_rtranclp)

lemma micro_star_trans: "(micro vops)\<^sup>*\<^sup>* s s1 \<Longrightarrow> (micro vops)\<^sup>*\<^sup>* s1 s2 \<Longrightarrow> (micro vops)\<^sup>*\<^sup>* s s2"
  by (rule rtranclp_trans)

lemmas micro_steps = micro.intros [THEN r_into_rtranclp [where r = "micro vops" for vops]]

lemma quiet_micro: "(quiet vops)\<^sup>*\<^sup>* s s' \<Longrightarrow> (micro vops)\<^sup>*\<^sup>* s s'"
  by (induction rule: rtranclp_induct) (auto intro: micro_quiet rtranclp.rtrancl_into_rtrancl)

lemmas micro_runs = quiet_runs [THEN quiet_micro] quiet_plaintext [THEN quiet_micro]

lemma micro_error: "(micro vops)\<^sup>*\<^sup>* s (handle_error vops ec s)"
  by (rule quiet_micro [OF quiet_steps(5)])

lemma micro_preserves:
  assumes "(micro vops)\<^sup>*\<^sup>* s s'" and "P s" and "\<And>s s'. micro vops s s' \<Longrightarrow> P s \<Longrightarrow> P s'"
  shows "P s'"
  using assms(1,2) by (induction rule: rtranclp_induct) (auto intro: assms(3))

lemma micro_hs_action: "(micro vops)\<^sup>*\<^sup>* s (perform_hs_action ops vops codec s a)"
proof (cases a)
  case HsComplete
  then show ?thesis
    using micro_star_trans [OF micro_runs(6) micro_steps(4)]
    by (simp add: perform_hs_action_def on_ssl_complete_def)
qed (simp_all add: perform_hs_action_def micro_runs micro_error)

lemma micro_hs_actions: "(micro vops)\<^sup>*\<^sup>* s (foldl (perform_hs_action ops vops codec) s as)"
proof (induction as arbitrary: s)
  case (Cons a as)
  show ?case using micro_star_trans [OF micro_hs_action Cons.IH] by simp
qed simp

lemma micro_coordinator: "(micro vops)\<^sup>*\<^sup>* s (run_coordinator ops vops codec f s)"
  unfolding run_coordinator_def
  by (auto simp: split_beta Let_def intro: micro_star_step [OF micro_quiet [OF quiet_crypto]] micro_hs_actions)

lemma micro_handshake_message:
  "(micro vops)\<^sup>*\<^sup>* s (handle_handshake_message ops vops codec t p s)"
  by (auto simp: handle_handshake_message_def on_version_response_def micro_coordinator needs_timer_def
      intro: micro_star_step [OF micro_timed micro_coordinator])

lemma micro_dispatch: "(micro vops)\<^sup>*\<^sup>* s (dispatch_decrypted ops vops codec m s)"
  by (simp add: dispatch_decrypted_def micro_handshake_message micro_runs split: option.split)

lemma micro_set_data: "(micro vops)\<^sup>*\<^sup>* s (s\<lparr>ss_crypto := c, ss_buffers := b\<rparr>)"
proof -
  have "micro vops s (s\<lparr>ss_framer := ss_framer s, ss_crypto := c, ss_buffers := b\<rparr>)"
    by (rule micro_data)
  then show ?thesis by (simp add: r_into_rtranclp)
qed

lemma micro_fragment: "(micro vops)\<^sup>*\<^sup>* s (on_fragment ops vops codec s f)"
  unfolding on_fragment_def
  by (auto simp: split_beta Let_def micro_set_data split: asm_outcome.split
      intro: micro_star_trans [OF micro_set_data micro_error] micro_star_trans [OF micro_set_data micro_dispatch])

lemma micro_fragments: "(micro vops)\<^sup>*\<^sup>* s (foldl (on_fragment ops vops codec) s fs)"
proof (induction fs arbitrary: s)
  case (Cons f fs)
  show ?case using micro_star_trans [OF micro_fragment Cons.IH] by simp
qed simp

lemma micro_feed: "(micro vops)\<^sup>*\<^sup>* s (session_feed ops vops codec data s)"
proof -
  have "micro vops s (s\<lparr>ss_framer := fr, ss_crypto := ss_crypto s, ss_buffers := ss_buffers s\<rparr>)" for fr
    by (rule micro_data)
  then have "(micro vops)\<^sup>*\<^sup>* s (foldl (on_fragment ops vops codec) (s\<lparr>ss_framer := fr\<rparr>) fs)" for fr fs
    using micro_star_step [OF _ micro_fragments] by fastforce
  then show ?thesis by (simp add: session_feed_def split_beta Let_def)
qed

lemma micro_stop: "(micro vops)\<^sup>*\<^sup>* s (do_stop ops vops s)"
proof -
  have "(micro vops)\<^sup>*\<^sup>* s (start_state_timer ms (transition_to Disconnecting s))" for ms
    by (rule micro_steps(3)) (simp add: needs_timer_def)
  then show ?thesis
    by (auto simp: do_stop_def begin_disconnect_def Let_def micro_error split: option.split
        intro: micro_star_trans [OF _ micro_steps(5)] micro_star_trans [OF _ micro_runs(4)])
qed

text \<open>A write completes only if one is outstanding.\<close>

definition session_enabled :: "('c, 'v) session \<Rightarrow> int \<times> session_event \<Rightarrow> bool" where
  "session_enabled s te \<longleftrightarrow> (snd te = EvWrite None \<longrightarrow> ss_write_in_progress s)"

definition reads_on :: "session_event \<Rightarrow> bool" where
  "reads_on e \<longleftrightarrow> e = EvStart \<or> (\<exists>data. e = EvRead None data)"

lemma session_step_shape:
  assumes "e \<noteq> EvWrite None"
  obtains s1 where "(micro (env_services env now))\<^sup>*\<^sup>* s s1"
    and "(micro (env_services env now))\<^sup>*\<^sup>* (if reads_on e then start_read s1 else s1)
           (session_step env s (now, e))"
    and "e = EvStart \<longrightarrow> ss_state s1 = VersionExchange"
    and "e \<noteq> EvStart \<longrightarrow> session_step env s (now, e) = (if reads_on e then start_read s1 else s1)"
proof (cases "e = EvStart")
  case True
  let ?ms = "version_exchange_timeout_ms (ss_config s)"
  let ?s1 = "start_state_timer ?ms (transition_to VersionExchange s)"
  show ?thesis
  proof (rule that [of ?s1])
    show "(micro (env_services env now))\<^sup>*\<^sup>* s ?s1"
      by (rule micro_steps(3)) (simp add: needs_timer_def)
    show "(micro (env_services env now))\<^sup>*\<^sup>* (if reads_on e then start_read ?s1 else ?s1)
        (session_step env s (now, e))"
      using True by (simp add: session_step_def begin_version_exchange_def send_version_request_def
          reads_on_def micro_runs Let_def)
  qed (use True in \<open>simp_all add: start_state_timer_def transition_to_def\<close>)
next
  case False
  let ?vops = "env_services env now" and ?ops = "env_crypto env"
  let ?s1 = "case e of EvRead None data \<Rightarrow> session_feed ?ops ?vops (env_codec env) data s
    | _ \<Rightarrow> session_step env s (now, e)"
  have step: "session_step env s (now, e) = (if reads_on e then start_read ?s1 else ?s1)"
    using False by (auto simp: session_step_def reads_on_def on_read_complete_def
        split: session_event.split option.split)
  have "(micro ?vops)\<^sup>*\<^sup>* s ?s1"
    using assms False
    by (auto simp: session_step_def Let_def micro_runs micro_feed micro_stop
        micro_error on_read_complete_def on_write_complete_def on_state_timeout_def
        split: session_event.split option.split session_state.split intro: micro_steps)
  then show ?thesis using step False by (intro that) auto
qed

lemma session_step_preserves:
  assumes "session_enabled s te" and "P s"
    and micro: "\<And>vops s s'. micro vops s s' \<Longrightarrow> P s \<Longrightarrow> P s'"
    and read: "\<And>s. P s \<Longrightarrow> P (emit TransportRead s)"
    and written: "\<And>s. P s \<Longrightarrow> ss_write_in_progress s \<Longrightarrow>
      P (do_write_next (s\<lparr>ss_write_queue := tl (ss_write_queue s)\<rparr>))"
  shows "P (session_step env s te)"
proof (cases "snd te = EvWrite None")
  case True
  then show ?thesis
    using assms(1,2) written
    by (simp add: session_step_def session_enabled_def on_write_complete_def Let_def)
next
  case False
  obtain now e where te: "te = (now, e)" by (cases te)
  from False have en: "e \<noteq> EvWrite None" by (simp add: te)
  obtain s1 where s1: "(micro (env_services env now))\<^sup>*\<^sup>* s s1"
    "(micro (env_services env now))\<^sup>*\<^sup>* (if reads_on e then start_read s1 else s1)
       (session_step env s (now, e))"
    by (rule session_step_shape [OF en])
  have "P s1" using s1(1) assms(2) by (rule micro_preserves [where P = P]) (rule micro)
  then have "P (if reads_on e then start_read s1 else s1)" by (simp add: start_read_def read)
  with s1(2) show ?thesis unfolding te by (rule micro_preserves [where P = P]) (rule micro)
qed

section \<open>Every event keeps the invariant\<close>

lemma micro_step_ok: "micro vops s s' \<Longrightarrow> session_ok s \<Longrightarrow> session_ok s'"
proof (induction rule: micro.induct)
  case (micro_quiet s s')
  then show ?case by (rule quiet_step_ok)
next
  case (micro_timed st s ms)
  then show ?case
    by (auto simp: session_ok_def transition_to_def start_state_timer_def is_terminal_def needs_timer_def)
qed (auto simp: session_ok_def complete_disconnect_def transition_to_def needs_timer_def is_terminal_def)

lemma session_step_ok:
  assumes "session_ok s" and "session_enabled s te"
  shows "session_ok (session_step env s te)"
  using assms(2,1)
proof (rule session_step_preserves [where P = session_ok])
  show "session_ok s'" if "micro vops s s'" and "session_ok s" for vops and s s' :: "('a, 'b) session"
    using that by (rule micro_step_ok)
  show "session_ok (do_write_next (s\<lparr>ss_write_queue := tl (ss_write_queue s)\<rparr>))"
    if "session_ok s" and "ss_write_in_progress s" for s :: "('a, 'b) session"
    using that by (cases "ss_write_queue s"; cases "tl (ss_write_queue s)")
       (auto simp: session_ok_def do_write_next_def)
qed (simp add: session_ok_def)

interpretation session_machine: invariant_machine "session_step env" session_enabled session_ok for env
  by unfold_locales (rule session_step_ok)

interpretation write_queue: drop_newest_fifo enqueue_write ss_write_queue kMaxWriteQueueSize
proof
  fix s :: "('c, 'v) session" and w
  show "ss_write_queue (enqueue_write s w) = ss_write_queue s @ [w]"
    if "length (ss_write_queue s) < kMaxWriteQueueSize"
    using that by (simp add: enqueue_write_def do_write_next_def Let_def split: list.split)
  then show "length (ss_write_queue (enqueue_write s w)) \<le> kMaxWriteQueueSize"
    if "length (ss_write_queue s) \<le> kMaxWriteQueueSize"
    using that by (cases "length (ss_write_queue s) < kMaxWriteQueueSize") (auto simp: enqueue_write_def)
  show "ss_write_queue (enqueue_write s w) = ss_write_queue s"
    if "kMaxWriteQueueSize \<le> length (ss_write_queue s)"
    using that by (simp add: enqueue_write_def)
qed

section \<open>The log only grows\<close>

lemma quiet_log: "quiet vops s s' \<Longrightarrow> \<exists>calls. ss_log s' = ss_log s @ calls"
proof (induction rule: quiet.induct)
  case (quiet_error s ec)
  then show ?case by (cases "is_terminal (ss_state s)") (simp_all add: handle_error_live)
qed (auto simp: update_service_def enqueue_all_log emit_def)

lemma micro_log: "micro vops s s' \<Longrightarrow> \<exists>calls. ss_log s' = ss_log s @ calls"
  by (induction rule: micro.induct)
     (auto simp: quiet_log start_state_timer_def transition_to_def complete_disconnect_def emit_def)

lemma session_step_log: "\<exists>calls. ss_log (session_step env s te) = ss_log s @ calls"
proof -
  obtain now e where te: "te = (now, e)" by (cases te)
  have star: "\<exists>calls. ss_log s' = ss_log s @ calls" if "(micro vops)\<^sup>*\<^sup>* s s'"
    for vops and s s' :: "('a, 'b) session"
    using that by (induction rule: rtranclp_induct) (use micro_log in fastforce)+
  show ?thesis
  proof (cases "e = EvWrite None")
    case True
    then show ?thesis
      by (simp add: te session_step_def on_write_complete_def do_write_next_def emit_def Let_def
          split: list.split)
  next
    case False
    obtain s1 where s1: "(micro (env_services env now))\<^sup>*\<^sup>* s s1"
      "(micro (env_services env now))\<^sup>*\<^sup>* (if reads_on e then start_read s1 else s1)
         (session_step env s (now, e))"
      by (rule session_step_shape [OF False, where env = env and s = s and now = now])
    have "\<exists>calls. ss_log (if reads_on e then start_read s1 else s1) = ss_log s1 @ calls"
      by (simp add: start_read_def emit_def)
    with star [OF s1(1)] star [OF s1(2)] show ?thesis by (auto simp: te)
  qed
qed

end
