(* ===== verification/Session_Properties.thy ===== *)
theory Session_Properties
  imports Session_Invariant
begin

text \<open>
  Properties of a session: the write queue, the read loop, the reports to the observer, the
  timers, the order of the handshake, and the two ways of ending. Each is stated of
  \<open>session_step\<close> or of runs of it from a session with any services.
\<close>

section \<open>Runs\<close>

definition session_with :: "session_config \<Rightarrow> 'c \<Rightarrow> (byte \<times> 'v) list \<Rightarrow> ('c, 'v) session" where
  "session_with cfg c svcs =
     foldl (\<lambda>s kv. register_service (fst kv) (snd kv) s) (new_session cfg c) svcs"

lemma session_with_ok: "session_ok (session_with cfg c svcs)"
proof -
  have "session_ok s \<Longrightarrow> session_ok (foldl (\<lambda>s kv. register_service (fst kv) (snd kv) s) s svcs)"
    for s :: "('a, 'b) session"
    by (induction svcs arbitrary: s) (simp_all add: register_service_def session_ok_def)
  then show ?thesis by (simp add: session_with_def new_session_ok)
qed

lemma session_run_ok:
  "run_enabled session_enabled (session_step env) (session_with cfg c svcs) es \<Longrightarrow>
   session_ok (run_events (session_step env) (session_with cfg c svcs) es)"
  by (rule session_machine.run_inv [OF session_with_ok])

text \<open>A concrete environment for the witnesses: the pass-through crypto and the real services.\<close>

definition demo_env :: "(mock_crypto, service) session_env" where
  "demo_env =
     \<lparr>env_crypto = mock_ops, env_services = aap_services sample_codec, env_codec = sample_codec\<rparr>"

definition demo_config :: session_config where
  "demo_config = default_session_config 1"

definition demo_session :: "(mock_crypto, service) session" where
  "demo_session = session_with demo_config \<lparr>mock_established = False\<rparr> [(0, Svc_Control sample_control)]"

definition demo_run :: "(int \<times> session_event) list" where
  "demo_run =
     [(0, EvStart), (1, EvSend 3 32772 [8, 0]), (2, EvWrite None), (3, EvBroadcast BcGainAudioFocus),
      (4, EvWrite None), (5000, EvTimeout)]"

lemmas session_eval = session_step_def Let_def begin_version_exchange_def send_version_request_def
  start_read_def start_state_timer_def transition_to_def send_message_def emit_def is_terminal_def
  encoder_send_message_def queue_encoded_frame_def encrypt_and_queue_frame_def
  build_message_payload_def u16_bytes_def compute_frame_flags_def kControlChannelId_def
  kFlagControlOnMedia_def kFlagEncrypted_def framer_encode_def kMaxFramePayloadSize_def
  encode_single_def byte_at_def enqueue_write_def do_write_next_def kMaxWriteQueueSize_def
  on_write_complete_def handle_error_def close_transport_and_services_def on_state_timeout_def
  broadcast_services_def find_service_def update_service_def perform_call_def session_enabled_def
  do_stop_def begin_disconnect_def

lemmas demo_eval = demo_env_def demo_session_def demo_config_def demo_run_def
  default_session_config_def session_with_def new_session_def register_service_def mock_ops_def
  mock_encrypt_def aap_services_def service_broadcast_def control_gain_audio_focus_def
  Service_Base.send_def sample_codec_def sample_control_def new_control_service_def
  control_on_channel_close_def base_on_channel_close_def

lemma demo_enabled: "run_enabled session_enabled (session_step demo_env) demo_session demo_run"
  by (simp add: session_eval demo_eval)

section \<open>The write queue\<close>

text \<open>
  C15. The write queue stays within its bound and never stalls. In every run of a session,
  at most 256 frames wait, and a write is in progress exactly when some frame is waiting:
  a queued frame is never forgotten, and no write is started for nothing.
\<close>

theorem write_queue_bounded_and_live:
  assumes "run_enabled session_enabled (session_step env) (session_with cfg c svcs) es"
  shows "length (ss_write_queue (run_events (session_step env) (session_with cfg c svcs) es)) \<le> 256
    \<and> (ss_write_in_progress (run_events (session_step env) (session_with cfg c svcs) es) \<longleftrightarrow>
       ss_write_queue (run_events (session_step env) (session_with cfg c svcs) es) \<noteq> [])"
  using session_run_ok [OF assms] by (simp add: session_ok_def kMaxWriteQueueSize_def)

theorem write_queue_bounded_and_live_witness:
  "length (ss_write_queue (run_events (session_step demo_env) demo_session demo_run)) \<le> 256
   \<and> (ss_write_in_progress (run_events (session_step demo_env) demo_session demo_run) \<longleftrightarrow>
      ss_write_queue (run_events (session_step demo_env) demo_session demo_run) \<noteq> [])"
  unfolding demo_session_def
  by (rule write_queue_bounded_and_live) (rule demo_enabled [unfolded demo_session_def])

text \<open>
  What the session has handed to the transport, and after it what is still waiting: the
  frames it has accepted, in order.
\<close>

primrec written :: "session_call list \<Rightarrow> bytes list" where
  "written [] = []"
| "written (c # cs) = (case c of TransportWrite w \<Rightarrow> w # written cs | _ \<Rightarrow> written cs)"

definition waiting :: "('c, 'v) session \<Rightarrow> bytes list" where
  "waiting s = (if ss_write_in_progress s then tl (ss_write_queue s) else ss_write_queue s)"

definition accepted :: "('c, 'v) session \<Rightarrow> bytes list" where
  "accepted s = written (ss_log s) @ waiting s"

lemma written_append [simp]: "written (xs @ ys) = written xs @ written ys"
  by (induction xs) (simp_all split: session_call.split)

lemma written_services [simp]: "\<forall>c\<in>set cs. service_call c \<Longrightarrow> written cs = []"
  by (induction cs) (auto simp: service_call_def)

lemma accepted_emit [simp]: "(\<forall>w. c \<noteq> TransportWrite w) \<Longrightarrow> accepted (emit c s) = accepted s"
  by (cases c) (simp_all add: accepted_def waiting_def)

lemma accepted_update [simp]:
  "accepted (s\<lparr>ss_state := st\<rparr>) = accepted s"
  "accepted (s\<lparr>ss_crypto := c\<rparr>) = accepted s"
  "accepted (s\<lparr>ss_framer := fr, ss_crypto := c, ss_buffers := b\<rparr>) = accepted s"
  "accepted (update_service ch v s) = accepted s"
  by (simp_all add: accepted_def waiting_def update_service_def)

lemma accepted_handle_error [simp]: "accepted (handle_error vops ec s) = accepted s"
  using close_each_calls(1) [of vops "ss_services s"]
  by (cases "is_terminal (ss_state s)") (simp_all add: handle_error_live accepted_def waiting_def)

lemma accepted_enqueue:
  assumes "session_ok s"
  shows "accepted (enqueue_write s w) =
    accepted s @ (if length (ss_write_queue s) < kMaxWriteQueueSize then [w] else [])"
  using assms
  by (auto simp: accepted_def waiting_def enqueue_write_def do_write_next_def session_ok_def Let_def
      split: list.split)

text \<open>The queue takes wire frames up to its bound and drops the rest without a word.\<close>

lemma accepted_enqueue_all:
  assumes "session_ok s"
  shows "accepted (foldl enqueue_write s ws) =
    accepted s @ take (kMaxWriteQueueSize - length (ss_write_queue s)) ws"
  using assms
proof (induction ws arbitrary: s)
  case (Cons w ws)
  have ok: "session_ok (enqueue_write s w)" by (rule enqueue_write_ok [OF Cons.prems])
  show ?case
  proof (cases "length (ss_write_queue s) < kMaxWriteQueueSize")
    case True
    then have "kMaxWriteQueueSize - length (ss_write_queue s) =
        Suc (kMaxWriteQueueSize - length (ss_write_queue (enqueue_write s w)))"
      by (simp add: write_queue.enq_room Suc_diff_Suc)
    with True Cons.IH [OF ok] Cons.prems show ?thesis by (simp add: accepted_enqueue)
  next
    case False
    then have "enqueue_write s w = s" by (simp add: enqueue_write_def)
    with False Cons.IH [OF Cons.prems] show ?thesis by simp
  qed
qed simp

lemma accepted_written:
  assumes "session_ok s" and "ss_write_in_progress s"
  shows "accepted (do_write_next (s\<lparr>ss_write_queue := tl (ss_write_queue s)\<rparr>)) = accepted s"
  using assms
  by (auto simp: accepted_def waiting_def do_write_next_def session_ok_def split: list.split)

definition extends :: "bytes list \<Rightarrow> ('c, 'v) session \<Rightarrow> bool" where
  "extends fs s \<longleftrightarrow> session_ok s \<and> (\<exists>gs. accepted s = fs @ gs)"

lemma quiet_extends: "quiet vops s s' \<Longrightarrow> extends fs s \<Longrightarrow> extends fs s'"
proof (induction rule: quiet.induct)
  case (quiet_enqueue frame s)
  then show ?case by (auto simp: extends_def accepted_enqueue_all enqueue_all_ok)
next
  case (quiet_crypto s c)
  then show ?case by (simp add: extends_def session_ok_def)
next
  case (quiet_call s ch l)
  then show ?case by (simp add: extends_def session_ok_def)
qed (simp_all add: extends_def handle_error_ok)

lemma micro_extends: "micro vops s s' \<Longrightarrow> extends fs s \<Longrightarrow> extends fs s'"
proof (induction rule: micro.induct)
  case (micro_quiet s s')
  then show ?case by (rule quiet_extends)
next
  case (micro_data s fr c b)
  then show ?case by (simp add: extends_def session_ok_def)
next
  case (micro_timed st s ms)
  with micro_step_ok [OF micro.micro_timed [of st vops s ms]] show ?case
    by (simp add: extends_def start_state_timer_def transition_to_def)
next
  case (micro_running s)
  with micro_step_ok [OF micro.micro_running [of vops s]] show ?case
    by (simp add: extends_def transition_to_def)
next
  case (micro_disconnected s)
  with micro_step_ok [OF micro.micro_disconnected [of vops s]] show ?case
    by (simp add: extends_def complete_disconnect_def transition_to_def)
qed

lemma step_extends:
  assumes "extends fs s" and "session_enabled s te"
  shows "extends fs (session_step env s te)"
  using assms(2,1)
proof (rule session_step_preserves [where P = "extends fs"])
  show "extends fs s'" if "micro vops s s'" and "extends fs s" for vops and s s' :: "('a, 'b) session"
    using that by (rule micro_extends)
  show "extends fs (emit TransportRead s)" if "extends fs s" for s :: "('a, 'b) session"
    using that by (simp add: extends_def) (simp add: session_ok_def)
  show "extends fs (do_write_next (s\<lparr>ss_write_queue := tl (ss_write_queue s)\<rparr>))"
    if "extends fs s" "ss_write_in_progress s" for s :: "('a, 'b) session"
    using that session_step_ok [of s "(0, EvWrite None)" "undefined"]
    by (simp add: extends_def accepted_written)
       (simp add: session_step_def session_enabled_def on_write_complete_def Let_def)
qed

interpretation write_order: invariant_machine "session_step env" session_enabled "extends fs" for env fs
  by unfold_locales (rule step_extends)

lemma run_enabled_append [simp]:
  "run_enabled en step s (es @ fs) \<longleftrightarrow> run_enabled en step s es \<and> run_enabled en step (run_events step s es) fs"
  by (induction es arbitrary: s) simp_all

text \<open>
  Accepted frames leave in order, once each. Whatever happens after some events of a
  run, the frames accepted up to then, those written already followed by those waiting,
  remain in front, in the same order: nothing accepted is dropped, repeated or overtaken.
\<close>

theorem accepted_frames_stay_in_order:
  assumes "run_enabled session_enabled (session_step env) (session_with cfg c svcs) (es @ fs)"
  shows "\<exists>gs. accepted (run_events (session_step env) (session_with cfg c svcs) (es @ fs)) =
    accepted (run_events (session_step env) (session_with cfg c svcs) es) @ gs"
proof -
  let ?s = "run_events (session_step env) (session_with cfg c svcs) es"
  have "extends (accepted ?s) ?s"
    using session_run_ok [of env cfg c svcs es] assms by (simp add: extends_def)
  from write_order.run_inv [OF this] assms show ?thesis by (simp add: extends_def)
qed

theorem accepted_frames_stay_in_order_witness:
  "\<exists>gs. accepted (run_events (session_step demo_env) demo_session
      (take 3 demo_run @ drop 3 demo_run)) =
    accepted (run_events (session_step demo_env) demo_session (take 3 demo_run)) @ gs"
  unfolding demo_session_def
  by (rule accepted_frames_stay_in_order)
     (use demo_enabled in \<open>simp only: demo_session_def append_take_drop_id\<close>)

section \<open>One write and one read at a time\<close>

definition write_completions :: "(int \<times> session_event) list \<Rightarrow> nat" where
  "write_completions es = length (filter (\<lambda>te. snd te = EvWrite None) es)"

definition writes_balanced :: "nat \<Rightarrow> ('c, 'v) session \<Rightarrow> bool" where
  "writes_balanced n s \<longleftrightarrow> session_ok s \<and>
     length (written (ss_log s)) = n + (if ss_write_in_progress s then 1 else 0)"

lemma written_handle_error [simp]:
  "written (ss_log (handle_error vops ec s)) = written (ss_log s)"
  "ss_write_in_progress (handle_error vops ec s) = ss_write_in_progress s"
  using close_each_calls(1) [of vops "ss_services s"]
  by (cases "is_terminal (ss_state s)"; simp add: handle_error_live)+

lemma written_enqueue:
  "session_ok s \<Longrightarrow>
   length (written (ss_log (enqueue_write s w))) + (if ss_write_in_progress s then 1 else 0) =
   length (written (ss_log s)) + (if ss_write_in_progress (enqueue_write s w) then 1 else 0)"
  by (auto simp: enqueue_write_def do_write_next_def Let_def session_ok_def split: list.split)

lemma balanced_enqueue: "writes_balanced n s \<Longrightarrow> writes_balanced n (enqueue_write s w)"
  using enqueue_write_ok [of s w] written_enqueue [of s w] by (simp add: writes_balanced_def)

lemma quiet_balanced: "quiet vops s s' \<Longrightarrow> writes_balanced n s \<Longrightarrow> writes_balanced n s'"
proof (induction rule: quiet.induct)
  case (quiet_enqueue frame s)
  then show ?case
    by (intro foldl_preserves [where P = "writes_balanced n"]) (simp_all add: balanced_enqueue)
next
  case (quiet_crypto s c)
  then show ?case by (simp add: writes_balanced_def session_ok_def)
next
  case (quiet_update s ch v)
  then show ?case by (simp add: writes_balanced_def) (simp add: update_service_def)
next
  case (quiet_call s ch l)
  then show ?case by (simp add: writes_balanced_def session_ok_def)
qed (simp add: writes_balanced_def handle_error_ok)

lemma micro_balanced: "micro vops s s' \<Longrightarrow> writes_balanced n s \<Longrightarrow> writes_balanced n s'"
proof (induction rule: micro.induct)
  case (micro_quiet s s')
  then show ?case by (rule quiet_balanced)
next
  case (micro_data s fr c b)
  then show ?case by (simp add: writes_balanced_def session_ok_def)
next
  case (micro_timed st s ms)
  with micro_step_ok [OF micro.micro_timed [of st vops s ms]] show ?case
    by (simp add: writes_balanced_def start_state_timer_def transition_to_def)
next
  case (micro_running s)
  with micro_step_ok [OF micro.micro_running [of vops s]] show ?case
    by (simp add: writes_balanced_def transition_to_def)
next
  case (micro_disconnected s)
  with micro_step_ok [OF micro.micro_disconnected [of vops s]] show ?case
    by (simp add: writes_balanced_def complete_disconnect_def transition_to_def)
qed

lemma step_balanced:
  assumes "writes_balanced n s" and "session_enabled s te"
  shows "writes_balanced (n + (if snd te = EvWrite None then 1 else 0)) (session_step env s te)"
proof (cases "snd te = EvWrite None")
  case True
  with assms session_step_ok [of s te env] show ?thesis
    by (cases "ss_write_queue s"; cases "tl (ss_write_queue s)")
       (auto simp: writes_balanced_def session_enabled_def session_step_def on_write_complete_def
          do_write_next_def session_ok_def Let_def)
next
  case False
  obtain now e where te: "te = (now, e)" by (cases te)
  from False have e: "e \<noteq> EvWrite None" by (simp add: te)
  obtain s1 where s1: "(micro (env_services env now))\<^sup>*\<^sup>* s s1"
    "(micro (env_services env now))\<^sup>*\<^sup>* (if reads_on e then start_read s1 else s1)
       (session_step env s (now, e))"
    by (rule session_step_shape [OF e])
  have "writes_balanced n s1" using s1(1) assms(1)
    by (rule micro_preserves [where P = "writes_balanced n"]) (rule micro_balanced)
  then have "writes_balanced n (if reads_on e then start_read s1 else s1)"
    by (simp add: start_read_def writes_balanced_def session_ok_def)
  with s1(2) have "writes_balanced n (session_step env s (now, e))"
    by (rule micro_preserves [where P = "writes_balanced n"]) (rule micro_balanced)
  with False show ?thesis by (simp add: te)
qed

lemma run_balanced:
  "writes_balanced n s \<Longrightarrow> run_enabled session_enabled (session_step env) s es \<Longrightarrow>
   writes_balanced (n + write_completions es) (run_events (session_step env) s es)"
proof (induction es arbitrary: n s)
  case (Cons te es)
  then have en: "session_enabled s te" by simp
  show ?case
    using Cons.IH [OF step_balanced [OF Cons.prems(1) en, of env]] Cons.prems(2)
    by (simp add: write_completions_def split: if_splits)
qed (simp add: write_completions_def)

lemma session_with_log [simp]: "ss_log (session_with cfg c svcs) = []"
  "ss_write_in_progress (session_with cfg c svcs) = False"
proof -
  have "ss_log (foldl (\<lambda>s kv. register_service (fst kv) (snd kv) s) s svcs) = ss_log s"
    "ss_write_in_progress (foldl (\<lambda>s kv. register_service (fst kv) (snd kv) s) s svcs) =
      ss_write_in_progress s" for s :: "('a, 'b) session"
    by (induction svcs arbitrary: s) (simp_all add: register_service_def)
  then show "ss_log (session_with cfg c svcs) = []" "ss_write_in_progress (session_with cfg c svcs) = False"
    by (simp_all add: session_with_def new_session_def)
qed

text \<open>
  The transport has at most one write to do. In every run the number of writes handed
  to the transport is the number of completions it has reported, plus one if a write is in
  progress, as the contract of the transport requires.
\<close>

theorem one_write_at_a_time:
  assumes "run_enabled session_enabled (session_step env) (session_with cfg c svcs) es"
  shows "length (written (ss_log (run_events (session_step env) (session_with cfg c svcs) es))) =
    write_completions es
      + (if ss_write_in_progress (run_events (session_step env) (session_with cfg c svcs) es) then 1 else 0)"
  using run_balanced [of 0 "session_with cfg c svcs" env es] assms
  by (simp add: writes_balanced_def session_with_ok)

theorem one_write_at_a_time_witness:
  "length (written (ss_log (run_events (session_step demo_env) demo_session demo_run))) =
    write_completions demo_run
      + (if ss_write_in_progress (run_events (session_step demo_env) demo_session demo_run) then 1 else 0)"
  unfolding demo_session_def
  by (rule one_write_at_a_time) (rule demo_enabled [unfolded demo_session_def])

definition reads :: "session_call list \<Rightarrow> nat" where
  "reads = counts (\<lambda>c. c = TransportRead)"

lemma reads_simps [simp]:
  "reads (xs @ ys) = reads xs + reads ys" "reads [] = 0"
  "reads (c # cs) = (if c = TransportRead then 1 else 0) + reads cs"
  by (simp_all add: reads_def counts_def)

lemma reads_services [simp]: "\<forall>c\<in>set cs. service_call c \<Longrightarrow> reads cs = 0"
  by (induction cs) (auto simp: service_call_def)

lemma reads_enqueue_all [simp]: "reads (ss_log (foldl enqueue_write s ws)) = reads (ss_log s)"
proof (induction ws arbitrary: s)
  case (Cons w ws)
  have "reads (ss_log (enqueue_write s w)) = reads (ss_log s)"
    by (simp add: enqueue_write_def do_write_next_def Let_def split: list.split)
  with Cons.IH show ?case by simp
qed simp

lemma reads_micro: "micro vops s s' \<Longrightarrow> reads (ss_log s') = reads (ss_log s)"
proof (induction rule: micro.induct)
  case (micro_quiet s s')
  then show ?case
  proof (induction rule: quiet.induct)
    case (quiet_error s ec)
    then show ?case using close_each_calls(1) [of vops "ss_services s"]
      by (cases "is_terminal (ss_state s)") (simp_all add: handle_error_live)
  qed (simp_all add: update_service_def enqueue_write_def do_write_next_def Let_def split: list.split)
qed (simp_all add: start_state_timer_def transition_to_def complete_disconnect_def)

lemma reads_micro_star: "(micro vops)\<^sup>*\<^sup>* s s' \<Longrightarrow> reads (ss_log s') = reads (ss_log s)"
  by (induction rule: rtranclp_induct) (simp_all add: reads_micro)

text \<open>
  The read loop keeps exactly one read going. Starting issues one read; a read that
  delivered data is followed by one more, unless the session has ended; and nothing else a
  session does reads from the transport, so there are never two reads outstanding.
\<close>

theorem read_loop:
  "reads (ss_log (session_step env s (now, e))) = reads (ss_log s) +
     (case e of
        EvStart \<Rightarrow> 1
      | EvRead None data \<Rightarrow> if is_terminal (ss_state (session_step env s (now, e))) then 0 else 1
      | _ \<Rightarrow> 0)"
proof (cases "e = EvWrite None")
  case True
  then show ?thesis
    by (simp add: session_step_def on_write_complete_def do_write_next_def Let_def split: list.split)
next
  case False
  obtain s1 where s1: "(micro (env_services env now))\<^sup>*\<^sup>* s s1"
    "(micro (env_services env now))\<^sup>*\<^sup>* (if reads_on e then start_read s1 else s1)
       (session_step env s (now, e))"
    and start: "e = EvStart \<longrightarrow> ss_state s1 = VersionExchange"
    and other: "e \<noteq> EvStart \<longrightarrow> session_step env s (now, e) = (if reads_on e then start_read s1 else s1)"
    by (rule session_step_shape [OF False, where env = env and s = s and now = now])
  note eq = reads_micro_star [OF s1(1)] reads_micro_star [OF s1(2)]
  show ?thesis
  proof (cases "reads_on e")
    case True
    then show ?thesis
      using eq start other
      by (auto simp: reads_on_def start_read_def is_terminal_def split: if_splits)
  next
    case False
    then show ?thesis
      using eq by (auto simp: reads_on_def split: session_event.split option.split)
  qed
qed

section \<open>Reports, timers, and the end of a session\<close>

text \<open>
  C17. The observer is told the truth. In every run the last state reported is the state
  the session is in (Idle if none was reported), each entry into the error state comes
  with exactly one error report, and each entry into a terminal state with exactly one
  close of the transport.
\<close>

theorem reports_are_faithful:
  assumes "run_enabled session_enabled (session_step env) (session_with cfg c svcs) es"
  defines "s \<equiv> run_events (session_step env) (session_with cfg c svcs) es"
  shows "observed_state (ss_log s) = ss_state s
    \<and> error_reports (ss_log s) = entered (\<lambda>st. st = SessionError) (ss_log s)
    \<and> transport_closes (ss_log s) = entered is_terminal (ss_log s)"
  using session_run_ok [OF assms(1)] by (simp add: s_def session_ok_def)

theorem reports_are_faithful_witness:
  "observed_state (ss_log (run_events (session_step demo_env) demo_session demo_run)) = SessionError
    \<and> error_reports (ss_log (run_events (session_step demo_env) demo_session demo_run)) = 1"
proof -
  have "ss_state (run_events (session_step demo_env) demo_session demo_run) = SessionError"
    "entered (\<lambda>st. st = SessionError)
       (ss_log (run_events (session_step demo_env) demo_session demo_run)) = 1"
    by (simp_all add: session_eval demo_eval)
  then show ?thesis
    using reports_are_faithful [OF demo_enabled [unfolded demo_session_def]]
    by (simp add: demo_session_def)
qed

text \<open>
  C19. A session cannot hang in a handshake or a goodbye. In every run the state timer is
  armed exactly while the session waits for the version response, for the SSL exchange or
  for the bye-bye response, and if it expires in such a state the session ends at once:
  with an error during the handshake, cleanly while disconnecting.
\<close>

theorem waiting_states_time_out:
  assumes "run_enabled session_enabled (session_step env) (session_with cfg c svcs) es"
  defines "s \<equiv> run_events (session_step env) (session_with cfg c svcs) es"
  shows "timer_armed (ss_log s) = needs_timer (ss_state s)
    \<and> ss_state (session_step env s (now, EvTimeout)) =
        (case ss_state s of VersionExchange \<Rightarrow> SessionError | SslHandshake \<Rightarrow> SessionError
         | Disconnecting \<Rightarrow> Disconnected | st \<Rightarrow> st)"
proof -
  have "ss_state (session_step env s (now, EvTimeout)) =
        (case ss_state s of VersionExchange \<Rightarrow> SessionError | SslHandshake \<Rightarrow> SessionError
         | Disconnecting \<Rightarrow> Disconnected | st \<Rightarrow> st)"
    by (cases "ss_state s")
       (simp_all add: session_step_def on_state_timeout_def handle_error_live is_terminal_def
          complete_disconnect_def transition_to_def Let_def)
  with session_run_ok [OF assms(1)] show ?thesis by (simp add: s_def session_ok_def)
qed

theorem waiting_states_time_out_witness:
  "ss_state (session_step demo_env
      (run_events (session_step demo_env) demo_session (take 4 demo_run)) (5000, EvTimeout)) = SessionError"
proof -
  have "run_enabled session_enabled (session_step demo_env) demo_session (take 4 demo_run @ drop 4 demo_run)"
    using demo_enabled by (simp only: append_take_drop_id)
  then have en: "run_enabled session_enabled (session_step demo_env) demo_session (take 4 demo_run)"
    by (simp only: run_enabled_append)
  have "ss_state (run_events (session_step demo_env) demo_session (take 4 demo_run)) = VersionExchange"
    by (simp add: session_eval demo_eval)
  then show ?thesis
    using waiting_states_time_out [OF en [unfolded demo_session_def], of 5000]
    by (simp add: demo_session_def)
qed

end
