(* ===== verification/Session_Handshake.thy ===== *)
theory Session_Handshake
  imports Session_Properties
begin

text \<open>
  The order of things in a session: the end is final, services hear nothing before the
  handshake is over, nothing leaves in plaintext after it, and the handshake itself ends
  in Running. The last section shows the two places where the code does not do what it
  means to: a stop started by the head unit, and a failed send during the handshake.
\<close>

section \<open>Services at work\<close>

text \<open>
  To show that running services preserves something, it is enough to show it of sending a
  message, of logging a call and of putting a service back.
\<close>

lemma exec_preserves:
  assumes send: "\<And>ch t p s. P s \<Longrightarrow> P (send_message ops vops ch t p s)"
    and call: "\<And>ch l s. P s \<Longrightarrow> P (emit (FromService ch l) s)"
    and put: "\<And>ch v s. P s \<Longrightarrow> P (update_service ch v s)"
    and start: "P s"
  shows "P (exec_prog ops vops ch p s)"
  using start
proof (induction p arbitrary: s)
  case (Call c v r)
  have "P (perform_call ops vops ch c (update_service ch v s))"
    using Call.prems put send call by (simp add: perform_call_def split: svc_call.split)
  then show ?case using Call.IH by (simp add: Let_def split: option.split)
qed (simp add: put)

section \<open>The end is final\<close>

text \<open>In a terminal state a session only lets its services work and its queue drain.\<close>

definition ended :: "session_state \<Rightarrow> session_call list \<Rightarrow> ('c, 'v) session \<Rightarrow> bool" where
  "ended st log s \<longleftrightarrow> ss_state s = st \<and>
     (\<exists>cs. ss_log s = log @ cs \<and> (\<forall>c\<in>set cs. service_call c \<or> (\<exists>w. c = TransportWrite w)))"

lemma ended_emit:
  "ended st log s \<Longrightarrow> service_call c \<or> (\<exists>w. c = TransportWrite w) \<Longrightarrow> ended st log (emit c s)"
  by (auto simp: ended_def)

lemma ended_data [simp]:
  "ended st log (s\<lparr>ss_crypto := c\<rparr>) = ended st log s"
  "ended st log (s\<lparr>ss_framer := fr\<rparr>) = ended st log s"
  "ended st log (s\<lparr>ss_crypto := c, ss_buffers := b\<rparr>) = ended st log s"
  "ended st log (s\<lparr>ss_write_queue := q\<rparr>) = ended st log s"
  "ended st log (s\<lparr>ss_write_in_progress := b'\<rparr>) = ended st log s"
  "ended st log (update_service ch v s) = ended st log s"
  by (simp_all add: ended_def update_service_def)

lemma ended_write_next: "ended st log s \<Longrightarrow> ended st log (do_write_next s)"
  by (auto simp: do_write_next_def split: list.split intro: ended_emit)

lemma ended_enqueue: "ended st log s \<Longrightarrow> ended st log (enqueue_write s w)"
  by (simp add: enqueue_write_def ended_write_next Let_def)

lemma ended_quiet:
  assumes "is_terminal st"
  shows "quiet vops s s' \<Longrightarrow> ended st log s \<Longrightarrow> ended st log s'"
proof (induction rule: quiet.induct)
  case (quiet_call s ch l)
  then show ?case by (auto intro: ended_emit simp: service_call_def)
next
  case (quiet_enqueue frame s)
  from quiet_enqueue.prems show ?case
    by (intro foldl_preserves [where P = "ended st log"]) (simp_all add: ended_enqueue)
next
  case (quiet_error s ec)
  then have "is_terminal (ss_state s)" using assms by (simp add: ended_def)
  then show ?case using quiet_error by simp
qed simp_all

lemma ended_runs:
  assumes "is_terminal st" and "(quiet vops)\<^sup>*\<^sup>* s s'" and "ended st log s"
  shows "ended st log s'"
  using assms(2,3) by (rule quiet_preserves [where P = "ended st log"]) (rule ended_quiet [OF assms(1)])

lemma ended_exec:
  "is_terminal st \<Longrightarrow> ended st log s \<Longrightarrow> ended st log (exec_prog ops vops ch p s)"
  by (rule ended_runs [OF _ quiet_exec])

lemma ended_fragment:
  assumes "is_terminal st" and "ended st log s"
  shows "ended st log (on_fragment ops vops codec s f)"
proof -
  have hs: "\<not> is_handshake_state (ss_state s)" and err: "is_terminal (ss_state s)"
    using assms by (auto simp: ended_def is_terminal_def is_handshake_state_def)
  show ?thesis
    by (simp add: on_fragment_def dispatch_decrypted_def split_beta Let_def hs err
        assms ended_exec split: asm_outcome.split option.split)
qed

lemma ended_fragments:
  "is_terminal st \<Longrightarrow> ended st log s \<Longrightarrow> ended st log (foldl (on_fragment ops vops codec) s fs)"
  by (induction fs arbitrary: s) (simp_all add: ended_fragment)

lemma ended_feed:
  "is_terminal st \<Longrightarrow> ended st log s \<Longrightarrow> ended st log (session_feed ops vops codec data s)"
  by (simp add: session_feed_def split_beta Let_def ended_fragments)

lemma ended_start_read: "is_terminal st \<Longrightarrow> ended st log s \<Longrightarrow> ended st log (start_read s)"
  by (simp add: start_read_def ended_def)

lemma ended_timeout: "is_terminal (ss_state s) \<Longrightarrow> on_state_timeout vops s = s"
  by (auto simp: is_terminal_def on_state_timeout_def)

text \<open>
  C4. A session that has ended stays ended. After it has reached Disconnected or the error
  state no event other than a new start changes its state, reports anything to the
  observer, closes the transport again, arms a timer or reads: what can still happen is
  that queued frames drain and that services make calls.
\<close>

theorem terminal_states_are_final:
  assumes "is_terminal (ss_state s)" and "snd te \<noteq> EvStart"
  shows "ss_state (session_step env s te) = ss_state s
    \<and> (\<exists>cs. ss_log (session_step env s te) = ss_log s @ cs
        \<and> set cs \<subseteq> range (\<lambda>(ch, l). FromService ch l) \<union> range TransportWrite)"
proof -
  obtain now e where te: "te = (now, e)" by (cases te)
  let ?st = "ss_state s"
  have start: "ended ?st (ss_log s) s" by (simp add: ended_def)
  note runs = ended_runs [OF assms(1) _ start]
  have "ended ?st (ss_log s) (session_step env s (now, e))"
    using assms start unfolding te
    by (cases e)
       (simp_all add: session_step_def Let_def do_stop_def on_read_complete_def on_write_complete_def
          ended_timeout ended_feed ended_start_read ended_write_next quiet_runs [THEN runs]
          split: option.split)
  then show ?thesis by (fastforce simp: ended_def te service_call_def)
qed

text \<open>A session that has ended, for the witness.\<close>

lemma demo_ended: "ss_state (run_events (session_step demo_env) demo_session demo_run) = SessionError"
  by (simp add: session_eval demo_eval)

theorem terminal_states_are_final_witness:
  "ss_state (session_step demo_env (run_events (session_step demo_env) demo_session demo_run)
     (9, EvRead None [0, 3, 0, 2, 0, 2])) = SessionError"
  using terminal_states_are_final
    [of "run_events (session_step demo_env) demo_session demo_run" "(9, EvRead None [0, 3, 0, 2, 0, 2])" demo_env]
  by (simp add: demo_ended is_terminal_def)

section \<open>Services wait for the handshake\<close>

definition handshaking :: "(byte \<times> 'v) list \<Rightarrow> session_call list \<Rightarrow> ('c, 'v) session \<Rightarrow> bool" where
  "handshaking svcs log s \<longleftrightarrow> (is_handshake_state (ss_state s) \<longrightarrow>
     ss_services s = svcs \<and> (\<exists>cs. ss_log s = log @ cs \<and> (\<forall>c\<in>set cs. \<not> service_call c)))"

lemma handshaking_over: "\<not> is_handshake_state (ss_state s) \<Longrightarrow> handshaking svcs log s"
  by (simp add: handshaking_def)

lemma handshaking_emit:
  "handshaking svcs log s \<Longrightarrow> \<not> service_call c \<Longrightarrow> handshaking svcs log (emit c s)"
  by (auto simp: handshaking_def)

lemma handshaking_data [simp]:
  "handshaking svcs log (s\<lparr>ss_crypto := c\<rparr>) = handshaking svcs log s"
  "handshaking svcs log (s\<lparr>ss_framer := fr\<rparr>) = handshaking svcs log s"
  "handshaking svcs log (s\<lparr>ss_crypto := c, ss_buffers := b\<rparr>) = handshaking svcs log s"
  "handshaking svcs log (s\<lparr>ss_write_queue := q\<rparr>) = handshaking svcs log s"
  "handshaking svcs log (s\<lparr>ss_write_in_progress := b'\<rparr>) = handshaking svcs log s"
  by (simp_all add: handshaking_def)

lemma handshaking_enqueue: "handshaking svcs log s \<Longrightarrow> handshaking svcs log (enqueue_write s w)"
  by (auto simp: enqueue_write_def do_write_next_def Let_def service_call_def
      split: list.split intro!: handshaking_emit)

lemma handshaking_enqueue_all:
  "handshaking svcs log s \<Longrightarrow> handshaking svcs log (foldl enqueue_write s ws)"
  by (induction ws arbitrary: s) (simp_all add: handshaking_enqueue)

lemma error_ends_handshake: "\<not> is_handshake_state (ss_state (handle_error vops ec s))"
  by (cases "is_terminal (ss_state s)")
     (auto simp: handle_error_live is_handshake_state_def is_terminal_def)

lemma transition_state [simp]: "ss_state (transition_to st s) = st"
  by (simp add: transition_to_def)

lemma running_no_handshake [simp]: "\<not> is_handshake_state Running"
  by (simp add: is_handshake_state_def)

lemma handshaking_action:
  "handshaking svcs log s \<Longrightarrow> handshaking svcs log (perform_hs_action ops vops codec s a)"
  by (cases a)
     (auto simp: perform_hs_action_def send_message_def handshaking_enqueue_all on_ssl_complete_def
        error_ends_handshake intro!: handshaking_over split: prod.split sum.split)

lemma quiet_no_handshake:
  "quiet vops s s' \<Longrightarrow> \<not> is_handshake_state (ss_state s) \<Longrightarrow> \<not> is_handshake_state (ss_state s')"
proof (induction rule: quiet.induct)
  case (quiet_error s ec)
  then show ?case by (simp add: error_ends_handshake)
qed (simp_all add: update_service_def enqueue_write_def do_write_next_def Let_def split: list.split)

lemma handshaking_coordinator:
  assumes "handshaking svcs log s"
  shows "handshaking svcs log (run_coordinator ops vops codec f s)"
proof -
  have "handshaking svcs log s' \<Longrightarrow>
      handshaking svcs log (foldl (perform_hs_action ops vops codec) s' as)" for s' as
    by (induction as arbitrary: s') (simp_all add: handshaking_action)
  with assms show ?thesis by (simp add: run_coordinator_def split_beta Let_def)
qed

lemma handshaking_message:
  assumes "handshaking svcs log s" and "is_handshake_state (ss_state s)"
  shows "handshaking svcs log (handle_handshake_message ops vops codec t p s)"
proof -
  have "handshaking svcs log (transition_to SslHandshake s)"
    using assms by (auto simp: handshaking_def transition_to_def service_call_def)
  then show ?thesis
    using assms by (simp add: handle_handshake_message_def on_version_response_def
        handshaking_coordinator start_state_timer_def handshaking_emit service_call_def)
qed

lemma exec_no_handshake:
  assumes "\<not> is_handshake_state (ss_state s)"
  shows "\<not> is_handshake_state (ss_state (exec_prog ops vops ch p s))"
  using quiet_exec assms
  by (rule quiet_preserves [where P = "\<lambda>s. \<not> is_handshake_state (ss_state s)"]) (rule quiet_no_handshake)

lemma handshaking_fragment:
  assumes "handshaking svcs log s"
  shows "handshaking svcs log (on_fragment ops vops codec s f)"
  using assms
  by (auto simp: on_fragment_def dispatch_decrypted_def split_beta Let_def
      split: asm_outcome.split option.split
      intro!: handshaking_message handshaking_over [OF error_ends_handshake]
        handshaking_over [OF exec_no_handshake])

lemma handshaking_feed:
  assumes "handshaking svcs log s"
  shows "handshaking svcs log (session_feed ops vops codec data s)"
proof -
  have "handshaking svcs log s' \<Longrightarrow> handshaking svcs log (foldl (on_fragment ops vops codec) s' fs)"
    for s' fs
    by (induction fs arbitrary: s') (simp_all add: handshaking_fragment)
  with assms show ?thesis by (simp add: session_feed_def split_beta Let_def)
qed

text \<open>
  The services with another handler for the phone's messages. What a session does is the same
  with any such handler exactly as long as it never calls it.
\<close>

definition other_handler :: "(u16 \<Rightarrow> bytes \<Rightarrow> 'v \<Rightarrow> 'v prog) \<Rightarrow> 'v service_ops \<Rightarrow> 'v service_ops" where
  "other_handler h vops = vops\<lparr>svc_on_message := h\<rparr>"

lemma other_simps [simp]:
  "svc_on_channel_close (other_handler h vops) = svc_on_channel_close vops"
  "svc_broadcast (other_handler h vops) = svc_broadcast vops"
  "svc_heartbeat (other_handler h vops) = svc_heartbeat vops"
  "svc_type (other_handler h vops) = svc_type vops"
  "svc_pairing_response (other_handler h vops) = svc_pairing_response vops"
  "svc_auth_result (other_handler h vops) = svc_auth_result vops"
  by (simp_all add: other_handler_def)

lemma other_close [simp]: "close_each (other_handler h vops) kvs = close_each vops kvs"
  by (induction kvs) simp_all

lemma other_error [simp]: "handle_error (other_handler h vops) ec s = handle_error vops ec s"
  by (simp add: handle_error_def close_transport_and_services_def)

lemma other_send [simp]: "send_message ops (other_handler h vops) ch t p s = send_message ops vops ch t p s"
  by (simp add: send_message_def)

lemma other_exec [simp]: "exec_prog ops (other_handler h vops) ch p s = exec_prog ops vops ch p s"
  by (induction p arbitrary: s) (auto simp: perform_call_def Let_def split: option.split svc_call.split)

lemma other_for [simp]: "for_services ops (other_handler h vops) f chs s = for_services ops vops f chs s"
  by (induction chs arbitrary: s) (auto split: option.split)

lemma other_handshake [simp]:
  "handle_handshake_message ops (other_handler h vops) codec t p s = handle_handshake_message ops vops codec t p s"
  by (simp add: handle_handshake_message_def on_version_response_def run_coordinator_def
      perform_hs_action_def [abs_def])

lemma deaf_fragment:
  "is_handshake_state (ss_state s) \<Longrightarrow>
   on_fragment ops (other_handler h vops) codec s f = on_fragment ops vops codec s f"
  by (auto simp: on_fragment_def dispatch_decrypted_def split_beta Let_def split: asm_outcome.split)

lemma fragment_no_handshake:
  "\<not> is_handshake_state (ss_state s) \<Longrightarrow> \<not> is_handshake_state (ss_state (on_fragment ops vops codec s f))"
  by (auto simp: on_fragment_def dispatch_decrypted_def split_beta Let_def error_ends_handshake exec_no_handshake
      split: asm_outcome.split option.split)

lemma deaf_fragments:
  "is_handshake_state (ss_state (foldl (on_fragment ops vops codec) s fs)) \<Longrightarrow>
   foldl (on_fragment ops (other_handler h vops) codec) s fs = foldl (on_fragment ops vops codec) s fs"
proof (induction fs rule: rev_induct)
  case (snoc f fs)
  then have "is_handshake_state (ss_state (foldl (on_fragment ops vops codec) s fs))"
    using fragment_no_handshake by fastforce
  with snoc show ?case by (simp add: deaf_fragment)
qed simp

lemma deaf_feed:
  "is_handshake_state (ss_state (session_feed ops vops codec data s)) \<Longrightarrow>
   session_feed ops (other_handler h vops) codec data s = session_feed ops vops codec data s"
  by (auto simp: session_feed_def split_beta Let_def deaf_fragments split: if_splits)

lemma start_read_state [simp]: "ss_state (start_read s) = ss_state s"
  by (simp add: start_read_def)

lemma other_loops [simp]:
  "broadcast_services ops (other_handler h vops) b s = broadcast_services ops vops b s"
  "find_bluetooth_service (other_handler h vops) s = find_bluetooth_service vops s"
  "on_bluetooth ops (other_handler h vops) f s = on_bluetooth ops vops f s"
  "on_write_complete (other_handler h vops) ec s = on_write_complete vops ec s"
  "on_state_timeout (other_handler h vops) s = on_state_timeout vops s"
  by (simp_all add: broadcast_services_def find_bluetooth_service_def on_bluetooth_def on_write_complete_def
      on_state_timeout_def del: for_services.simps split: option.split session_state.split)

lemma other_disconnect [simp]: "begin_disconnect ops (other_handler h vops) s = begin_disconnect ops vops s"
  by (simp add: begin_disconnect_def Let_def split: option.split)

lemma deaf_step:
  assumes "is_handshake_state (ss_state (session_step env s te))"
  shows "session_step (env\<lparr>env_services := \<lambda>now. other_handler h (env_services env now)\<rparr>) s te = session_step env s te"
proof (cases "snd te")
  case (EvRead ec data)
  with assms show ?thesis
    by (auto simp: session_step_def on_read_complete_def deaf_feed Let_def split: option.splits)
qed (simp_all add: session_step_def Let_def begin_version_exchange_def send_version_request_def do_stop_def
    del: for_services.simps)

text \<open>
  C6. The services do not hear the phone before the handshake is over. In whatever happens to
  a session that is exchanging versions or SSL data and stays in the handshake, the handlers of
  the services for messages of the phone are not called: any other handlers would lead
  to the same state and the same calls. Bytes that arrive leave the services untouched, and none
  makes a call. And within the very read that ends the handshake, no message up to the one that
  ends it reaches a service. (Broadcasts, heartbeats and the pairing results of the app do reach
  the services at that time.)
\<close>

theorem services_wait_for_handshake:
  assumes "is_handshake_state (ss_state s)"
  shows "(is_handshake_state (ss_state (session_step env s te)) \<longrightarrow>
      session_step (env\<lparr>env_services := \<lambda>now. other_handler h (env_services env now)\<rparr>) s te = session_step env s te
      \<and> (\<forall>data. snd te = EvRead None data \<longrightarrow>
          ss_services (session_step env s te) = ss_services s
          \<and> (\<exists>cs. ss_log (session_step env s te) = ss_log s @ cs
              \<and> set cs \<inter> range (\<lambda>(ch, l). FromService ch l) = {})))
    \<and> (\<forall>fs f. is_handshake_state (ss_state (foldl (on_fragment ops vops codec) s fs)) \<longrightarrow>
        foldl (on_fragment ops (other_handler h vops) codec) s (fs @ [f]) =
        foldl (on_fragment ops vops codec) s (fs @ [f]))"
proof (intro conjI impI allI)
  assume "is_handshake_state (ss_state (session_step env s te))"
  then show "session_step (env\<lparr>env_services := \<lambda>now. other_handler h (env_services env now)\<rparr>) s te = session_step env s te"
    by (rule deaf_step)
next
  fix data assume over: "is_handshake_state (ss_state (session_step env s te))" and te: "snd te = EvRead None data"
  have "handshaking (ss_services s) (ss_log s) s" by (simp add: handshaking_def)
  from handshaking_feed [OF this]
  have "handshaking (ss_services s) (ss_log s) (session_step env s te)"
    using te by (auto simp: session_step_def on_read_complete_def start_read_def Let_def service_call_def
        intro: handshaking_emit)
  with over show "ss_services (session_step env s te) = ss_services s"
    "\<exists>cs. ss_log (session_step env s te) = ss_log s @ cs \<and> set cs \<inter> range (\<lambda>(ch, l). FromService ch l) = {}"
    by (fastforce simp: handshaking_def service_call_def)+
next
  fix fs f assume "is_handshake_state (ss_state (foldl (on_fragment ops vops codec) s fs))"
  then show "foldl (on_fragment ops (other_handler h vops) codec) s (fs @ [f]) =
      foldl (on_fragment ops vops codec) s (fs @ [f])"
    by (simp add: deaf_fragments deaf_fragment)
qed

definition demo_handshake :: "(mock_crypto, service) session" where
  "demo_handshake = session_step demo_env demo_session (0, EvStart)"

text \<open>A message for the control service: it is in its channel's service, but too early.\<close>

theorem services_wait_for_handshake_witness:
  "ss_services (session_step demo_env demo_handshake (1, EvRead None [0, 3, 0, 2, 0, 15])) =
     ss_services demo_handshake"
proof -
  have feed: "framer_feed new_framer [0, 3, 0, 2, 0, 15] =
      (new_framer, [\<lparr>frag_channel = 0, frag_first = True, frag_last = True,
        frag_encrypted = False, frag_payload = [0, 15]\<rparr>])"
    by code_simp
  have "is_handshake_state (ss_state demo_handshake)"
    by (simp add: demo_handshake_def session_eval demo_eval is_handshake_state_def)
  moreover have "is_handshake_state (ss_state
      (session_step demo_env demo_handshake (1, EvRead None [0, 3, 0, 2, 0, 15])))"
    using feed
    by (simp add: demo_handshake_def session_eval demo_eval is_handshake_state_def on_read_complete_def
        session_feed_def on_fragment_def assembler_on_fragment_def append_fragment_payload_def
        extract_complete_message_def channel_buffer_def dispatch_decrypted_def
        handle_handshake_message_def byte_simps unat_be16 word_unat_eq_iff)
  ultimately show ?thesis
    using services_wait_for_handshake [of demo_handshake demo_env "(1, EvRead None [0, 3, 0, 2, 0, 15])"] by simp
qed

section \<open>Nothing in plaintext after the handshake\<close>

definition sealed :: "bytes \<Rightarrow> bool" where
  "sealed w \<longleftrightarrow> length w \<ge> 2 \<and> (w ! 1) AND kFlagEncrypted \<noteq> 0"

lemma sealed_chunk:
  assumes "out_flags frame AND 0x08 \<noteq> 0"
  shows "sealed (encode_chunk frame off)"
proof -
  have "((out_flags frame AND 0xFC) OR frag_info_code i) AND 0x08 = out_flags frame AND 0x08" for i
    by (cases i) (simp_all add: bit.conj_disj_distrib2 and.assoc)
  with assms show ?thesis by (simp add: sealed_def encode_chunk_def kFlagEncrypted_def Let_def)
qed

lemma sealed_encode:
  assumes "out_flags frame AND 0x08 \<noteq> 0" and "w \<in> set (framer_encode frame)"
  shows "sealed w"
proof -
  have "out_flags fr AND 0x08 \<noteq> 0 \<Longrightarrow> \<forall>w\<in>set (encode_loop fr off). sealed w" for fr off
    by (induction fr off rule: encode_loop.induct) (subst encode_loop.simps, auto simp: sealed_chunk)
  then show ?thesis
    using assms by (auto simp: framer_encode_def encode_single_def sealed_def kFlagEncrypted_def
        Let_def split: if_splits)
qed

text \<open>Encrypting and decrypting do not undo an established connection.\<close>

definition stays_established :: "'c crypto_ops \<Rightarrow> bool" where
  "stays_established ops \<longleftrightarrow>
     (\<forall>p c. is_established ops c \<longrightarrow> is_established ops (fst (encrypt ops p c))
         \<and> is_established ops (fst (decrypt ops p c)))"

definition secured :: "'c crypto_ops \<Rightarrow> bytes list \<Rightarrow> ('c, 'v) session \<Rightarrow> bool" where
  "secured ops fs s \<longleftrightarrow> session_ok s \<and> \<not> is_handshake_state (ss_state s)
     \<and> is_established ops (ss_crypto s)
     \<and> (\<exists>gs. accepted s = fs @ gs \<and> (\<forall>w\<in>set gs. sealed w))"

lemma secured_enqueue: "secured ops fs s \<Longrightarrow> sealed w \<Longrightarrow> secured ops fs (enqueue_write s w)"
  by (auto simp: secured_def enqueue_write_ok accepted_enqueue)

lemma secured_enqueue_all:
  "secured ops fs s \<Longrightarrow> \<forall>w\<in>set ws. sealed w \<Longrightarrow> secured ops fs (foldl enqueue_write s ws)"
  by (induction ws arbitrary: s) (simp_all add: secured_enqueue)

lemma secured_data:
  "secured ops fs s \<Longrightarrow> is_established ops c \<Longrightarrow> secured ops fs (s\<lparr>ss_crypto := c\<rparr>)"
  "secured ops fs s \<Longrightarrow> is_established ops c \<Longrightarrow> secured ops fs (s\<lparr>ss_crypto := c, ss_buffers := b\<rparr>)"
  "secured ops fs s \<Longrightarrow> secured ops fs (s\<lparr>ss_framer := fr\<rparr>)"
  "secured ops fs s \<Longrightarrow> secured ops fs (update_service ch v s)"
  by (auto simp: secured_def session_ok_def accepted_def waiting_def update_service_def)

lemma secured_emit:
  "secured ops fs s \<Longrightarrow> service_call c \<or> c = TransportRead \<Longrightarrow> secured ops fs (emit c s)"
  by (auto simp: secured_def session_ok_def service_call_def)

lemma crypto_handle_error [simp]: "ss_crypto (handle_error vops ec s) = ss_crypto s"
  by (cases "is_terminal (ss_state s)") (simp_all add: handle_error_live)

lemma secured_error: "secured ops fs s \<Longrightarrow> secured ops fs (handle_error vops ec s)"
  by (simp add: secured_def handle_error_ok error_ends_handshake)

lemma encoder_sealed:
  assumes "stays_established ops" and "is_established ops c"
    and "encoder_send_message ops ch t p c = (c', res)"
  shows "is_established ops c'" and "res = Inr ws \<Longrightarrow> \<forall>w\<in>set ws. sealed w"
proof -
  obtain c1 r where enc: "encrypt ops (build_message_payload t p) c = (c1, r)" by fastforce
  have c1: "is_established ops c1"
    using assms(1,2) arg_cong [OF enc, of fst] by (simp add: stays_established_def) metis
  then show "is_established ops c'"
    using assms(2,3) enc
    by (auto simp: encoder_send_message_def encrypt_and_queue_frame_def Let_def split: sum.splits)
  show "\<forall>w\<in>set ws. sealed w" if "res = Inr ws"
    using assms(2,3) enc that compute_frame_flags_bits(3) [of ch t True]
    by (auto simp: encoder_send_message_def encrypt_and_queue_frame_def Let_def split: sum.splits
        intro!: sealed_encode)
qed

lemma secured_send:
  assumes "stays_established ops" and "secured ops fs s"
  shows "secured ops fs (send_message ops vops ch t p s)"
proof -
  obtain c' res where enc: "encoder_send_message ops ch t p (ss_crypto s) = (c', res)" by fastforce
  have "is_established ops (ss_crypto s)" using assms(2) by (simp add: secured_def)
  note sealed = encoder_sealed [OF assms(1) this enc]
  show ?thesis
    using enc sealed assms(2)
    by (auto simp: send_message_def split: sum.split
        intro!: secured_error secured_enqueue_all secured_data)
qed

lemma secured_exec:
  assumes "stays_established ops" and "secured ops fs s"
  shows "secured ops fs (exec_prog ops vops ch p s)"
  by (rule exec_preserves [where P = "secured ops fs"])
     (simp_all add: secured_send assms secured_emit secured_data service_call_def)

lemma secured_for_services:
  assumes "stays_established ops"
  shows "secured ops fs s \<Longrightarrow> secured ops fs (for_services ops vops f chs s)"
  by (induction chs arbitrary: s) (simp_all add: secured_exec assms split: option.split)

lemma assembler_established:
  assumes "stays_established ops" and "is_established ops c"
  shows "is_established ops (fst (fst (assembler_on_fragment ops f (c, bufs))))"
  using assms
  by (auto simp: assembler_on_fragment_def append_fragment_payload_def stays_established_def Let_def
      split_beta split: sum.splits option.splits)

lemma secured_fragment:
  assumes "stays_established ops" and "secured ops fs s"
  shows "secured ops fs (on_fragment ops vops codec s f)"
proof -
  have "is_established ops (fst (fst (assembler_on_fragment ops f (ss_crypto s, ss_buffers s))))"
    using assms by (auto simp: secured_def intro: assembler_established)
  note data = secured_data(2) [OF assms(2) this]
  have "\<not> is_handshake_state (ss_state s)" using assms(2) by (simp add: secured_def)
  then show ?thesis
    using data
    by (auto simp: on_fragment_def dispatch_decrypted_def split_beta Let_def
        split: asm_outcome.split option.split intro!: secured_error secured_exec assms(1))
qed

lemma secured_feed:
  assumes "stays_established ops" and "secured ops fs s"
  shows "secured ops fs (session_feed ops vops codec data s)"
proof -
  have "secured ops fs s' \<Longrightarrow> secured ops fs (foldl (on_fragment ops vops codec) s' gs)" for s' gs
    by (induction gs arbitrary: s') (simp_all add: secured_fragment assms(1))
  with assms(2) show ?thesis by (simp add: session_feed_def split_beta Let_def secured_data)
qed

lemma secured_transition:
  assumes "secured ops fs s"
  shows "secured ops fs (complete_disconnect s)"
    and "secured ops fs (start_state_timer ms (transition_to Disconnecting s))"
proof -
  have ok: "session_ok s" using assms by (simp add: secured_def)
  have "session_ok (complete_disconnect s)"
    by (rule micro_step_ok [OF micro_disconnected ok])
  then show "secured ops fs (complete_disconnect s)"
    using assms by (simp add: secured_def complete_disconnect_def transition_to_def is_handshake_state_def)
  have "session_ok (start_state_timer ms (transition_to Disconnecting s))"
    by (rule micro_step_ok [OF micro_timed ok]) (simp add: needs_timer_def)
  then show "secured ops fs (start_state_timer ms (transition_to Disconnecting s))"
    using assms by (simp add: secured_def start_state_timer_def transition_to_def is_handshake_state_def)
qed

lemma secured_written:
  assumes "secured ops fs s" and "ss_write_in_progress s"
  shows "secured ops fs (do_write_next (s\<lparr>ss_write_queue := tl (ss_write_queue s)\<rparr>))"
proof -
  have "session_ok (session_step undefined s (0, EvWrite None))"
    using assms by (intro session_step_ok) (simp_all add: secured_def session_enabled_def)
  then have ok: "session_ok (do_write_next (s\<lparr>ss_write_queue := tl (ss_write_queue s)\<rparr>))"
    by (simp add: session_step_def on_write_complete_def Let_def)
  have "accepted (do_write_next (s\<lparr>ss_write_queue := tl (ss_write_queue s)\<rparr>)) = accepted s"
    using assms by (intro accepted_written) (simp_all add: secured_def)
  with ok assms show ?thesis
    by (auto simp: secured_def do_write_next_def split: list.split)
qed

lemma secured_step:
  assumes "stays_established (env_crypto env)" and "secured (env_crypto env) fs s"
    and "session_enabled s te" and "snd te \<noteq> EvStart"
  shows "secured (env_crypto env) fs (session_step env s te)"
proof -
  obtain now e where te: "te = (now, e)" by (cases te)
  note use = secured_send [OF assms(1)] secured_for_services [OF assms(1)] secured_feed [OF assms(1)]
    secured_error secured_transition secured_emit secured_written
  show ?thesis
    using assms(2-4) unfolding te
    by (cases e)
       (auto simp: session_step_def Let_def broadcast_services_def on_bluetooth_def do_stop_def
          begin_disconnect_def on_read_complete_def start_read_def on_write_complete_def
          session_enabled_def on_state_timeout_def
          simp del: for_services.simps split: option.split session_state.split intro!: use)
qed

text \<open>
  C5. After the handshake nothing leaves in plaintext. Once the crypto is established and
  the session is past the handshake, whatever happens next, every frame the session newly
  accepts for writing carries the encrypted flag, provided only that encrypting and
  decrypting do not themselves end the established state.
\<close>

theorem no_plaintext_after_handshake:
  assumes "stays_established (env_crypto env)"
    and "run_enabled session_enabled (session_step env) (session_with cfg c svcs) (es @ [te])"
  defines "s \<equiv> run_events (session_step env) (session_with cfg c svcs) es"
  assumes "is_established (env_crypto env) (ss_crypto s)" and "\<not> is_handshake_state (ss_state s)"
    and "snd te \<noteq> EvStart"
  shows "\<exists>gs. accepted (session_step env s te) = accepted s @ gs \<and> (\<forall>w\<in>set gs. sealed w)"
proof -
  have "secured (env_crypto env) (accepted s) s"
    using session_run_ok [of env cfg c svcs es] assms(2,4,5) by (simp add: secured_def s_def)
  moreover have "session_enabled s te" using assms(2) by (simp add: s_def)
  ultimately have "secured (env_crypto env) (accepted s) (session_step env s te)"
    using assms(1,6) by (intro secured_step)
  then show ?thesis by (simp add: secured_def)
qed

theorem no_plaintext_after_handshake_witness:
  "\<exists>gs. accepted (session_step demo_env (run_events (session_step demo_env)
       (session_with demo_config \<lparr>mock_established = True\<rparr> [(0, Svc_Control sample_control)]) [])
       (0, EvBroadcast BcReleaseAudioFocus)) =
     accepted (run_events (session_step demo_env)
       (session_with demo_config \<lparr>mock_established = True\<rparr> [(0, Svc_Control sample_control)]) []) @ gs
     \<and> (\<forall>w\<in>set gs. sealed w)"
  by (rule no_plaintext_after_handshake)
     (simp_all add: stays_established_def demo_env_def mock_ops_def mock_encrypt_def mock_decrypt_def
        session_enabled_def session_with_def new_session_def register_service_def is_handshake_state_def)

section \<open>The handshake succeeds\<close>

text \<open>
  What the crypto makes of the inputs of an exchange: the outputs of the steps before the
  last, if every step succeeds, the last and only the last completes the handshake, and the
  last has nothing more to send. Before it, the connection is not yet established.
\<close>

primrec hs_run :: "'c crypto_ops \<Rightarrow> bytes list \<Rightarrow> 'c \<Rightarrow> ('c \<times> bytes list) option" where
  "hs_run ops [] c = None"
| "hs_run ops (x # xs) c =
     (case handshake_step ops x c of
        (c1, Inl ec) \<Rightarrow> None
      | (c1, Inr r) \<Rightarrow>
          if complete r then (if xs = [] \<and> output_bytes r = [] then Some (c1, []) else None)
          else if is_established ops c1 then None
          else map_option (\<lambda>(c2, outs). (c2, output_bytes r # outs)) (hs_run ops xs c1))"

definition ssl_frames :: "bytes \<Rightarrow> bytes list" where
  "ssl_frames out =
     (if out = [] then []
      else queue_encoded_frame kControlChannelId (ctl EncapsulatedSsl) False
             (build_message_payload (ctl EncapsulatedSsl) out))"

definition auth_frames :: "pb_codec \<Rightarrow> bytes list" where
  "auth_frames codec =
     send_plaintext_control_message (ctl AuthComplete) (ser codec (PbAuthResponse 0))"

lemma enqueue_all_accepted:
  assumes "session_ok s" and "length (ss_write_queue s) + length ws \<le> kMaxWriteQueueSize"
  shows "accepted (foldl enqueue_write s ws) = accepted s @ ws"
  using assms
proof (induction ws arbitrary: s)
  case (Cons w ws)
  have "ss_write_queue (enqueue_write s w) = ss_write_queue s @ [w]"
    using Cons.prems by (intro write_queue.enq_room) simp
  then show ?case
    using Cons.IH [of "enqueue_write s w"] Cons.prems
    by (simp add: enqueue_write_ok accepted_enqueue)
qed simp

text \<open>A session in the exchange, with what it has accepted and how much room it has left.\<close>

definition exchanging :: "(byte \<times> 'v) list \<Rightarrow> bytes list \<Rightarrow> nat \<Rightarrow> ('c, 'v) session \<Rightarrow> bool" where
  "exchanging svcs fs room s \<longleftrightarrow> session_ok s \<and> ss_state s = SslHandshake \<and> ss_services s = svcs
     \<and> accepted s = fs \<and> length (ss_write_queue s) + room \<le> kMaxWriteQueueSize"

lemma exchange_step:
  assumes "exchanging svcs fs (length (ssl_frames (output_bytes r)) + room) s"
    and "handshake_step ops x (ss_crypto s) = (c1, Inr r)" and "\<not> complete r"
    and "\<not> is_established ops c1"
  shows "exchanging svcs (fs @ ssl_frames (output_bytes r)) room
      (run_coordinator ops vops codec (on_ssl_data_received ops x) s)
    \<and> ss_crypto (run_coordinator ops vops codec (on_ssl_data_received ops x) s) = c1"
proof -
  let ?ws = "ssl_frames (output_bytes r)"
  let ?s = "s\<lparr>ss_crypto := c1\<rparr>"
  have run: "run_coordinator ops vops codec (on_ssl_data_received ops x) s = foldl enqueue_write ?s ?ws"
    using assms(2-4)
    by (simp add: run_coordinator_def on_ssl_data_received_def handle_handshake_step_result_def
        perform_hs_action_def send_message_def encoder_send_message_def ssl_frames_def)
  have ok: "session_ok ?s" using assms(1) by (simp add: exchanging_def session_ok_def)
  have len: "length (ss_write_queue ?s) + length ?ws \<le> kMaxWriteQueueSize"
    using assms(1) by (simp add: exchanging_def)
  have acc: "accepted (foldl enqueue_write ?s ?ws) = fs @ ?ws"
    using enqueue_all_accepted [OF ok len] assms(1) by (simp add: exchanging_def)
  have queue: "ss_write_queue (foldl enqueue_write ?s ?ws) = ss_write_queue s @ ?ws"
    using write_queue.enq_all_lossless [OF len] by simp
  show ?thesis
    using assms(1) acc queue enqueue_all_ok [OF ok, of ?ws] by (simp add: run exchanging_def)
qed

lemma exchange_last:
  fixes ops :: "'c crypto_ops" and vops :: "'v service_ops" and s :: "('c, 'v) session"
  assumes "exchanging svcs fs (length (auth_frames codec)) s"
    and "handshake_step ops x (ss_crypto s) = (c1, Inr r)" and "complete r" and "output_bytes r = []"
  defines "s' \<equiv> run_coordinator ops vops codec (on_ssl_data_received ops x) s"
  shows "ss_state s' = Running \<and> ss_crypto s' = c1 \<and> ss_services s' = svcs
    \<and> accepted s' = fs @ auth_frames codec"
proof -
  let ?s = "s\<lparr>ss_crypto := c1\<rparr>"
  have run: "s' = transition_to Running (foldl enqueue_write ?s (auth_frames codec))"
    using assms(2-4)
    by (simp add: s'_def run_coordinator_def on_ssl_data_received_def auth_frames_def
        handle_handshake_step_result_def perform_hs_action_def on_ssl_complete_def)
  have ok: "session_ok ?s" using assms(1) by (simp add: exchanging_def session_ok_def)
  have "accepted (foldl enqueue_write ?s (auth_frames codec)) = fs @ auth_frames codec"
    using enqueue_all_accepted [OF ok, of "auth_frames codec"] assms(1) by (simp add: exchanging_def)
  then show ?thesis
    using assms(1) by (simp add: run transition_to_def exchanging_def)
qed

definition ssl_message :: "byte \<Rightarrow> bytes \<Rightarrow> aap_message" where
  "ssl_message ch p = \<lparr>msg_channel = ch, msg_type = ctl EncapsulatedSsl, msg_payload = p\<rparr>"

lemma dispatch_ssl:
  "ss_state s = SslHandshake \<Longrightarrow>
   dispatch_decrypted ops vops codec (ssl_message ch p) s =
     run_coordinator ops vops codec (on_ssl_data_received ops p) s"
  by (simp add: ssl_message_def dispatch_decrypted_def is_handshake_state_def handle_handshake_message_def
      ctl_def)

lemma exchange_run:
  fixes ops :: "'c crypto_ops" and vops :: "'v service_ops" and s :: "('c, 'v) session"
    and ch :: byte and codec :: pb_codec
  assumes "hs_run ops xs (ss_crypto s) = Some (c', outs)"
    and "exchanging svcs fs (length (concat (map ssl_frames outs)) + length (auth_frames codec)) s"
  defines "s' \<equiv> foldl (\<lambda>s x. dispatch_decrypted ops vops codec (ssl_message ch x) s) s xs"
  shows "ss_state s' = Running \<and> ss_crypto s' = c' \<and> ss_services s' = svcs
    \<and> accepted s' = fs @ concat (map ssl_frames outs) @ auth_frames codec"
  using assms(1,2) unfolding s'_def
proof (induction xs arbitrary: s outs fs)
  case (Cons x xs)
  from Cons.prems(1) obtain c1 r where step: "handshake_step ops x (ss_crypto s) = (c1, Inr r)"
    by (auto split: prod.splits sum.splits)
  have ssl: "ss_state s = SslHandshake" using Cons.prems(2) by (simp add: exchanging_def)
  show ?case
  proof (cases "complete r")
    case True
    with Cons.prems(1) step have last: "xs = []" "output_bytes r = []" "c' = c1" "outs = []"
      by (auto split: if_splits)
    with exchange_last [OF _ step True, of svcs fs codec vops] Cons.prems(2) show ?thesis
      by (simp add: dispatch_ssl [OF ssl])
  next
    case False
    with Cons.prems(1) step obtain outs' where est: "\<not> is_established ops c1"
      and rest: "hs_run ops xs c1 = Some (c', outs')" and outs: "outs = output_bytes r # outs'"
      by (auto split: if_splits)
    have ex: "exchanging svcs fs (length (ssl_frames (output_bytes r)) +
        (length (concat (map ssl_frames outs')) + length (auth_frames codec))) s"
      using Cons.prems(2) by (simp add: outs add.assoc)
    note next_s = exchange_step [OF ex step False est, of vops codec]
    show ?thesis
      using Cons.IH [of "run_coordinator ops vops codec (on_ssl_data_received ops x) s" outs'
          "fs @ ssl_frames (output_bytes r)"] next_s rest
      by (simp add: outs dispatch_ssl [OF ssl])
  qed
qed simp

lemma dispatch_version_response:
  assumes "ss_state s = VersionExchange" and "version_accepted vr"
  shows "dispatch_decrypted ops vops codec
      \<lparr>msg_channel = ch, msg_type = ctl VersionResponse, msg_payload = vr\<rparr> s =
    dispatch_decrypted ops vops codec (ssl_message ch [])
      (start_state_timer (ssl_handshake_timeout_ms (ss_config s)) (transition_to SslHandshake s))"
proof -
  let ?s = "start_state_timer (ssl_handshake_timeout_ms (ss_config s)) (transition_to SslHandshake s)"
  have coord: "coord_on_version_response ops vr = on_ssl_data_received ops []"
    using assms(2) by (simp add: fun_eq_iff coord_on_version_response_def begin_ssl_handshake_def
        on_ssl_data_received_def)
  have "ss_state ?s = SslHandshake" by (simp add: start_state_timer_def)
  from dispatch_ssl [OF this, of ops vops codec ch "[]"] show ?thesis
    using assms by (simp only:) (simp add: dispatch_decrypted_def is_handshake_state_def
        handle_handshake_message_def on_version_response_def coord)
qed

text \<open>
  C3. The handshake ends in Running. If the phone accepts the version and the crypto turns
  the phone's SSL messages into a completed handshake, then a session that waits for the
  version response and has room in its queue reaches Running when those messages are
  dispatched, on whatever channel they came, and has sent exactly the crypto's outputs, in
  order and in plaintext, followed by AuthComplete; the services have heard nothing.
\<close>

theorem handshake_completes:
  fixes ops :: "'c crypto_ops" and vops :: "'v service_ops" and s :: "('c, 'v) session"
    and ch :: byte and codec :: pb_codec
  assumes "session_ok s" and "ss_state s = VersionExchange" and "version_accepted vr"
    and "hs_run ops ([] # ins) (ss_crypto s) = Some (c', outs)"
    and "length (ss_write_queue s) + length (concat (map ssl_frames outs))
      + length (auth_frames codec) \<le> kMaxWriteQueueSize"
  defines "s' \<equiv> foldl (\<lambda>s m. dispatch_decrypted ops vops codec m s) s
      (\<lparr>msg_channel = ch, msg_type = ctl VersionResponse, msg_payload = vr\<rparr> # map (ssl_message ch) ins)"
  shows "ss_state s' = Running \<and> ss_crypto s' = c' \<and> ss_services s' = ss_services s
    \<and> accepted s' = accepted s @ concat (map ssl_frames outs) @ auth_frames codec"
proof -
  let ?s = "start_state_timer (ssl_handshake_timeout_ms (ss_config s)) (transition_to SslHandshake s)"
  have ok: "session_ok ?s"
    by (rule micro_step_ok [OF micro_timed assms(1)]) (simp add: needs_timer_def)
  have ex: "exchanging (ss_services s) (accepted s)
      (length (concat (map ssl_frames outs)) + length (auth_frames codec)) ?s"
    using ok assms(5) by (simp add: exchanging_def start_state_timer_def transition_to_def)
  have "hs_run ops ([] # ins) (ss_crypto ?s) = Some (c', outs)"
    using assms(4) by (simp add: start_state_timer_def transition_to_def)
  from exchange_run [OF this ex, of vops ch]
  show ?thesis
    unfolding s'_def foldl.simps foldl_map dispatch_version_response [OF assms(2,3)] by simp
qed


text \<open>A crypto that needs two rounds: it answers the first with a hello and then is done.\<close>

definition two_round_ops :: "nat crypto_ops" where
  "two_round_ops =
     \<lparr>handshake_step = (\<lambda>x n. if n = 0 then (1, Inr \<lparr>output_bytes = [22, 3, 3], complete = False\<rparr>)
        else if x = [] then (n, Inl (ErrAap SslHandshakeFailed))
        else (2, Inr \<lparr>output_bytes = [], complete = True\<rparr>)),
      encrypt = (\<lambda>x n. (n, Inr x)), decrypt = (\<lambda>x n. (n, Inr x)),
      is_established = (\<lambda>n. n = 2), crypto_reset = (\<lambda>n. 0)\<rparr>"

definition waiting_session :: "(nat, service) session" where
  "waiting_session =
     begin_version_exchange two_round_ops (aap_services sample_codec 0) (session_with demo_config 0 [])"

lemma waiting_session_ok: "session_ok waiting_session"
proof -
  let ?env = "\<lparr>env_crypto = two_round_ops, env_services = aap_services sample_codec, env_codec = sample_codec\<rparr>"
  have "session_ok (run_events (session_step ?env) (session_with demo_config 0 []) [(0, EvStart)])"
    by (rule session_run_ok) (simp add: session_enabled_def)
  then show ?thesis by (simp add: session_step_def waiting_session_def Let_def)
qed

theorem handshake_completes_witness:
  "ss_state (foldl (\<lambda>s m. dispatch_decrypted two_round_ops (aap_services sample_codec 0) sample_codec m s)
     waiting_session
     (\<lparr>msg_channel = 0, msg_type = ctl VersionResponse, msg_payload = [0, 1, 0, 1, 0, 0]\<rparr>
       # map (ssl_message 0) [[22, 3, 3, 0]])) = Running"
proof -
  have "ss_state waiting_session = VersionExchange" "ss_crypto waiting_session = 0"
    "length (ss_write_queue waiting_session) = 1"
    by (simp_all add: waiting_session_def begin_version_exchange_def two_round_ops_def session_eval demo_eval)
  moreover have "version_accepted [0, 1, 0, 1, 0, 0]" by code_simp
  moreover have "hs_run two_round_ops ([] # [[22, 3, 3, 0]]) 0 = Some (2, [[22, 3, 3]])"
    by (simp add: two_round_ops_def)
  moreover have "length (concat (map ssl_frames [[22, 3, 3]])) = 1"
    by (simp add: ssl_frames_def session_eval)
  moreover have "length (auth_frames sample_codec) = 1"
    by (simp add: auth_frames_def send_plaintext_control_message_def sample_codec_def session_eval)
  ultimately show ?thesis
    using handshake_completes [OF waiting_session_ok, of "[0, 1, 0, 1, 0, 0]" two_round_ops "[[22, 3, 3, 0]]" 2
        "[[22, 3, 3]]" sample_codec "aap_services sample_codec 0" 0]
    by (simp add: kMaxWriteQueueSize_def)
qed


section \<open>Where the code falls short\<close>

lemma find_after_update:
  assumes "find_service ch s = Some v"
  shows "find_service ch (update_service ch w s) = Some w"
proof -
  have "map_of kvs ch = Some v \<Longrightarrow> map_of (map (\<lambda>kv. if fst kv = ch then (ch, w) else kv) kvs) ch = Some w"
    for kvs by (induction kvs) auto
  with assms show ?thesis by (simp add: find_service_def update_service_def)
qed

lemma find_after_emit [simp]: "find_service ch (emit c s) = find_service ch s"
  by (simp add: find_service_def)

text \<open>
  C38. A stop that the head unit starts ends in an error. In Disconnecting the phone's
  ByeByeResponse makes the control service ask for the session to be closed, and the stop
  that follows this request takes the session to the error state and reports
  SessionTerminated, although the disconnect went as the protocol has it; only the
  bye-bye timeout ends in Disconnected.
\<close>

theorem hu_initiated_stop_ends_in_error:
  fixes ops :: "'c crypto_ops" and codec :: pb_codec and s :: "('c, service) session"
    and now :: int and p :: bytes
  assumes "ss_state s = Disconnecting" and "find_service 0 s = Some (Svc_Control c)"
    and "cs_has_close_cb c" and "\<not> cs_close_triggered c"
  defines "bye \<equiv> \<lparr>msg_channel = 0, msg_type = ctl ByeByeResponse, msg_payload = p\<rparr>"
  defines "s1 \<equiv> dispatch_decrypted ops (aap_services codec now) codec bye s"
  shows "ss_state s1 = Disconnecting \<and> FromService 0 SessionClose \<in> set (ss_log s1)
    \<and> ss_state (do_stop ops (aap_services codec now') s1) = SessionError
    \<and> last (ss_log (do_stop ops (aap_services codec now') s1)) =
        ToObserverError (ErrAap SessionTerminated)
    \<and> ss_state (on_state_timeout (aap_services codec now') s) = Disconnected"
proof -
  let ?c = "Svc_Control (c\<lparr>cs_close_triggered := True\<rparr>)"
  have "s1 = exec_prog ops (aap_services codec now) 0
      (svc_on_message (aap_services codec now) (ctl ByeByeResponse) p (Svc_Control c)) s"
    using assms(1,2) by (simp add: s1_def bye_def dispatch_decrypted_def is_handshake_state_def)
  also have "\<dots> = update_service 0 ?c (emit (FromService 0 SessionClose) (update_service 0 ?c s))"
    using assms(3,4) find_after_update [OF assms(2), of ?c]
    by (simp add: aap_services_def control_on_message_def base_on_message_def control_handlers_def
        control_handler_defs perform_call_def Let_def)
  finally have s1: "s1 = \<dots>" .
  then have state: "ss_state s1 = Disconnecting"
    using assms(1) by (simp add: update_service_def)
  then show ?thesis
    using s1 assms(1) by (simp add: do_stop_def handle_error_live is_terminal_def update_service_def
        on_state_timeout_def complete_disconnect_def)
qed

text \<open>
  A failed send during the handshake does not stop it. If the crypto completes the
  handshake with output still to send, is established already and refuses to encrypt that
  output, the session reports the error, closes the transport and then goes on to Running.
\<close>

theorem failed_send_resurrects_session:
  fixes ops :: "'c crypto_ops" and vops :: "'v service_ops" and s :: "('c, 'v) session"
    and ch :: byte and codec :: pb_codec and x :: bytes
  assumes "ss_state s = SslHandshake"
    and "handshake_step ops x (ss_crypto s) = (c1, Inr \<lparr>output_bytes = out, complete = True\<rparr>)"
    and "out \<noteq> []" and "encoder_send_message ops kControlChannelId (ctl EncapsulatedSsl) out c1 = (c2, Inl ec)"
  defines "s' \<equiv> dispatch_decrypted ops vops codec (ssl_message ch x) s"
  shows "ss_state s' = Running
    \<and> (\<exists>cs ds. ss_log s' = ss_log s @ cs @ ds \<and> TransportClose \<in> set cs
        \<and> ToObserverError ec \<in> set cs \<and> last ds = ToObserverState Running)"
proof -
  let ?e = "handle_error vops ec (s\<lparr>ss_crypto := c2\<rparr>)"
  have run: "s' = transition_to Running (foldl enqueue_write ?e (auth_frames codec))"
    using assms(1-4)
    by (simp add: s'_def dispatch_ssl run_coordinator_def on_ssl_data_received_def auth_frames_def
        handle_handshake_step_result_def perform_hs_action_def on_ssl_complete_def send_message_def)
  have "\<not> is_terminal (ss_state (s\<lparr>ss_crypto := c2\<rparr>))" using assms(1) by (simp add: is_terminal_def)
  note err = handle_error_live [OF this, of vops ec]
  define cs where "cs = [TimerCancel, ToObserverState SessionError, TimerCancel, TransportClose]
    @ snd (close_each vops (ss_services s)) @ [ToObserverError ec]"
  have "ss_log ?e = ss_log s @ cs" by (simp add: err cs_def)
  then obtain ds where "ss_log (foldl enqueue_write ?e (auth_frames codec)) = ss_log s @ cs @ ds"
    using enqueue_all_log [of ?e "auth_frames codec"] by auto
  then have "ss_log s' = ss_log s @ cs @ ds @ [TimerCancel, ToObserverState Running]"
    by (simp add: run transition_to_def)
  moreover have "TransportClose \<in> set cs" "ToObserverError ec \<in> set cs" by (simp_all add: cs_def)
  moreover have "ss_state s' = Running" by (simp add: run)
  ultimately show ?thesis
    by (metis last_appendR last_ConsR last_ConsL list.distinct(1))
qed

theorem hu_initiated_stop_ends_in_error_witness:
  "ss_state (do_stop mock_ops (aap_services sample_codec 2)
     (dispatch_decrypted mock_ops (aap_services sample_codec 1) sample_codec
        \<lparr>msg_channel = 0, msg_type = ctl ByeByeResponse, msg_payload = []\<rparr>
        (demo_session\<lparr>ss_state := Disconnecting\<rparr>))) = SessionError"
proof -
  have "find_service 0 (demo_session\<lparr>ss_state := Disconnecting\<rparr>) = Some (Svc_Control sample_control)"
    by (simp add: find_service_def demo_session_def session_with_def register_service_def new_session_def)
  moreover have "cs_has_close_cb sample_control" "\<not> cs_close_triggered sample_control"
    by (simp_all add: sample_control_def new_control_service_def)
  ultimately show ?thesis
    using hu_initiated_stop_ends_in_error [of "demo_session\<lparr>ss_state := Disconnecting\<rparr>" sample_control
        mock_ops sample_codec 1 "[]" 2]
    by simp
qed

text \<open>A crypto that is done at once, has a last output and cannot encrypt yet.\<close>

definition early_ops :: "bool crypto_ops" where
  "early_ops =
     \<lparr>handshake_step = (\<lambda>x c. (True, Inr \<lparr>output_bytes = [20, 3, 3], complete = True\<rparr>)),
      encrypt = (\<lambda>x c. (c, Inl (ErrAap ErrInternal))), decrypt = (\<lambda>x c. (c, Inr x)),
      is_established = (\<lambda>c. c), crypto_reset = (\<lambda>c. False)\<rparr>"

theorem failed_send_resurrects_session_witness:
  "ss_state (dispatch_decrypted early_ops (aap_services sample_codec 1) sample_codec (ssl_message 0 [1])
     ((session_with demo_config False [])\<lparr>ss_state := SslHandshake\<rparr>)) = Running"
  using failed_send_resurrects_session
    [of "(session_with demo_config False [])\<lparr>ss_state := SslHandshake\<rparr>" early_ops "[1]" True "[20, 3, 3]" True
        "ErrAap ErrInternal" "aap_services sample_codec 1" sample_codec 0]
  by (simp add: early_ops_def encoder_send_message_def encrypt_and_queue_frame_def session_with_def
      new_session_def Let_def)

end
