(* ===== verification/Descriptor.thy ===== *)
theory Descriptor
  imports Protocol "HOL-Library.Sublist"
begin

text \<open>
  The strings in which \<open>AidlEngineController\<close> (\<open>impl/android/aidl\<close>) tells the engine which
  file descriptors to use, and the parser of \<open>AndroidTransportFactory\<close>
  (\<open>impl/android/main/main.cpp\<close>) that reads them back. \<open>std::to_string\<close>, \<open>std::stoi\<close> and
  \<open>std::string::find\<close> are modelled as the standard describes them; the two exceptions of
  \<open>stoi\<close> are values.
\<close>

section \<open>Numbers as text\<close>

definition digit_char :: "nat \<Rightarrow> char" where
  "digit_char d = char_of (48 + d)"

definition is_digit :: "char \<Rightarrow> bool" where
  "is_digit c \<longleftrightarrow> 48 \<le> (of_char c :: nat) \<and> (of_char c :: nat) \<le> 57"

definition digit_value :: "char \<Rightarrow> int" where
  "digit_value c = int (of_char c :: nat) - 48"

fun nat_to_string :: "nat \<Rightarrow> string" where
  "nat_to_string n =
     (if n < 10 then [digit_char n] else nat_to_string (n div 10) @ [digit_char (n mod 10)])"

declare nat_to_string.simps [simp del]

definition to_string :: "int \<Rightarrow> string" where
  "to_string i = (if i < 0 then ''-'' @ nat_to_string (nat (- i)) else nat_to_string (nat i))"

datatype stoi_error = InvalidArgument | OutOfRange

definition is_space :: "char \<Rightarrow> bool" where
  "is_space c \<longleftrightarrow> (of_char c :: nat) = 32 \<or> (9 \<le> (of_char c :: nat) \<and> (of_char c :: nat) \<le> 13)"

definition parse_digits :: "string \<Rightarrow> (stoi_error + int)" where
  "parse_digits s =
     (let ds = takeWhile is_digit s
      in if ds = [] then Inl InvalidArgument
         else Inr (foldl (\<lambda>v c. 10 * v + digit_value c) 0 ds))"

definition check_int :: "int \<Rightarrow> stoi_error + int" where
  "check_int v = (if - (2 ^ 31) \<le> v \<and> v < 2 ^ 31 then Inr v else Inl OutOfRange)"

text \<open>\<open>std::stoi\<close>: white space, a sign, the longest run of digits; the rest is ignored.\<close>

definition stoi :: "string \<Rightarrow> stoi_error + int" where
  "stoi s =
     (let t = dropWhile is_space s;
          neg = (t \<noteq> [] \<and> hd t = CHR ''-'');
          u = (if t \<noteq> [] \<and> (hd t = CHR ''-'' \<or> hd t = CHR ''+'') then tl t else t)
      in case parse_digits u of
           Inl e \<Rightarrow> Inl e
         | Inr v \<Rightarrow> check_int (if neg then - v else v))"

section \<open>Descriptors\<close>

fun find_string :: "string \<Rightarrow> string \<Rightarrow> nat option" where
  "find_string pat s =
     (if prefix pat s then Some 0
      else case s of [] \<Rightarrow> None | c # cs \<Rightarrow> map_option Suc (find_string pat cs))"

declare find_string.simps [simp del]

definition parse_int :: "string \<Rightarrow> string \<Rightarrow> stoi_error + int" where
  "parse_int descriptor key =
     (case find_string (key @ ''='') descriptor of
        None \<Rightarrow> Inr (-1)
      | Some pos \<Rightarrow> stoi (drop (pos + length key + 1) descriptor))"

datatype transport_kind = AndroidUsb int int int | AndroidTcp int

text \<open>
  \<open>AndroidTransportFactory::create\<close>: an exception, no transport, or the transport that is
  wrapped in a started \<open>BufferedTransport\<close>.
\<close>

definition create_usb :: "string \<Rightarrow> stoi_error + transport_kind option" where
  "create_usb descriptor =
     (case parse_int descriptor ''fd'' of Inl e \<Rightarrow> Inl e | Inr fd \<Rightarrow>
      case parse_int descriptor ''ep_in'' of Inl e \<Rightarrow> Inl e | Inr ep_in \<Rightarrow>
      case parse_int descriptor ''ep_out'' of Inl e \<Rightarrow> Inl e | Inr ep_out \<Rightarrow>
        Inr (if fd < 0 \<or> ep_in < 0 \<or> ep_out < 0 then None else Some (AndroidUsb fd ep_in ep_out)))"

definition create_tcp :: "string \<Rightarrow> stoi_error + transport_kind option" where
  "create_tcp descriptor =
     (case parse_int descriptor ''fd'' of Inl e \<Rightarrow> Inl e | Inr fd \<Rightarrow>
        Inr (if fd < 0 then None else Some (AndroidTcp fd)))"

definition create_transport :: "string \<Rightarrow> stoi_error + transport_kind option" where
  "create_transport descriptor =
     (if find_string ''usb:'' descriptor = Some 0 then create_usb descriptor
      else if find_string ''tcp:'' descriptor = Some 0 then create_tcp descriptor
      else Inr None)"

text \<open>The descriptors that \<open>startSession\<close> and \<open>startTcpSession\<close> build.\<close>

definition usb_descriptor :: "int \<Rightarrow> int \<Rightarrow> int \<Rightarrow> string" where
  "usb_descriptor fd ep_in ep_out =
     ''usb:fd='' @ to_string fd @ '',ep_in='' @ to_string ep_in @ '',ep_out='' @ to_string ep_out"

definition tcp_descriptor :: "int \<Rightarrow> string" where
  "tcp_descriptor fd = ''tcp:fd='' @ to_string fd"

section \<open>Reading back what was written\<close>

lemma digit_char_value:
  assumes "d < 10"
  shows "is_digit (digit_char d)" and "digit_value (digit_char d) = int d"
  using assms by (simp_all add: is_digit_def digit_value_def digit_char_def)

lemma nat_to_string_digits: "\<forall>c\<in>set (nat_to_string n). is_digit c"
proof (induction n rule: nat_to_string.induct)
  case (1 n)
  then show ?case by (subst nat_to_string.simps) (auto simp: digit_char_value)
qed

lemma nat_to_string_nonempty: "nat_to_string n \<noteq> []"
  by (subst nat_to_string.simps) simp

lemma nat_to_string_value: "foldl (\<lambda>v c. 10 * v + digit_value c) 0 (nat_to_string n) = int n"
proof (induction n rule: nat_to_string.induct)
  case (1 n)
  then show ?case
    by (subst nat_to_string.simps) (auto simp: digit_char_value zdiv_int zmod_int)
qed

lemma parse_digits_number:
  assumes "\<forall>c\<in>set (take 1 rest). \<not> is_digit c"
  shows "parse_digits (nat_to_string n @ rest) = Inr (int n)"
proof -
  have "takeWhile is_digit rest = []" using assms by (cases rest) auto
  then have "takeWhile is_digit (nat_to_string n @ rest) = nat_to_string n"
    using nat_to_string_digits by (simp add: takeWhile_append2)
  then show ?thesis
    by (simp add: parse_digits_def nat_to_string_nonempty nat_to_string_value)
qed

lemma digit_not_special:
  "is_digit c \<Longrightarrow> \<not> is_space c \<and> c \<noteq> CHR ''-'' \<and> c \<noteq> CHR ''+'' \<and> c \<noteq> CHR ''e'' \<and> c \<noteq> CHR '',''"
  by (auto simp: is_digit_def is_space_def)

text \<open>The range of \<open>int\<close>.\<close>

definition int32 :: "int \<Rightarrow> bool" where
  "int32 i \<longleftrightarrow> - (2 ^ 31) \<le> i \<and> i < 2 ^ 31"

lemma stoi_number:
  assumes "\<forall>c\<in>set (take 1 rest). \<not> is_digit c" and "int32 i"
  shows "stoi (to_string i @ rest) = Inr i"
proof -
  let ?s = "nat_to_string (nat (abs i)) @ rest"
  obtain c cs where c: "nat_to_string (nat (abs i)) = c # cs"
    using nat_to_string_nonempty by (cases "nat_to_string (nat (abs i))") auto
  then have "is_digit c" using nat_to_string_digits [of "nat (abs i)"] by simp
  note special = digit_not_special [OF this]
  have "dropWhile is_space ?s = ?s" "hd ?s \<noteq> CHR ''-''" "hd ?s \<noteq> CHR ''+''" "?s \<noteq> []"
    using special by (simp_all add: c)
  moreover have "parse_digits ?s = Inr (abs i)" using parse_digits_number [OF assms(1), of "nat (abs i)"] by simp
  moreover have "\<not> is_space CHR ''-''" by (simp add: is_space_def)
  ultimately show ?thesis
    using assms(2) by (cases "i < 0") (auto simp: stoi_def to_string_def check_int_def int32_def)
qed

lemma find_skip:
  assumes "\<forall>c\<in>set ds. c \<noteq> p"
  shows "find_string (p # pat) (ds @ s) = map_option (\<lambda>k. length ds + k) (find_string (p # pat) s)"
  using assms
proof (induction ds)
  case Nil
  then show ?case by (cases "find_string (p # pat) s") simp_all
next
  case (Cons d ds)
  then show ?case
    by (cases "find_string (p # pat) s"; subst find_string.simps) auto
qed

lemma to_string_no_e: "\<forall>c\<in>set (to_string i). c \<noteq> CHR ''e''"
  using nat_to_string_digits by (auto simp: to_string_def dest!: digit_not_special)

lemma find_skip_number:
  "find_string (CHR ''e'' # pat) (to_string i @ s) =
    map_option (\<lambda>k. length (to_string i) + k) (find_string (CHR ''e'' # pat) s)"
  using to_string_no_e by (rule find_skip)

lemma find_here: "find_string pat (pat @ s) = Some 0"
  by (subst find_string.simps) simp

lemma parse_int_found:
  assumes "descriptor = pre @ key @ ''='' @ to_string i @ rest"
    and "find_string (key @ ''='') descriptor = Some (length pre)"
    and "\<forall>c\<in>set (take 1 rest). \<not> is_digit c" and "int32 i"
  shows "parse_int descriptor key = Inr i"
proof -
  have "drop (length (pre @ key @ ''='')) ((pre @ key @ ''='') @ to_string i @ rest) = to_string i @ rest"
    by (rule append_eq_conv_conj [THEN iffD1, THEN conjunct2, symmetric]) simp
  then have "drop (length pre + length key + 1) descriptor = to_string i @ rest"
    by (simp add: assms(1))
  then show ?thesis using assms(2) stoi_number [OF assms(3,4)] by (simp add: parse_int_def)
qed

lemma not_digit [simp]: "\<not> is_digit CHR '',''"
  by (simp add: is_digit_def)

lemma find_fd: "find_string ''fd='' (CHR ''u'' # CHR ''s'' # CHR ''b'' # CHR '':'' # ''fd='' @ s) = Some 4"
  "find_string ''fd='' (CHR ''t'' # CHR ''c'' # CHR ''p'' # CHR '':'' # ''fd='' @ s) = Some 4"
  using find_skip [of "''usb:''" "CHR ''f''" "''d=''" "''fd='' @ s"]
    find_skip [of "''tcp:''" "CHR ''f''" "''d=''" "''fd='' @ s"] find_here [of "''fd=''" s]
  by simp_all

lemma find_ep_in:
  "find_string ''ep_in='' (''usb:fd='' @ to_string fd @ '',ep_in='' @ s) =
    Some (8 + length (to_string fd))"
  using find_skip [of "''usb:fd=''" "CHR ''e''" "''p_in=''" "to_string fd @ '',ep_in='' @ s"]
    find_skip_number [of "''p_in=''" fd "'',ep_in='' @ s"]
    find_skip [of "'',''" "CHR ''e''" "''p_in=''" "''ep_in='' @ s"] find_here [of "''ep_in=''" s]
  by simp

lemma find_ep_out:
  "find_string ''ep_out=''
      (''usb:fd='' @ to_string fd @ '',ep_in='' @ to_string ep @ '',ep_out='' @ s) =
    Some (15 + length (to_string fd) + length (to_string ep))"
proof -
  let ?rest = "to_string ep @ '',ep_out='' @ s"
  have "find_string ''ep_out='' (''ep_in='' @ ?rest) = map_option Suc (find_string ''ep_out='' (''p_in='' @ ?rest))"
    by (subst find_string.simps) simp
  then show ?thesis
    using find_skip [of "''usb:fd=''" "CHR ''e''" "''p_out=''" "to_string fd @ '',ep_in='' @ ?rest"]
      find_skip_number [of "''p_out=''" fd "'',ep_in='' @ ?rest"]
      find_skip [of "'',''" "CHR ''e''" "''p_out=''" "''ep_in='' @ ?rest"]
      find_skip [of "''p_in=''" "CHR ''e''" "''p_out=''" "?rest"]
      find_skip_number [of "''p_out=''" ep "'',ep_out='' @ s"]
      find_skip [of "'',''" "CHR ''e''" "''p_out=''" "''ep_out='' @ s"] find_here [of "''ep_out=''" s]
    by simp
qed

text \<open>Every descriptor made of numbers is read, and a negative one gives no transport.\<close>

lemma create_transport_numbers:
  assumes "int32 fd" and "int32 ep_in" and "int32 ep_out"
  shows "create_transport (usb_descriptor fd ep_in ep_out) =
      Inr (if fd < 0 \<or> ep_in < 0 \<or> ep_out < 0 then None else Some (AndroidUsb fd ep_in ep_out))
    \<and> create_transport (tcp_descriptor fd) = Inr (if fd < 0 then None else Some (AndroidTcp fd))"
proof
  let ?u = "usb_descriptor fd ep_in ep_out"
  have "parse_int ?u ''fd'' = Inr fd"
    by (rule parse_int_found [where pre = "''usb:''"
          and rest = "'',ep_in='' @ to_string ep_in @ '',ep_out='' @ to_string ep_out"])
       (use find_fd(1) assms in \<open>simp_all add: usb_descriptor_def\<close>)
  moreover have "parse_int ?u ''ep_in'' = Inr ep_in"
    by (rule parse_int_found [where pre = "''usb:fd='' @ to_string fd @ '',''"
          and rest = "'',ep_out='' @ to_string ep_out"])
       (use find_ep_in [of fd] assms in \<open>simp_all add: usb_descriptor_def\<close>)
  moreover have "parse_int ?u ''ep_out'' = Inr ep_out"
    by (rule parse_int_found [where pre = "''usb:fd='' @ to_string fd @ '',ep_in='' @ to_string ep_in @ '',''"
          and rest = "[]"])
       (use find_ep_out [of fd ep_in] assms in \<open>simp_all add: usb_descriptor_def\<close>)
  moreover have "find_string ''usb:'' ?u = Some 0"
    by (subst find_string.simps) (simp add: usb_descriptor_def)
  ultimately show "create_transport ?u = Inr (if fd < 0 \<or> ep_in < 0 \<or> ep_out < 0 then None
      else Some (AndroidUsb fd ep_in ep_out))"
    using assms by (simp add: create_transport_def create_usb_def)
next
  have "parse_int (tcp_descriptor fd) ''fd'' = Inr fd"
    by (rule parse_int_found [where pre = "''tcp:''" and rest = "[]"])
       (use find_fd(2) assms in \<open>simp_all add: tcp_descriptor_def\<close>)
  moreover have "find_string ''usb:'' (tcp_descriptor fd) \<noteq> Some 0"
    by (subst find_string.simps) (auto simp: tcp_descriptor_def)
  moreover have "find_string ''tcp:'' (tcp_descriptor fd) = Some 0"
    by (subst find_string.simps) (simp add: tcp_descriptor_def)
  ultimately show "create_transport (tcp_descriptor fd) = Inr (if fd < 0 then None else Some (AndroidTcp fd))"
    using assms by (simp add: create_transport_def create_tcp_def)
qed

lemma create_transport_descriptors:
  assumes "0 \<le> fd" and "fd < 2 ^ 31" and "0 \<le> ep_in" and "ep_in < 2 ^ 31"
    and "0 \<le> ep_out" and "ep_out < 2 ^ 31"
  shows "create_transport (usb_descriptor fd ep_in ep_out) = Inr (Some (AndroidUsb fd ep_in ep_out))
    \<and> create_transport (tcp_descriptor fd) = Inr (Some (AndroidTcp fd))"
  using create_transport_numbers [of fd ep_in ep_out] assms by (simp add: int32_def)

lemma int32_sint: "int32 (sint (w :: 32 word))"
  using sint_less [of w] sint_ge [of w] by (simp add: int32_def)

text \<open>
  C39. The factory opens what the AIDL layer was given. Every descriptor that \<open>startSession\<close> or
  \<open>startTcpSession\<close> builds, from any \<open>int\<close> as file descriptor and any two \<open>int32_t\<close> as endpoint addresses,
  is read back as exactly these numbers: it gives the transport on them, or none if one of them is
  negative, and reading it never throws.
\<close>

theorem descriptor_roundtrip:
  fixes ep_in ep_out :: "32 word"
  assumes "int32 fd"
  shows "create_transport (usb_descriptor fd (sint ep_in) (sint ep_out)) =
      Inr (if fd < 0 \<or> sint ep_in < 0 \<or> sint ep_out < 0 then None
           else Some (AndroidUsb fd (sint ep_in) (sint ep_out)))
    \<and> create_transport (tcp_descriptor fd) = Inr (if fd < 0 then None else Some (AndroidTcp fd))"
  using create_transport_numbers [OF assms int32_sint int32_sint] by blast

theorem descriptor_roundtrip_witness:
  "create_transport (usb_descriptor 42 129 1) = Inr (Some (AndroidUsb 42 129 1))"
  using descriptor_roundtrip [of 42 129 1] by (simp add: int32_def)

text \<open>
  A malformed descriptor takes the engine down. A key without a number behind it makes
  the parser throw, for each of the two transports; the factory does not catch it and
  neither does its caller, unlike for a missing key or a negative number, where there is
  just no transport.
\<close>

theorem malformed_descriptor_throws:
  assumes "\<forall>c\<in>set (take 1 rest). \<not> is_digit c \<and> \<not> is_space c \<and> c \<noteq> CHR ''-'' \<and> c \<noteq> CHR ''+''"
  shows "create_transport (''tcp:fd='' @ rest) = Inl InvalidArgument
    \<and> create_transport (''usb:fd='' @ rest) = Inl InvalidArgument
    \<and> create_transport ''tcp:'' = Inr None \<and> create_transport ''tcp:fd=-1'' = Inr None"
proof -
  have "stoi rest = Inl InvalidArgument"
    using assms by (cases rest) (simp_all add: stoi_def parse_digits_def)
  then have fd: "parse_int (''tcp:fd='' @ rest) ''fd'' = Inl InvalidArgument"
    "parse_int (''usb:fd='' @ rest) ''fd'' = Inl InvalidArgument"
    using find_fd [of rest] by (simp_all add: parse_int_def)
  have prefixes: "find_string ''usb:'' (''usb:fd='' @ rest) = Some 0"
    "find_string ''tcp:'' (''tcp:fd='' @ rest) = Some 0" "find_string ''usb:'' (''tcp:fd='' @ rest) \<noteq> Some 0"
    by (subst find_string.simps, simp, (simp split: option.split)?)+
  have "create_transport ''tcp:'' = Inr None" "create_transport ''tcp:fd=-1'' = Inr None"
    by code_simp+
  then show ?thesis
    using fd prefixes by (simp add: create_transport_def create_tcp_def create_usb_def)
qed

theorem malformed_descriptor_throws_witness:
  "create_transport ''tcp:fd=socket'' = Inl InvalidArgument"
  using malformed_descriptor_throws [of "''socket''"] by (simp add: is_digit_def is_space_def)

end
