(* ===== verification/Android.thy ===== *)
theory Android
  imports Descriptor Services
begin

text \<open>
  What the Android daemon puts around the core: the two sinks that pass media on to a
  callback (\<open>core/include/aauto/sink/\<close>), and \<open>AndroidServiceFactory\<close>
  (\<open>impl/android/main/main.cpp\<close>), which decides what services a session has.

  The callbacks of the factory are set when it is made; each carries the session id that
  was current when the services were created. A call to one of them is the call the
  service or sink makes.
\<close>

section \<open>Sinks\<close>

definition callback_video_sink :: "video_call \<Rightarrow> (bytes \<times> i64 \<times> bool) option" where
  "callback_video_sink c =
     (case c of
        VSetWindow w \<Rightarrow> None
      | VConfigure cfg \<Rightarrow> None
      | VCodecConfig data ts \<Rightarrow> Some (data, ts, True)
      | VData data ts \<Rightarrow> Some (data, ts, False)
      | VStop \<Rightarrow> None)"

primrec stream_code :: "audio_stream_type \<Rightarrow> u32" where
  "stream_code StreamMedia = 1"
| "stream_code StreamGuidance = 2"
| "stream_code StreamSystem = 3"
| "stream_code StreamCall = 4"

text \<open>The state is \<open>stream_type_\<close>; a fresh sink has \<open>StreamMedia\<close>.\<close>

definition callback_audio_sink ::
    "audio_stream_type \<Rightarrow> audio_call \<Rightarrow> audio_stream_type \<times> (u32 \<times> bytes \<times> i64) option" where
  "callback_audio_sink st c =
     (case c of
        AConfigure cfg st' \<Rightarrow> (st', None)
      | ACodecConfig data \<Rightarrow> (st, None)
      | AData data ts \<Rightarrow> (st, Some (stream_code st, data, ts))
      | AStop \<Rightarrow> (st, None))"

primrec audio_app_data :: "audio_stream_type \<Rightarrow> audio_call list \<Rightarrow> (u32 \<times> bytes \<times> i64) list" where
  "audio_app_data st [] = []"
| "audio_app_data st (c # cs) =
     (let (st1, out) = callback_audio_sink st c
      in (case out of None \<Rightarrow> [] | Some d \<Rightarrow> [d]) @ audio_app_data st1 cs)"

section \<open>The services of a session\<close>

record platform_config = headunit_config +
  hu_video_width :: u32
  hu_video_height :: u32
  hu_video_fps :: u32
  hu_video_density :: u32
  hu_audio_sample_rate :: u32
  hu_audio_bit_depth :: u32
  hu_audio_channels :: u32
  hu_bluetooth_mac :: string

definition default_platform_config :: platform_config where
  "default_platform_config =
     \<lparr>hu_make = ''TCC'', hu_model = ''TCC803x'', hu_sw_ver = ''1.0.0'',
      display_name = ''Android Auto'', hu_video_width = 800, hu_video_height = 480,
      hu_video_fps = 30, hu_video_density = 160, hu_audio_sample_rate = 48000,
      hu_audio_bit_depth = 16, hu_audio_channels = 2, hu_bluetooth_mac = ''02:00:00:00:00:00''\<rparr>"

text \<open>The configuration \<open>main\<close> starts with.\<close>

definition daemon_config :: platform_config where
  "daemon_config = default_platform_config
     \<lparr>hu_make := ''Telechips'', hu_model := ''TCC803x'', hu_sw_ver := ''1.0.0'',
      display_name := ''Android Auto'', hu_video_width := 1280, hu_video_height := 720,
      hu_video_fps := 30, hu_video_density := 160\<rparr>"

definition set_bluetooth_mac :: "string \<Rightarrow> platform_config \<Rightarrow> platform_config" where
  "set_bluetooth_mac mac hu = hu\<lparr>hu_bluetooth_mac := mac\<rparr>"

definition make_audio :: "audio_stream_type \<Rightarrow> u32 \<Rightarrow> u32 \<Rightarrow> u32 \<Rightarrow> service" where
  "make_audio st rate bits channels =
     Svc_Audio (new_audio_service
       \<lparr>as_stream_type = st, as_sample_rate = rate, as_bit_depth = bits, as_channel_count = channels\<rparr> 1)"

definition create_services :: "platform_config \<Rightarrow> (int \<times> service) list" where
  "create_services hu =
     [(1, Svc_Video ((new_video_service
            \<lparr>vs_width = hu_video_width hu, vs_height = hu_video_height hu, vs_fps = hu_video_fps hu,
             vs_density = hu_video_density hu, vs_display_type = DisplayMain, vs_display_id = 0\<rparr> 1)
            \<lparr>vid_has_focus_cb := True\<rparr>)),
      (2, make_audio StreamMedia (hu_audio_sample_rate hu) (hu_audio_bit_depth hu) (hu_audio_channels hu)),
      (3, make_audio StreamGuidance 16000 16 1),
      (4, make_audio StreamSystem 16000 16 1),
      (5, Svc_Input \<lparr>channel_id = 0, in_touch_width = hu_video_width hu, in_touch_height = hu_video_height hu\<rparr>),
      (6, Svc_Sensor \<lparr>channel_id = 0\<rparr>),
      (7, Svc_Microphone \<lparr>channel_id = 0, mic_sample_rate = 16000, mic_channels = 1, mic_bits_per_sample = 16\<rparr>),
      (9, Svc_Phone \<lparr>channel_id = 0, ps_has_status_cb = False, last_seen = False, last_call_count = 0,
            last_first_state = -1, last_first_number = [], last_signal = -2\<rparr>),
      (10, Svc_Playback (new_playback_service\<lparr>mp_has_status_cb := True, mp_has_metadata_cb := True\<rparr>)),
      (13, Svc_Bluetooth \<lparr>channel_id = 0, bt_car_address = hu_bluetooth_mac hu,
             bt_has_pairing_cb = True, bt_has_auth_cb = True\<rparr>)]"

section \<open>Properties\<close>

lemma audio_app_stream:
  assumes "follows audio_next configured cs \<noteq> None" and "\<forall>cfg st'. AConfigure cfg st' \<in> set cs \<longrightarrow> st' = T"
    and "configured \<longrightarrow> st = T" and "d \<in> set (audio_app_data st cs)"
  shows "fst d = stream_code T"
  using assms
proof (induction cs arbitrary: configured st)
  case (Cons c cs)
  obtain ph where ph: "audio_next configured c = Some ph" "follows audio_next ph cs \<noteq> None"
    using Cons.prems(1) by (auto split: option.splits)
  let ?st = "fst (callback_audio_sink st c)"
  have "ph \<longrightarrow> ?st = T" and out: "snd (callback_audio_sink st c) = Some d \<longrightarrow> fst d = stream_code T"
    using Cons.prems(2,3) ph(1)
    by (auto simp: audio_next_def callback_audio_sink_def split: audio_call.splits if_splits)
  note IH = Cons.IH [OF ph(2) _ this(1)]
  show ?case
    using Cons.prems(2,4) IH out by (auto simp: split_beta Let_def split: option.splits)
qed simp

text \<open>
  The application hears every stream under its own name. Through any sequence of
  messages, attachments and closes, all the audio that a fresh service delivers to its
  callback sink is passed on with the stream type the service was created for.
\<close>

theorem audio_reaches_app_as_its_stream:
  "fst ` set (audio_app_data StreamMedia (audio_sink_calls 0
     (snd (run_ops (audio_step codec) (new_audio_service cfg 1) es)))) \<subseteq> {stream_code (as_stream_type cfg)}"
proof -
  let ?cs = "audio_sink_calls 0 (snd (run_ops (audio_step codec) (new_audio_service cfg 1) es))"
  have "follows audio_next False ?cs \<noteq> None"
    using audio_life.run_follows [of 0 "new_audio_service cfg 1" codec es]
    by (simp add: new_audio_service_def)
  moreover have "\<forall>c st. AConfigure c st \<in> set ?cs \<longrightarrow> st = as_stream_type cfg"
    using audio_run_configures [of 0 _ _ codec "new_audio_service cfg 1" es]
    by (auto simp: in_audio_sink_calls new_audio_service_def)
  ultimately show ?thesis using audio_app_stream [of False ?cs "as_stream_type cfg" StreamMedia] by auto
qed

text \<open>The services of a session have distinct channels and no sink is attached to any of them.\<close>

definition sinks_attached :: "service \<Rightarrow> bool" where
  "sinks_attached svc \<longleftrightarrow>
     (case svc of Svc_Audio s \<Rightarrow> aud_sinks_active s | Svc_Video s \<Rightarrow> vid_sinks_active s | _ \<Rightarrow> False)"

lemma create_services_fresh:
  "map fst (create_services hu) = [1, 2, 3, 4, 5, 6, 7, 9, 10, 13]"
  "\<forall>kv\<in>set (create_services hu). \<not> sinks_attached (snd kv)"
  by (simp_all add: create_services_def sinks_attached_def make_audio_def new_audio_service_def
      new_video_service_def)

end
