(* ===== verification/Engine.thy ===== *)
theory Engine
  imports Session_Handshake Android
begin

text \<open>
  \<open>Engine\<close> (\<open>core/src/engine/Engine.cpp\<close>): many sessions behind one controller. Every
  request of the application is posted to the io context and run later; \<open>eng_tasks\<close> is that
  queue. The daemon runs the io context on one thread, so tasks run one at a time, in the
  order in which they were posted.

  A session object outlives its entry in \<open>sessions_\<close>, because completion handlers and
  posted tasks hold it: \<open>eng_objects\<close> has all the objects, \<open>eng_sessions\<close> the keys of the
  map. A session owns the transport it was created with (\<open>eng_transports\<close>; what the transport
  does is the subject of \<open>Stack\<close> and the theories on top of it). While a session works, its
  observer is the engine; the engine's reaction to each of the session's calls follows the
  order of the calls, and nothing in it acts back on the session at once.

  One queue stands for the io context and for the strands of the sessions. Asio runs the posts
  to one strand in their order, but may run them together, before other posts that came
  earlier; no property of the development rests on the order between different strands.

  The factories are parameters of the model (\<open>engine_env\<close>). An exception from the transport
  factory is not caught anywhere and ends the process, like \<open>shutdown\<close>: afterwards no task
  runs.
\<close>

section \<open>State\<close>

datatype session_status =
  StConnecting | StHandshaking | StRunning | StDisconnecting | StDisconnected | StError

datatype engine_call =
    CbState u32 session_status
  | CbError u32 error_code string
  | CbPhoneIdentified u32 string
  | OfSession u32 session_call   \<comment> \<open>what a session does towards its transport, timers and sinks\<close>

datatype engine_task =
    TaskStart string u32
  | TaskStop u32
  | TaskStopAll
  | TaskSetActive u32
  | TaskBroadcast u32 broadcast
  | TaskPairing u32 i32 bool
  | TaskAuth u32 i32
  | TaskSession u32 session_event   \<comment> \<open>posted by a session to its strand\<close>

record 'c engine =
  eng_tasks :: "engine_task list"
  eng_objects :: "u32 \<rightharpoonup> ('c, service) session"
  eng_transports :: "u32 \<rightharpoonup> transport_kind"   \<comment> \<open>\<open>transport_\<close> of the sessions\<close>
  eng_sessions :: "u32 list"
  eng_active :: u32
  eng_next :: u32
  eng_has_callback :: bool
  eng_stopped :: bool
  eng_log :: "engine_call list"

record 'c engine_env =
  ee_transport :: "string \<Rightarrow> stoi_error + transport_kind option"
  ee_crypto :: "'c crypto_ops"
  ee_new_crypto :: 'c
  ee_services :: "u32 \<Rightarrow> (int \<times> service) list"
  ee_codec :: pb_codec
  ee_config :: headunit_config

definition new_engine :: "'c engine" where
  "new_engine =
     \<lparr>eng_tasks = [], eng_objects = Map.empty, eng_transports = Map.empty, eng_sessions = [], eng_active = 0, eng_next = 1,
      eng_has_callback = False, eng_stopped = False, eng_log = []\<rparr>"

definition session_env_of :: "'c engine_env \<Rightarrow> ('c, service) session_env" where
  "session_env_of env =
     \<lparr>env_crypto = ee_crypto env, env_services = aap_services (ee_codec env), env_codec = ee_codec env\<rparr>"

definition eng_emit :: "engine_call \<Rightarrow> 'c engine \<Rightarrow> 'c engine" where
  "eng_emit c e = e\<lparr>eng_log := eng_log e @ [c]\<rparr>"

definition callback :: "engine_call \<Rightarrow> 'c engine \<Rightarrow> 'c engine" where
  "callback c e = (if eng_has_callback e then eng_emit c e else e)"

definition post :: "engine_task \<Rightarrow> 'c engine \<Rightarrow> 'c engine" where
  "post t e = e\<lparr>eng_tasks := eng_tasks e @ [t]\<rparr>"

section \<open>Observing the sessions\<close>

primrec session_status_of :: "session_state \<Rightarrow> session_status" where
  "session_status_of Idle = StConnecting"
| "session_status_of VersionExchange = StHandshaking"
| "session_status_of SslHandshake = StHandshaking"
| "session_status_of Running = StRunning"
| "session_status_of Disconnecting = StDisconnecting"
| "session_status_of Disconnected = StDisconnected"
| "session_status_of SessionError = StError"

definition cleanup_session :: "u32 \<Rightarrow> 'c engine \<Rightarrow> 'c engine" where
  "cleanup_session sid e =
     (let e1 = e\<lparr>eng_sessions := removeAll sid (eng_sessions e)\<rparr>
      in if eng_active e1 = sid then e1\<lparr>eng_active := 0\<rparr> else e1)"

definition on_session_state_changed :: "u32 \<Rightarrow> session_state \<Rightarrow> 'c engine \<Rightarrow> 'c engine" where
  "on_session_state_changed sid st e =
     callback (CbState sid (session_status_of st))
       (if is_terminal st then cleanup_session sid e else e)"

definition error_message :: "error_code \<Rightarrow> string" where
  "error_message ec = (case ec of ErrAap e \<Rightarrow> errc_text e | _ \<Rightarrow> [])"

definition on_session_error :: "u32 \<Rightarrow> error_code \<Rightarrow> 'c engine \<Rightarrow> 'c engine" where
  "on_session_error sid ec e = callback (CbError sid ec (error_message ec)) e"

text \<open>The callbacks that the engine gives to the session and to its control service.\<close>

definition react :: "u32 \<Rightarrow> 'c engine \<Rightarrow> session_call \<Rightarrow> 'c engine" where
  "react sid e c =
     (case c of
        ToObserverState st \<Rightarrow> on_session_state_changed sid st e
      | ToObserverError ec \<Rightarrow> on_session_error sid ec e
      | FromService ch l \<Rightarrow>
          (case l of
             SessionClose \<Rightarrow> post (TaskSession sid EvStop) e
           | PhoneIdentified name \<Rightarrow> callback (CbPhoneIdentified sid name) e
           | _ \<Rightarrow> eng_emit (OfSession sid c) e)
      | _ \<Rightarrow> eng_emit (OfSession sid c) e)"

text \<open>An event of a session, and what its calls make the engine do.\<close>

definition eng_session_event ::
    "'c engine_env \<Rightarrow> int \<Rightarrow> u32 \<Rightarrow> session_event \<Rightarrow> 'c engine \<Rightarrow> 'c engine" where
  "eng_session_event env now sid ev e =
     (case eng_objects e sid of
        None \<Rightarrow> e
      | Some s \<Rightarrow>
          let s' = session_step (session_env_of env) s (now, ev)
          in foldl (react sid) (e\<lparr>eng_objects := (eng_objects e)(sid \<mapsto> s')\<rparr>)
               (drop (length (ss_log s)) (ss_log s')))"

section \<open>Starting a session\<close>

definition create_control_service ::
    "'c engine_env \<Rightarrow> (int \<times> service) list \<Rightarrow> control_service" where
  "create_control_service env peers =
     set_channel kControlChannelId
       ((new_control_service (ee_config env) (map (\<lambda>(i, svc). (i, service_fill_config svc)) peers))
          \<lparr>cs_has_close_cb := True, cs_has_phone_cb := True\<rparr>)"

definition assign_channels :: "(int \<times> service) list \<Rightarrow> (int \<times> service) list" where
  "assign_channels peers = map (\<lambda>(i, svc). (i, service_set_channel (word_of_int i) svc)) peers"

definition register_services ::
    "(int \<times> service) list \<Rightarrow> control_service \<Rightarrow> ('c, service) session \<Rightarrow> ('c, service) session" where
  "register_services peers control s =
     foldl (\<lambda>s (i, svc). register_service (word_of_int i) svc s)
       (register_service kControlChannelId (Svc_Control control) s) peers"

definition create_session :: "'c engine_env \<Rightarrow> u32 \<Rightarrow> ('c, service) session" where
  "create_session env sid = new_session (default_session_config sid) (ee_new_crypto env)"

text \<open>
  The implicit opening of the control channel runs before the service is registered; its
  calls are the session's first ones.
\<close>

definition session_with_services ::
    "'c engine_env \<Rightarrow> int \<Rightarrow> u32 \<Rightarrow> ('c, service) session" where
  "session_with_services env now sid =
     (let peers = assign_channels (ee_services env sid);
          (control, calls) =
            run_prog (control_on_channel_open now kControlChannelId (create_control_service env peers));
          s = foldl (\<lambda>s c. perform_call (ee_crypto env) (aap_services (ee_codec env) now) kControlChannelId c s)
                (create_session env sid) calls
      in register_services peers control s)"

definition report_start_session_failure :: "u32 \<Rightarrow> string \<Rightarrow> 'c engine \<Rightarrow> 'c engine" where
  "report_start_session_failure sid detail e =
     callback (CbError sid (ErrAap TransportClosed) detail) e"

definition do_start_session :: "'c engine_env \<Rightarrow> int \<Rightarrow> string \<Rightarrow> u32 \<Rightarrow> 'c engine \<Rightarrow> 'c engine" where
  "do_start_session env now descriptor sid e =
     (case ee_transport env descriptor of
        Inl exn \<Rightarrow> e\<lparr>eng_stopped := True\<rparr>
      | Inr None \<Rightarrow> report_start_session_failure sid ''failed to create transport'' e
      | Inr (Some t) \<Rightarrow>
          let s = session_with_services env now sid
          in post (TaskSession sid EvStart)
               (foldl (react sid)
                 (e\<lparr>eng_objects := (eng_objects e)(sid \<mapsto> s),
                    eng_transports := (eng_transports e)(sid \<mapsto> t),
                    eng_sessions := insort sid (removeAll sid (eng_sessions e))\<rparr>)
                 (ss_log s)))"

section \<open>Tasks\<close>

definition on_session :: "u32 \<Rightarrow> ('c engine \<Rightarrow> 'c engine) \<Rightarrow> 'c engine \<Rightarrow> 'c engine" where
  "on_session sid f e = (if sid \<in> set (eng_sessions e) then f e else e)"

text \<open>\<open>Session::stop\<close> posts to the strand.\<close>

definition stop_task :: "u32 \<Rightarrow> 'c engine \<Rightarrow> 'c engine" where
  "stop_task sid e = on_session sid (post (TaskSession sid EvStop)) e"

definition stop_all_task :: "'c engine \<Rightarrow> 'c engine" where
  "stop_all_task e = foldl (\<lambda>e sid. post (TaskSession sid EvStop) e) e (eng_sessions e)"

definition set_active_task :: "'c engine_env \<Rightarrow> int \<Rightarrow> u32 \<Rightarrow> 'c engine \<Rightarrow> 'c engine" where
  "set_active_task env now sid e =
     (if eng_active e = sid then e
      else let prev = eng_active e;
               e1 = (if prev \<noteq> 0
                     then on_session prev (eng_session_event env now prev (EvBroadcast BcDetachSinks)) e else e);
               e2 = e1\<lparr>eng_active := sid\<rparr>
           in if sid \<noteq> 0
              then on_session sid (eng_session_event env now sid (EvBroadcast BcAttachSinks)) e2 else e2)"

definition run_task :: "'c engine_env \<Rightarrow> int \<Rightarrow> engine_task \<Rightarrow> 'c engine \<Rightarrow> 'c engine" where
  "run_task env now t e =
     (case t of
        TaskStart descriptor sid \<Rightarrow> do_start_session env now descriptor sid e
      | TaskStop sid \<Rightarrow> stop_task sid e
      | TaskStopAll \<Rightarrow> stop_all_task e
      | TaskSetActive sid \<Rightarrow> set_active_task env now sid e
      | TaskBroadcast sid b \<Rightarrow> on_session sid (eng_session_event env now sid (EvBroadcast b)) e
      | TaskPairing sid status paired \<Rightarrow>
          on_session sid (eng_session_event env now sid (EvPairing status paired)) e
      | TaskAuth sid status \<Rightarrow> on_session sid (eng_session_event env now sid (EvAuth status)) e
      | TaskSession sid ev \<Rightarrow> eng_session_event env now sid ev e)"

section \<open>The controller interface\<close>

definition start_session :: "string \<Rightarrow> 'c engine \<Rightarrow> u32 \<times> 'c engine" where
  "start_session descriptor e =
     (eng_next e, post (TaskStart descriptor (eng_next e)) (e\<lparr>eng_next := eng_next e + 1\<rparr>))"

datatype engine_request =
    ReqStart string
  | ReqStop u32
  | ReqStopAll
  | ReqSetActive u32
  | ReqBroadcast u32 broadcast   \<comment> \<open>surface, video focus, sinks, touch, key, audio focus\<close>
  | ReqPairing u32 i32 bool
  | ReqAuth u32 i32

definition request :: "engine_request \<Rightarrow> 'c engine \<Rightarrow> 'c engine" where
  "request r e =
     (case r of
        ReqStart descriptor \<Rightarrow> snd (start_session descriptor e)
      | ReqStop sid \<Rightarrow> post (TaskStop sid) e
      | ReqStopAll \<Rightarrow> post TaskStopAll e
      | ReqSetActive sid \<Rightarrow> post (TaskSetActive sid) e
      | ReqBroadcast sid b \<Rightarrow> post (TaskBroadcast sid b) e
      | ReqPairing sid status paired \<Rightarrow> post (TaskPairing sid status paired) e
      | ReqAuth sid status \<Rightarrow> post (TaskAuth sid status) e)"

section \<open>Events\<close>

text \<open>
  What drives the engine: requests, the io context running its next task, and completions
  of the sessions' reads, writes and timers, which run on the same io context.
\<close>

datatype engine_event =
    EeRegisterCallback
  | EeRequest engine_request
  | EeRun int
  | EeSession int u32 session_event
  | EeShutdown

definition engine_step :: "'c engine_env \<Rightarrow> 'c engine \<Rightarrow> engine_event \<Rightarrow> 'c engine" where
  "engine_step env e ev =
     (case ev of
        EeRegisterCallback \<Rightarrow> e\<lparr>eng_has_callback := True\<rparr>
      | EeRequest r \<Rightarrow> request r e
      | EeRun now \<Rightarrow>
          (if eng_stopped e then e
           else case eng_tasks e of
                  [] \<Rightarrow> e
                | t # ts \<Rightarrow> run_task env now t (e\<lparr>eng_tasks := ts\<rparr>))
      | EeSession now sid sev \<Rightarrow> (if eng_stopped e then e else eng_session_event env now sid sev e)
      | EeShutdown \<Rightarrow> e\<lparr>eng_stopped := True\<rparr>)"

end
