(* ===== verification/Engine_Properties.thy ===== *)
theory Engine_Properties
  imports Engine
begin

text \<open>
  The engine's invariant: what is in the map of sessions is alive, every session keeps its
  own invariant whatever the engine does to it, ids are fresh, and what the application was
  last told about a session is the state the session is in.
\<close>

section \<open>What the engine does with the calls of a session\<close>

definition ends :: "session_call list \<Rightarrow> bool" where
  "ends cs \<longleftrightarrow> (\<exists>st. is_terminal st \<and> ToObserverState st \<in> set cs)"

lemma ends_simps [simp]:
  "\<not> ends []"
  "ends (c # cs) \<longleftrightarrow> (\<exists>st. is_terminal st \<and> c = ToObserverState st) \<or> ends cs"
  by (auto simp: ends_def)

lemmas react_defs = react_def on_session_state_changed_def on_session_error_def callback_def
  eng_emit_def post_def cleanup_session_def Let_def

lemma react_step [simp]:
  "eng_objects (react sid e c) = eng_objects e"
  "eng_next (react sid e c) = eng_next e"
  "eng_has_callback (react sid e c) = eng_has_callback e"
  "eng_stopped (react sid e c) = eng_stopped e"
  "eng_sessions (react sid e c) =
     (if ends [c] then removeAll sid (eng_sessions e) else eng_sessions e)"
  "eng_active (react sid e c) = (if ends [c] \<and> eng_active e = sid then 0 else eng_active e)"
  by (auto simp: react_defs split: session_call.split local_call.split)

lemma react_transports: "eng_transports (react sid e c) = eng_transports e"
  by (auto simp: react_defs split: session_call.split local_call.split)

lemma react_all [simp]:
  "eng_objects (foldl (react sid) e cs) = eng_objects e"
  "eng_next (foldl (react sid) e cs) = eng_next e"
  "eng_has_callback (foldl (react sid) e cs) = eng_has_callback e"
  "eng_stopped (foldl (react sid) e cs) = eng_stopped e"
  by (induction cs arbitrary: e) simp_all

lemma react_sessions [simp]:
  "eng_sessions (foldl (react sid) e cs) =
     (if ends cs then removeAll sid (eng_sessions e) else eng_sessions e)"
  by (induction cs arbitrary: e) auto

lemma react_active [simp]:
  "eng_active (foldl (react sid) e cs) = (if ends cs \<and> eng_active e = sid then 0 else eng_active e)"
  by (induction cs arbitrary: e) auto

lemma react_tasks: "\<exists>ts. eng_tasks (foldl (react sid) e cs) = eng_tasks e @ ts
    \<and> (\<forall>t\<in>set ts. t = TaskSession sid EvStop)"
proof (induction cs arbitrary: e)
  case (Cons c cs)
  have "\<exists>ts. eng_tasks (react sid e c) = eng_tasks e @ ts \<and> (\<forall>t\<in>set ts. t = TaskSession sid EvStop)"
    by (auto simp: react_defs split: session_call.split local_call.split)
  with Cons.IH [of "react sid e c"] show ?case by fastforce
qed simp

lemma observe_alive:
  "\<not> ends cs \<Longrightarrow> \<not> is_terminal st \<Longrightarrow> \<not> is_terminal (foldl observe st cs)"
proof (induction cs arbitrary: st)
  case (Cons c cs)
  have "\<not> is_terminal (observe st c)" using Cons.prems by (cases c) auto
  then show ?case using Cons by simp
qed simp

section \<open>The invariant\<close>

definition starting :: "engine_task list \<Rightarrow> u32 list" where
  "starting ts = List.map_filter (\<lambda>t. case t of TaskStart d sid \<Rightarrow> Some sid | _ \<Rightarrow> None) ts"

text \<open>Ids in use lie below the next one, and those still to be started are all different.\<close>

definition ids_fresh :: "'c engine \<Rightarrow> bool" where
  "ids_fresh e \<longleftrightarrow> eng_next e \<noteq> 0 \<and> distinct (starting (eng_tasks e))
     \<and> (\<forall>sid\<in>set (starting (eng_tasks e)) \<union> dom (eng_objects e). sid \<noteq> 0 \<and> sid < eng_next e)
     \<and> set (starting (eng_tasks e)) \<inter> dom (eng_objects e) = {}"

text \<open>What the application was last told.\<close>

definition told :: "u32 \<Rightarrow> session_status \<Rightarrow> engine_call \<Rightarrow> session_status" where
  "told sid st c = (case c of CbState k v \<Rightarrow> (if k = sid then v else st) | _ \<Rightarrow> st)"

definition last_told :: "u32 \<Rightarrow> engine_call list \<Rightarrow> session_status" where
  "last_told sid log = foldl (told sid) StConnecting log"

definition engine_ok :: "'c engine \<Rightarrow> bool" where
  "engine_ok e \<longleftrightarrow> ids_fresh e \<and> eng_has_callback e \<and> distinct (eng_sessions e)
     \<and> (\<forall>sid s. eng_objects e sid = Some s \<longrightarrow>
          session_ok s \<and> last_told sid (eng_log e) = session_status_of (ss_state s))
     \<and> (\<forall>sid. eng_objects e sid = None \<longrightarrow> last_told sid (eng_log e) = StConnecting)
     \<and> (\<forall>sid st. eng_objects e sid = None \<longrightarrow> CbState sid st \<notin> set (eng_log e))
     \<and> (\<forall>sid\<in>set (eng_sessions e). \<exists>s. eng_objects e sid = Some s \<and> \<not> is_terminal (ss_state s))"

text \<open>
  The contracts: a write of a session completes only if one is outstanding, a session is only
  started by the engine, and there are less than \<open>2\<^sup>3\<^sup>2 - 1\<close> sessions.
\<close>

definition external_event :: "session_event \<Rightarrow> bool" where
  "external_event ev \<longleftrightarrow>
     (case ev of EvRead ec data \<Rightarrow> True | EvWrite ec \<Rightarrow> True | EvTimeout \<Rightarrow> True
      | EvHeartbeat ch \<Rightarrow> True | _ \<Rightarrow> False)"

definition engine_enabled :: "'c engine \<Rightarrow> engine_event \<Rightarrow> bool" where
  "engine_enabled e ev \<longleftrightarrow>
     (case ev of
        EeSession now sid sev \<Rightarrow> external_event sev
          \<and> (case eng_objects e sid of None \<Rightarrow> True | Some s \<Rightarrow> session_enabled s (now, sev))
      | EeRequest (ReqStart d) \<Rightarrow> eng_next e + 1 \<noteq> 0
      | _ \<Rightarrow> True)"

lemma starting_simps [simp]:
  "starting [] = []"
  "starting (t # ts) = (case t of TaskStart d sid \<Rightarrow> [sid] | _ \<Rightarrow> []) @ starting ts"
  "starting (ts @ us) = starting ts @ starting us"
  by (auto simp: starting_def List.map_filter_def split: engine_task.split)

lemma starting_none: "\<forall>t\<in>set ts. \<exists>sid ev. t = TaskSession sid ev \<Longrightarrow> starting ts = []"
  by (induction ts) auto

lemma last_told_append [simp]:
  "last_told sid (log @ cs) = foldl (told sid) (last_told sid log) cs"
  by (simp add: last_told_def)

lemma react_told:
  "eng_has_callback e \<Longrightarrow> last_told sid (eng_log e) = session_status_of st \<Longrightarrow>
   last_told sid (eng_log (foldl (react sid) e cs)) = session_status_of (foldl observe st cs)"
proof (induction cs arbitrary: e st)
  case (Cons c cs)
  have "last_told sid (eng_log (react sid e c)) = session_status_of (observe st c)"
    using Cons.prems
    by (cases c) (auto simp: react_defs told_def split: local_call.split)
  then show ?case using Cons.IH [of "react sid e c" "observe st c"] Cons.prems(1) by simp
qed simp

lemma react_told_other:
  "k \<noteq> sid \<Longrightarrow> last_told k (eng_log (foldl (react sid) e cs)) = last_told k (eng_log e)"
proof (induction cs arbitrary: e)
  case (Cons c cs)
  have "last_told k (eng_log (react sid e c)) = last_told k (eng_log e)"
    using Cons.prems by (auto simp: react_defs told_def split: session_call.split local_call.split)
  then show ?case using Cons by simp
qed simp

lemma react_reports:
  "CbState k st \<in> set (eng_log (foldl (react sid) e cs)) \<Longrightarrow> CbState k st \<in> set (eng_log e) \<or> k = sid"
proof (induction cs arbitrary: e)
  case (Cons c cs)
  have "CbState k st \<in> set (eng_log (react sid e c)) \<Longrightarrow> CbState k st \<in> set (eng_log e) \<or> k = sid"
    by (auto simp: react_defs split: session_call.splits local_call.splits if_splits)
  with Cons show ?case by auto
qed simp

lemma react_starting [simp]:
  "starting (eng_tasks (foldl (react sid) e cs)) = starting (eng_tasks e)"
proof -
  obtain ts where "eng_tasks (foldl (react sid) e cs) = eng_tasks e @ ts"
    "\<forall>t\<in>set ts. t = TaskSession sid EvStop" using react_tasks by blast
  then show ?thesis using starting_none [of ts] by auto
qed

section \<open>Every event keeps the invariant\<close>

lemma session_event_ok:
  assumes ok: "engine_ok e"
    and en: "\<And>s. eng_objects e sid = Some s \<Longrightarrow> session_enabled s (now, ev)"
  shows "engine_ok (eng_session_event env now sid ev e)"
proof (cases "eng_objects e sid")
  case None
  then show ?thesis using ok by (simp add: eng_session_event_def)
next
  case (Some s)
  let ?s = "session_step (session_env_of env) s (now, ev)"
  let ?e = "e\<lparr>eng_objects := (eng_objects e)(sid \<mapsto> ?s)\<rparr>"
  obtain cs where cs: "ss_log ?s = ss_log s @ cs" using session_step_log by blast
  have s_ok: "session_ok s" and told: "last_told sid (eng_log e) = session_status_of (ss_state s)"
    using ok Some by (simp_all add: engine_ok_def)
  have new_ok: "session_ok ?s" by (rule session_step_ok [OF s_ok en [OF Some]])
  have state: "ss_state ?s = foldl observe (ss_state s) cs"
    using s_ok new_ok cs by (simp add: session_ok_def)
  have event: "eng_session_event env now sid ev e = foldl (react sid) ?e cs"
    using Some cs by (simp add: eng_session_event_def Let_def)
  have told': "last_told sid (eng_log (foldl (react sid) ?e cs)) = session_status_of (ss_state ?s)"
    using react_told [of ?e sid "ss_state s" cs] told ok by (simp add: engine_ok_def state)
  have alive: "\<not> is_terminal (ss_state ?s)" if "sid \<in> set (eng_sessions e)" "\<not> ends cs"
    using that ok Some observe_alive [of cs "ss_state s"] by (auto simp: engine_ok_def state)
  have "ids_fresh (foldl (react sid) ?e cs)"
    using ok Some by (auto simp: engine_ok_def ids_fresh_def)
  then show ?thesis
    using ok new_ok told' alive Some unfolding event
    by (auto simp: engine_ok_def react_told_other distinct_removeAll dest!: react_reports)
qed

lemma post_ok:
  "engine_ok e \<Longrightarrow> starting [t] = [] \<Longrightarrow> engine_ok (post t e)"
  by (simp add: engine_ok_def ids_fresh_def post_def)

lemma on_session_ok: "engine_ok e \<Longrightarrow> (engine_ok e \<Longrightarrow> engine_ok (f e)) \<Longrightarrow> engine_ok (on_session sid f e)"
  by (simp add: on_session_def)

lemma set_active_ok:
  assumes "engine_ok e"
  shows "engine_ok (set_active_task env now sid e)"
proof -
  have ev: "engine_ok (eng_session_event env now k (EvBroadcast b) e)" if "engine_ok e" for k b and e :: "'a engine"
    using that by (rule session_event_ok) (simp add: session_enabled_def)
  have active: "engine_ok (e\<lparr>eng_active := k\<rparr>)" if "engine_ok e" for k and e :: "'a engine"
    using that by (simp add: engine_ok_def ids_fresh_def)
  show ?thesis
    using assms by (auto simp: set_active_task_def Let_def intro!: on_session_ok ev active)
qed

text \<open>A session that is being created has made no reports and is not terminal.\<close>

definition fresh_session :: "('c, service) session \<Rightarrow> bool" where
  "fresh_session s \<longleftrightarrow> session_ok s \<and> ss_state s = Idle \<and> (\<forall>c\<in>set (ss_log s). service_call c)"

lemma open_calls_local:
  "\<forall>c\<in>set (snd (run_prog (control_on_channel_open now ch c0))). \<exists>l. c = Local l"
  by (simp add: control_on_channel_open_def run_prog_bind base_on_channel_open_def
      schedule_heartbeat_def Let_def)

lemma session_with_services_fresh: "fresh_session (session_with_services env now sid)"
proof -
  let ?peers = "assign_channels (ee_services env sid)"
  have step: "fresh_session (perform_call (ee_crypto env) (aap_services (ee_codec env) now) ch c s)"
    if "fresh_session s" "\<exists>l. c = Local l" for ch c and s :: "('a, service) session"
    using that by (auto simp: fresh_session_def perform_call_def session_ok_def service_call_def)
  have reg: "fresh_session (register_service ch v s)" if "fresh_session s"
    for ch v and s :: "('a, service) session"
    using that by (simp add: fresh_session_def register_service_def session_ok_def)
  have new: "fresh_session (new_session (default_session_config sid) (ee_new_crypto env))"
    using new_session_ok [of "default_session_config sid" "ee_new_crypto env"]
    by (simp add: fresh_session_def) (simp add: new_session_def)
  show ?thesis
    using open_calls_local [of now kControlChannelId "create_control_service env ?peers"]
    by (auto simp: session_with_services_def create_session_def register_services_def Let_def split_beta
        intro!: reg foldl_preserves [where P = fresh_session] new step)
qed

lemma fresh_no_report: "fresh_session s \<Longrightarrow> \<not> ends (ss_log s)"
  by (auto simp: fresh_session_def ends_def service_call_def)

lemma start_ok:
  assumes ok: "engine_ok e" and fresh: "eng_objects e sid = None" "sid \<notin> set (starting (eng_tasks e))"
    and sid: "sid \<noteq> 0" "sid < eng_next e"
  shows "engine_ok (do_start_session env now descriptor sid e)"
proof -
  let ?s = "session_with_services env now sid"
  let ?e = "\<lambda>t. e\<lparr>eng_objects := (eng_objects e)(sid \<mapsto> ?s), eng_transports := (eng_transports e)(sid \<mapsto> t),
      eng_sessions := insort sid (removeAll sid (eng_sessions e))\<rparr>"
  have s: "fresh_session ?s" by (rule session_with_services_fresh)
  have idle: "session_ok ?s" "ss_state ?s = Idle" "foldl observe Idle (ss_log ?s) = Idle"
    using s log_services(2) [of "ss_log ?s" Idle] by (simp_all add: fresh_session_def)
  have "last_told sid (eng_log (?e t)) = session_status_of Idle" for t
    using ok fresh(1) by (simp add: engine_ok_def)
  then have told: "last_told sid (eng_log (foldl (react sid) (?e t) (ss_log ?s))) = StConnecting" for t
    using react_told [of "?e t" sid Idle "ss_log ?s"] ok idle(3) by (simp add: engine_ok_def)
  have "engine_ok (foldl (react sid) (?e t) (ss_log ?s))" for t
    using ok fresh sid idle told fresh_no_report [OF s]
    by (auto simp: engine_ok_def ids_fresh_def react_told_other distinct_insort distinct_removeAll
        is_terminal_def set_insort_key dest!: react_reports)
  then have "engine_ok (post (TaskSession sid EvStart) (foldl (react sid) (?e t) (ss_log ?s)))" for t
    by (rule post_ok) simp
  moreover have "engine_ok (e\<lparr>eng_stopped := True\<rparr>)"
    using ok by (simp add: engine_ok_def ids_fresh_def)
  moreover have "engine_ok (report_start_session_failure sid detail e)" for detail
    using ok by (auto simp: engine_ok_def ids_fresh_def report_start_session_failure_def callback_def
        eng_emit_def told_def)
  ultimately show ?thesis by (simp add: do_start_session_def Let_def split: sum.split option.split)
qed

lemma any_session_event_ok:
  "engine_ok e \<Longrightarrow> ev \<noteq> EvWrite None \<Longrightarrow> engine_ok (eng_session_event env now sid ev e)"
  by (rule session_event_ok) (simp_all add: session_enabled_def)

lemma stop_all_ok: "engine_ok e \<Longrightarrow> engine_ok (stop_all_task e)"
  unfolding stop_all_task_def by (rule foldl_preserves [where P = engine_ok]) (simp_all add: post_ok)

text \<open>The only tasks of a session are a start and stops.\<close>

definition tasks_ok :: "engine_task list \<Rightarrow> bool" where
  "tasks_ok ts \<longleftrightarrow> (\<forall>t\<in>set ts. \<forall>sid ev. t = TaskSession sid ev \<longrightarrow> ev = EvStart \<or> ev = EvStop)"

lemma tasks_ok_simps [simp]:
  "tasks_ok []" "tasks_ok (ts @ us) \<longleftrightarrow> tasks_ok ts \<and> tasks_ok us"
  "tasks_ok (t # ts) \<longleftrightarrow> (\<forall>sid ev. t = TaskSession sid ev \<longrightarrow> ev = EvStart \<or> ev = EvStop) \<and> tasks_ok ts"
  by (auto simp: tasks_ok_def)

lemma react_tasks_ok [simp]: "tasks_ok (eng_tasks (foldl (react sid) e cs)) = tasks_ok (eng_tasks e)"
proof -
  obtain ts where "eng_tasks (foldl (react sid) e cs) = eng_tasks e @ ts"
    "\<forall>t\<in>set ts. t = TaskSession sid EvStop" using react_tasks by blast
  then show ?thesis by (auto simp: tasks_ok_def)
qed

lemma event_tasks_ok [simp]:
  "tasks_ok (eng_tasks (eng_session_event env now sid ev e)) = tasks_ok (eng_tasks e)"
  by (simp add: eng_session_event_def Let_def split: option.split)

lemma run_task_tasks_ok:
  assumes "tasks_ok (eng_tasks e)"
  shows "tasks_ok (eng_tasks (run_task env now t e))"
proof -
  have "tasks_ok (eng_tasks (foldl (\<lambda>e sid. post (TaskSession sid EvStop) e) e sids))" for sids
    by (rule foldl_preserves [where P = "\<lambda>e. tasks_ok (eng_tasks e)"]) (simp_all add: assms post_def)
  then show ?thesis
    using assms
    by (cases t) (simp_all add: run_task_def do_start_session_def post_def report_start_session_failure_def
        callback_def eng_emit_def stop_task_def stop_all_task_def on_session_def set_active_task_def Let_def
        split: sum.split option.split)
qed

lemma run_task_ok:
  assumes ok: "engine_ok (e\<lparr>eng_tasks := t # ts\<rparr>)" and tasks: "tasks_ok (t # ts)"
  shows "engine_ok (run_task env now t (e\<lparr>eng_tasks := ts\<rparr>))"
proof -
  have rest: "engine_ok (e\<lparr>eng_tasks := ts\<rparr>)"
    using ok by (auto simp: engine_ok_def ids_fresh_def)
  show ?thesis
  proof (cases t)
    case (TaskStart descriptor sid)
    have "ids_fresh (e\<lparr>eng_tasks := t # ts\<rparr>)" using ok by (simp add: engine_ok_def)
    then have "eng_objects e sid = None" "sid \<notin> set (starting ts)" "sid \<noteq> 0" "sid < eng_next e"
      by (auto simp: ids_fresh_def TaskStart)
    then show ?thesis
      using start_ok [OF rest, of sid env now descriptor] by (simp add: run_task_def TaskStart)
  qed (use rest tasks in \<open>auto simp: run_task_def stop_task_def post_ok stop_all_ok set_active_ok
        any_session_event_ok intro!: on_session_ok\<close>)
qed

definition engine_inv :: "'c engine \<Rightarrow> bool" where
  "engine_inv e \<longleftrightarrow> engine_ok e \<and> tasks_ok (eng_tasks e)"

lemma request_ok:
  assumes "engine_inv e" and "engine_enabled e (EeRequest r)"
  shows "engine_inv (request r e)"
proof (cases r)
  case (ReqStart d)
  have ok: "ids_fresh e" and "eng_next e + 1 \<noteq> 0"
    using assms by (simp_all add: engine_inv_def engine_ok_def engine_enabled_def ReqStart)
  then have less: "eng_next e < eng_next e + 1"
    using unatSuc [of "eng_next e"] by (simp add: word_less_nat_alt add.commute)
  then have up: "sid < eng_next e + 1" if "sid < eng_next e" for sid using that by simp
  have "ids_fresh (request r e)"
    using ok less up unfolding ids_fresh_def
    by (auto simp: ReqStart request_def start_session_def post_def)
  then show ?thesis
    using assms by (simp add: ReqStart engine_inv_def engine_ok_def request_def start_session_def post_def)
qed (use assms in \<open>simp_all add: request_def engine_inv_def post_ok\<close>, simp_all add: post_def)

lemma engine_step_ok:
  assumes "engine_inv e" and "engine_enabled e ev"
  shows "engine_inv (engine_step env e ev)"
proof (cases ev)
  case (EeRequest r)
  then show ?thesis using request_ok assms by (simp add: engine_step_def)
next
  case (EeRun now)
  show ?thesis
  proof (cases "eng_tasks e")
    case (Cons t ts)
    then have e: "e\<lparr>eng_tasks := t # ts\<rparr> = e" by simp
    show ?thesis
      using assms(1) run_task_ok [of t ts e env now] run_task_tasks_ok [of "e\<lparr>eng_tasks := ts\<rparr>" env now t]
      by (auto simp: EeRun Cons engine_step_def engine_inv_def e)
  qed (use assms in \<open>simp add: EeRun engine_step_def\<close>)
next
  case (EeSession now sid sev)
  then show ?thesis
    using assms by (auto simp: engine_step_def engine_inv_def engine_enabled_def intro!: session_event_ok)
qed (use assms in \<open>simp_all add: engine_step_def engine_inv_def engine_ok_def ids_fresh_def\<close>)

interpretation engine_machine: invariant_machine "engine_step env" engine_enabled engine_inv for env
  by unfold_locales (rule engine_step_ok)

text \<open>The AIDL layer registers its callback before anything else.\<close>

definition daemon_engine :: "'c engine" where
  "daemon_engine = engine_step undefined new_engine EeRegisterCallback"

lemma daemon_engine_inv: "engine_inv daemon_engine"
  by (simp add: daemon_engine_def engine_step_def new_engine_def engine_inv_def engine_ok_def
      ids_fresh_def last_told_def)

lemma engine_run_inv:
  "run_enabled engine_enabled (engine_step env) daemon_engine es \<Longrightarrow>
   engine_inv (run_events (engine_step env) daemon_engine es)"
  by (rule engine_machine.run_inv [OF daemon_engine_inv])

section \<open>Properties\<close>

text \<open>A daemon with the factories of \<open>main.cpp\<close> and a crypto that needs no key, for the witnesses.\<close>

definition demo_engine_env :: "mock_crypto engine_env" where
  "demo_engine_env =
     \<lparr>ee_transport = create_transport, ee_crypto = mock_ops,
      ee_new_crypto = \<lparr>mock_established = False\<rparr>, ee_services = (\<lambda>sid. create_services daemon_config),
      ee_codec = sample_codec, ee_config = headunit_config.truncate daemon_config\<rparr>"

definition demo_engine_run :: "engine_event list" where
  "demo_engine_run = [EeRequest (ReqStart ''tcp:fd=3''), EeRun 0]"

lemma demo_engine_enabled: "run_enabled engine_enabled (engine_step demo_engine_env) daemon_engine demo_engine_run"
  by (simp add: demo_engine_run_def engine_enabled_def daemon_engine_def new_engine_def engine_step_def)

lemma demo_engine_sessions:
  "eng_sessions (run_events (engine_step demo_engine_env) daemon_engine demo_engine_run) = [1]
   \<and> eng_active (run_events (engine_step demo_engine_env) daemon_engine demo_engine_run) = 0"
proof -
  have "create_transport ''tcp:fd=3'' = Inr (Some (AndroidTcp 3))" by code_simp
  then have "ee_transport demo_engine_env ''tcp:fd=3'' = Inr (Some (AndroidTcp 3))"
    by (simp add: demo_engine_env_def)
  then show ?thesis
    using fresh_no_report [OF session_with_services_fresh, of demo_engine_env 0 1]
    by (simp add: demo_engine_run_def engine_step_def daemon_engine_def new_engine_def request_def
        start_session_def post_def run_task_def do_start_session_def Let_def)
qed

lemmas demo_engine_active = demo_engine_sessions [THEN conjunct2]

text \<open>
  C8. The engine's map holds live sessions, and the application knows how they are. After
  any run of the daemon, whatever was requested and whatever the phones did: every session
  in the map exists, has not ended and keeps the invariant of its component; and for every
  session that was ever created, the status the application was told last is that of the
  state the session is in.
\<close>

theorem engine_sessions_are_live:
  assumes "run_enabled engine_enabled (engine_step env) daemon_engine es"
  defines "e \<equiv> run_events (engine_step env) daemon_engine es"
  shows "distinct (eng_sessions e)
    \<and> (\<forall>sid\<in>set (eng_sessions e). \<exists>s. eng_objects e sid = Some s \<and> session_ok s \<and> \<not> is_terminal (ss_state s))
    \<and> (\<forall>sid s. eng_objects e sid = Some s \<longrightarrow>
        last_told sid (eng_log e) = session_status_of (ss_state s))"
  using engine_run_inv [OF assms(1)] unfolding e_def [symmetric]
  by (force simp: engine_inv_def engine_ok_def)

theorem engine_sessions_are_live_witness:
  "\<exists>s. eng_objects (run_events (engine_step demo_engine_env) daemon_engine demo_engine_run) 1 = Some s
     \<and> session_ok s \<and> \<not> is_terminal (ss_state s)"
  using engine_sessions_are_live [OF demo_engine_enabled] by (simp add: demo_engine_sessions)

text \<open>
  C32. Session ids are never reused. As long as less than \<open>2\<^sup>3\<^sup>2 - 1\<close> sessions have been
  requested, the id that the next \<open>start_session\<close> returns is not 0, belongs to no session
  that was ever created and to none that is still to be created, and those are different
  from each other.
\<close>

theorem session_ids_are_fresh:
  assumes "run_enabled engine_enabled (engine_step env) daemon_engine es"
  defines "e \<equiv> run_events (engine_step env) daemon_engine es"
  shows "fst (start_session descriptor e) \<noteq> 0
    \<and> eng_objects e (fst (start_session descriptor e)) = None
    \<and> fst (start_session descriptor e) \<notin> set (starting (eng_tasks e))
    \<and> distinct (starting (eng_tasks e))"
  using engine_run_inv [OF assms(1)] unfolding e_def [symmetric]
  by (fastforce simp: engine_inv_def engine_ok_def ids_fresh_def start_session_def)

theorem session_ids_are_fresh_witness:
  "fst (start_session ''tcp:fd=4'' (run_events (engine_step demo_engine_env) daemon_engine demo_engine_run)) \<noteq> 0"
  using session_ids_are_fresh [OF demo_engine_enabled, of "''tcp:fd=4''"] by blast

end
