(* ===== verification/Engine_Sinks.thy ===== *)
theory Engine_Sinks
  imports Engine_Properties
begin

text \<open>
  Which session is heard. The engine attaches the sinks of the active session and detaches
  those of the one before; this theory follows the attachment of the audio sinks through
  handlers, sessions and the engine. Video does not follow the engine: a phone that asks for
  the video focus attaches the video sinks of its session itself.
\<close>

section \<open>Handlers that keep a predicate\<close>

primrec prog_keeps :: "('s \<Rightarrow> bool) \<Rightarrow> 's prog \<Rightarrow> bool" where
  "prog_keeps P (Ret v) = P v"
| "prog_keeps P (Call c v r) = (P v \<and> (\<forall>v'. P v' \<longrightarrow> prog_keeps P (r v')))"

lemma keeps_bind:
  "prog_keeps P p \<Longrightarrow> (\<And>s. P s \<Longrightarrow> prog_keeps P (k s)) \<Longrightarrow> prog_keeps P (prog_bind p k)"
  by (induction p) auto

lemma keeps_call_all [simp]: "prog_keeps P (call_all cs s) \<longleftrightarrow> P s"
  by (induction cs arbitrary: s) auto

lemma keeps_send [simp]: "prog_keeps P (send t p s) \<longleftrightarrow> P s"
  by (auto simp: send_def)

lemma keeps_lift:
  assumes "prog_keeps R p" and "\<And>s. R s \<Longrightarrow> P (into s)" and "\<And>v. P v \<Longrightarrow> R (out v)"
  shows "prog_keeps P (lift_prog into out p)"
  using assms(1) by (induction p) (use assms(2,3) in auto)

lemma keeps_True [simp]: "prog_keeps (\<lambda>s. True) p"
  by (induction p) simp_all

lemma keeps_into: "(\<And>s. P (into s)) \<Longrightarrow> prog_keeps P (lift_prog into out p)"
  by (rule keeps_lift [where R = "\<lambda>s. True"]) simp_all

section \<open>Audio services\<close>

definition is_audio :: "service \<Rightarrow> bool" where
  "is_audio v = (case v of Svc_Audio s \<Rightarrow> True | _ \<Rightarrow> False)"

definition audio_attached :: "service \<Rightarrow> bool" where
  "audio_attached v = (case v of Svc_Audio s \<Rightarrow> aud_sinks_active s | _ \<Rightarrow> False)"

text \<open>
  What is known of a service: whether it is an audio service and, if \<open>mute\<close>, that then its
  sinks are detached.
\<close>

definition audio_kind :: "bool \<Rightarrow> bool \<Rightarrow> service \<Rightarrow> bool" where
  "audio_kind mute aud v \<longleftrightarrow> is_audio v = aud \<and> (mute \<longrightarrow> \<not> audio_attached v)"

lemma audio_kind_Svc [simp]:
  "audio_kind mute aud (Svc_Audio s) \<longleftrightarrow> aud \<and> (mute \<longrightarrow> \<not> aud_sinks_active s)"
  "audio_kind mute aud (Svc_Control c) \<longleftrightarrow> \<not> aud" "audio_kind mute aud (Svc_Video vi) \<longleftrightarrow> \<not> aud"
  "audio_kind mute aud (Svc_Input i) \<longleftrightarrow> \<not> aud" "audio_kind mute aud (Svc_Sensor se) \<longleftrightarrow> \<not> aud"
  "audio_kind mute aud (Svc_Microphone m) \<longleftrightarrow> \<not> aud" "audio_kind mute aud (Svc_Bluetooth b) \<longleftrightarrow> \<not> aud"
  "audio_kind mute aud (Svc_Playback p) \<longleftrightarrow> \<not> aud" "audio_kind mute aud (Svc_Phone ph) \<longleftrightarrow> \<not> aud"
  "audio_kind mute aud (Svc_Browser br) \<longleftrightarrow> \<not> aud" "audio_kind mute aud (Svc_Navigation n) \<longleftrightarrow> \<not> aud"
  "audio_kind mute aud (Svc_Notification no) \<longleftrightarrow> \<not> aud" "audio_kind mute aud (Svc_Vendor ve) \<longleftrightarrow> \<not> aud"
  by (auto simp: audio_kind_def is_audio_def audio_attached_def)

lemma audio_message_keeps:
  assumes "mute \<longrightarrow> \<not> aud_sinks_active s"
  shows "prog_keeps (\<lambda>s. mute \<longrightarrow> \<not> aud_sinks_active s) (audio_on_message codec t p s)"
  using assms
  by (auto simp: audio_on_message_def base_on_message_def audio_handlers_def audio_handler_defs Let_def
      split: option.split prod.split intro!: keeps_bind split: if_splits)

lemma the_audio_kind: "audio_kind mute True v \<Longrightarrow> mute \<longrightarrow> \<not> aud_sinks_active (the_audio v)"
  by (cases v) simp_all

lemma lift_audio_keeps:
  assumes "prog_keeps (\<lambda>s. mute \<longrightarrow> \<not> aud_sinks_active s) p"
  shows "prog_keeps (audio_kind mute True) (lift_prog Svc_Audio the_audio p)"
  by (rule keeps_lift [OF assms]) (simp_all add: the_audio_kind)

lemma service_message_keeps:
  "audio_kind mute aud v \<Longrightarrow> prog_keeps (audio_kind mute aud) (service_on_message codec now t p v)"
  by (cases v) (auto simp: audio_message_keeps intro!: keeps_into lift_audio_keeps)

lemma service_close_keeps:
  "audio_kind mute aud v \<Longrightarrow> audio_kind mute aud (fst (service_on_channel_close v))"
  by (cases v) (auto simp: audio_on_channel_close_def base_on_channel_close_def)

lemma service_broadcast_keeps:
  "audio_kind mute aud v \<Longrightarrow> b \<noteq> BcAttachSinks \<or> \<not> mute \<Longrightarrow>
   prog_keeps (audio_kind mute aud) (service_broadcast codec now b v)"
  by (cases v; cases b)
     (auto simp: service_broadcast_def audio_attach_sinks_def audio_detach_sinks_def intro!: keeps_into)

lemma service_detach_mutes:
  "audio_kind False aud v \<Longrightarrow> prog_keeps (audio_kind True aud) (service_broadcast codec now BcDetachSinks v)"
  by (cases v) (auto simp: service_broadcast_def audio_detach_sinks_def)

lemma service_heartbeat_keeps:
  "audio_kind mute aud v \<Longrightarrow> prog_keeps (audio_kind mute aud) (service_heartbeat codec now v)"
  by (cases v) (auto simp: service_heartbeat_def intro!: keeps_into)

lemma service_bluetooth_keeps:
  "audio_kind mute aud v \<Longrightarrow> prog_keeps (audio_kind mute aud) (service_pairing_response codec st pd v)"
  "audio_kind mute aud v \<Longrightarrow> prog_keeps (audio_kind mute aud) (service_auth_result codec st v)"
  by (cases v; auto simp: service_pairing_response_def service_auth_result_def intro!: keeps_into)+

section \<open>Sessions\<close>

text \<open>Each channel keeps its kind of service: \<open>kinds\<close> says where the audio services are.\<close>

definition sinks_as :: "(byte \<Rightarrow> service \<Rightarrow> bool) \<Rightarrow> ('c, service) session \<Rightarrow> bool" where
  "sinks_as P s \<longleftrightarrow> (\<forall>kv\<in>set (ss_services s). P (fst kv) (snd kv))"

lemma sinks_as_simps [simp]:
  "sinks_as P (emit c s) = sinks_as P s"
  "sinks_as P (s\<lparr>ss_crypto := c'\<rparr>) = sinks_as P s"
  "sinks_as P (s\<lparr>ss_framer := fr\<rparr>) = sinks_as P s"
  "sinks_as P (s\<lparr>ss_crypto := c', ss_buffers := b\<rparr>) = sinks_as P s"
  "sinks_as P (s\<lparr>ss_write_queue := q\<rparr>) = sinks_as P s"
  "sinks_as P (enqueue_write s w) = sinks_as P s"
  "sinks_as P (foldl enqueue_write s ws) = sinks_as P s"
  "sinks_as P (transition_to st s) = sinks_as P s"
  "sinks_as P (do_write_next s) = sinks_as P s"
  by (simp_all add: sinks_as_def transition_to_def do_write_next_def split: list.split)

lemma sinks_as_find: "sinks_as P s \<Longrightarrow> find_service ch s = Some v \<Longrightarrow> P ch v"
  by (force simp: sinks_as_def find_service_def dest: map_of_SomeD)

lemma sinks_as_update: "sinks_as P s \<Longrightarrow> P ch v \<Longrightarrow> sinks_as P (update_service ch v s)"
  by (auto simp: sinks_as_def update_service_def)

text \<open>A session that has reported a terminal state; it never takes that back.\<close>

definition has_ended :: "('c, service) session \<Rightarrow> bool" where
  "has_ended s \<longleftrightarrow> ends (ss_log s)"

lemma ended_stays: "(micro vops)\<^sup>*\<^sup>* s s' \<Longrightarrow> has_ended s \<Longrightarrow> has_ended s'"
  by (rule micro_preserves [where P = has_ended]) (auto simp: has_ended_def ends_def dest!: micro_log)

text \<open>Either every service is as \<open>P\<close> says, or, if \<open>esc\<close>, the session has ended.\<close>

definition kept_until :: "bool \<Rightarrow> (byte \<Rightarrow> service \<Rightarrow> bool) \<Rightarrow> ('c, service) session \<Rightarrow> bool" where
  "kept_until esc P s \<longleftrightarrow> sinks_as P s \<or> esc \<and> has_ended s"

lemma kept_False [simp]: "kept_until False P s \<longleftrightarrow> sinks_as P s"
  by (simp add: kept_until_def)

lemma kept_step:
  assumes "kept_until esc P s" and "(micro vops)\<^sup>*\<^sup>* s s'" and "sinks_as P s \<Longrightarrow> kept_until esc P s'"
  shows "kept_until esc P s'"
  using assms ended_stays [OF assms(2)] by (auto simp: kept_until_def)

lemma kept_simps [simp]:
  "kept_until esc P s \<Longrightarrow> kept_until esc P (emit c s)"
  "kept_until esc P s \<Longrightarrow> kept_until esc P (transition_to st s)"
  "kept_until esc P s \<Longrightarrow> kept_until esc P (enqueue_write s w)"
  "kept_until esc P s \<Longrightarrow> kept_until esc P (foldl enqueue_write s ws)"
  "kept_until esc P s \<Longrightarrow> kept_until esc P (do_write_next s)"
  "kept_until esc P (s\<lparr>ss_crypto := c'\<rparr>) = kept_until esc P s"
  "kept_until esc P (s\<lparr>ss_framer := fr\<rparr>) = kept_until esc P s"
  "kept_until esc P (s\<lparr>ss_crypto := c', ss_buffers := b\<rparr>) = kept_until esc P s"
  "kept_until esc P (s\<lparr>ss_write_queue := q\<rparr>) = kept_until esc P s"
  using enqueue_log [of s w] enqueue_all_log [of s ws]
  by (auto simp: kept_until_def has_ended_def ends_def transition_to_def do_write_next_def
      sinks_as_def [of P "s\<lparr>ss_state := v\<rparr>" for v] sinks_as_def [of P "s\<lparr>ss_write_in_progress := v\<rparr>" for v]
      sinks_as_def [of P s] split: list.split)

text \<open>
  A predicate on the service of each channel that every handler keeps, and every broadcast in
  \<open>allowed\<close>: then every event of a session keeps it. If \<open>esc\<close>, closing a channel need not
  keep it, and then it holds until the session has ended.
\<close>

locale service_invariant =
  fixes P :: "byte \<Rightarrow> service \<Rightarrow> bool" and vops :: "service service_ops" and allowed :: "broadcast set"
    and esc :: bool
  assumes close_keeps: "\<not> esc \<Longrightarrow> P ch v \<Longrightarrow> P ch (fst (svc_on_channel_close vops v))"
    and message_keeps: "P ch v \<Longrightarrow> prog_keeps (P ch) (svc_on_message vops t p v)"
    and broadcast_keeps: "P ch v \<Longrightarrow> b \<in> allowed \<Longrightarrow> prog_keeps (P ch) (svc_broadcast vops b v)"
    and heartbeat_keeps: "P ch v \<Longrightarrow> prog_keeps (P ch) (svc_heartbeat vops v)"
    and pairing_keeps: "P ch v \<Longrightarrow> prog_keeps (P ch) (svc_pairing_response vops status paired v)"
    and auth_keeps: "P ch v \<Longrightarrow> prog_keeps (P ch) (svc_auth_result vops status v)"
    and stop_allowed: "BcSessionStop \<in> allowed"
begin

lemma error_keeps: "kept_until esc P s \<Longrightarrow> kept_until esc P (handle_error vops ec s)"
proof (rule kept_step [OF _ micro_error])
  assume s: "sinks_as P s"
  show "kept_until esc P (handle_error vops ec s)"
  proof (cases "is_terminal (ss_state s)")
    case False
    have "ends (ss_log (handle_error vops ec s))"
      using False by (auto simp: handle_error_live ends_def is_terminal_def)
    moreover have "\<not> esc \<Longrightarrow> \<forall>kv\<in>set kvs. P (fst kv) (snd kv) \<Longrightarrow>
        \<forall>kv\<in>set (fst (close_each vops kvs)). P (fst kv) (snd kv)"
      for kvs by (induction kvs) (auto simp: split_beta Let_def close_keeps)
    ultimately show ?thesis
      using s False by (auto simp: kept_until_def has_ended_def handle_error_live sinks_as_def)
  qed (use s in \<open>simp add: kept_until_def\<close>)
qed

lemma send_keeps: "kept_until esc P s \<Longrightarrow> kept_until esc P (send_message ops vops ch t p s)"
  by (simp add: send_message_def error_keeps split: prod.split sum.split)

lemma exec_keeps:
  "prog_keeps (P ch) p \<Longrightarrow> kept_until esc P s \<Longrightarrow> kept_until esc P (exec_prog ops vops ch p s)"
proof (induction p arbitrary: s)
  case (Ret v)
  from Ret(2) show ?case
  proof (rule kept_step [OF _ micro_runs(2)])
    assume "sinks_as P s" then show "kept_until esc P (exec_prog ops vops ch (Ret v) s)"
      using Ret(1) by (simp add: kept_until_def sinks_as_update)
  qed
next
  case (Call c v r)
  from Call.prems(2) show ?case
  proof (rule kept_step [OF _ micro_runs(2)])
    assume "sinks_as P s"
    let ?s = "perform_call ops vops ch c (update_service ch v s)"
    have kept: "kept_until esc P ?s"
      using Call.prems \<open>sinks_as P s\<close>
      by (auto simp: perform_call_def sinks_as_update send_keeps kept_until_def [of _ _ "update_service ch v s"]
          split: svc_call.split intro!: kept_simps send_keeps)
    show "kept_until esc P (exec_prog ops vops ch (Call c v r) s)"
    proof (cases "find_service ch ?s")
      case (Some v')
      from kept have "kept_until esc P (exec_prog ops vops ch (r v') ?s)"
      proof (rule kept_step [OF _ micro_runs(2)])
        assume "sinks_as P ?s"
        with Some have "P ch v'" by (auto dest: sinks_as_find)
        with Call kept show "kept_until esc P (exec_prog ops vops ch (r v') ?s)" by simp
      qed
      with Some show ?thesis by (simp add: Let_def)
    qed (use kept in \<open>simp add: Let_def\<close>)
  qed
qed

lemma call_keeps:
  assumes "\<And>ch v. P ch v \<Longrightarrow> prog_keeps (P ch) (f v)" and "find_service ch s = Some v"
  shows "kept_until esc P s \<Longrightarrow> kept_until esc P (exec_prog ops vops ch (f v) s)"
proof (rule kept_step [OF _ micro_runs(2)])
  assume "sinks_as P s"
  with assms show "kept_until esc P (exec_prog ops vops ch (f v) s)"
    by (intro exec_keeps) (auto dest: sinks_as_find simp: kept_until_def)
qed

lemma for_services_keep:
  assumes "\<And>ch v. P ch v \<Longrightarrow> prog_keeps (P ch) (f v)"
  shows "kept_until esc P s \<Longrightarrow> kept_until esc P (for_services ops vops f chs s)"
proof (induction chs arbitrary: s)
  case (Cons ch chs)
  have "kept_until esc P (exec_prog ops vops ch (f v) s)" if "find_service ch s = Some v" for v
    using assms that Cons.prems by (rule call_keeps)
  with Cons show ?case by (simp split: option.split)
qed simp

lemma actions_keep: "kept_until esc P s \<Longrightarrow> kept_until esc P (foldl (perform_hs_action ops vops codec) s as)"
  by (rule foldl_preserves [where P = "kept_until esc P"])
     (simp_all add: perform_hs_action_def send_keeps error_keeps on_ssl_complete_def split: hs_action.split)

lemma handshake_keeps:
  "kept_until esc P s \<Longrightarrow> kept_until esc P (handle_handshake_message ops vops codec t p s)"
  by (simp add: handle_handshake_message_def on_version_response_def run_coordinator_def split_beta Let_def
      start_state_timer_def actions_keep)

lemma dispatch_keeps: "kept_until esc P s \<Longrightarrow> kept_until esc P (dispatch_decrypted ops vops codec m s)"
  by (auto simp: dispatch_decrypted_def handshake_keeps split: option.split
      intro!: call_keeps message_keeps)

lemma fragment_keeps: "kept_until esc P s \<Longrightarrow> kept_until esc P (on_fragment ops vops codec s f)"
  by (simp add: on_fragment_def split_beta Let_def error_keeps dispatch_keeps split: asm_outcome.split)

lemma feed_keeps: "kept_until esc P s \<Longrightarrow> kept_until esc P (session_feed ops vops codec data s)"
  by (simp add: session_feed_def split_beta Let_def)
     (rule impI, rule foldl_preserves [where P = "kept_until esc P"], simp_all add: fragment_keeps)

lemma session_step_keeps:
  assumes "kept_until esc P s" and "env_services env now = vops" and "\<forall>b. ev = EvBroadcast b \<longrightarrow> b \<in> allowed"
  shows "kept_until esc P (session_step env s (now, ev))"
proof -
  note vops = assms(2) [symmetric]
  note keep = error_keeps [unfolded vops] send_keeps [unfolded vops] feed_keeps [unfolded vops]
    broadcast_keeps [unfolded vops] heartbeat_keeps [unfolded vops] pairing_keeps [unfolded vops]
    auth_keeps [unfolded vops]
  show ?thesis
    using assms(1,3)
    by (cases ev)
       (auto simp: session_step_def Let_def begin_version_exchange_def send_version_request_def start_read_def
          start_state_timer_def do_stop_def begin_disconnect_def complete_disconnect_def on_read_complete_def
          on_write_complete_def on_state_timeout_def broadcast_services_def on_bluetooth_def stop_allowed keep
          simp del: for_services.simps split: option.split session_state.split
          intro!: for_services_keep [unfolded vops] call_keeps [unfolded vops] keep)
qed

end

definition allowed_if :: "bool \<Rightarrow> broadcast set" where
  "allowed_if mute = {b. b \<noteq> BcAttachSinks \<or> \<not> mute}"

interpretation kinds: service_invariant "\<lambda>ch. audio_kind mute (aud ch)" "aap_services codec now"
    "allowed_if mute" False for mute aud codec now
  by unfold_locales
     (simp_all add: aap_services_def service_close_keeps service_message_keeps service_broadcast_keeps
        service_heartbeat_keeps service_bluetooth_keeps allowed_if_def)

text \<open>What every event but an attachment of sinks does to the audio services.\<close>

lemma session_step_kinds:
  assumes "sinks_as (\<lambda>ch. audio_kind mute (aud ch)) s" and "te = (now, ev)"
    and "ev \<noteq> EvBroadcast BcAttachSinks \<or> \<not> mute"
  shows "sinks_as (\<lambda>ch. audio_kind mute (aud ch)) (session_step (session_env_of env) s te)"
  unfolding assms(2)
  by (rule kinds.session_step_keeps [unfolded kept_False, OF assms(1)]) (use assms(3) in \<open>auto simp: session_env_of_def allowed_if_def\<close>)

text \<open>Detaching reaches every audio service.\<close>

definition detached :: "service \<Rightarrow> service" where
  "detached v = (case v of Svc_Video s \<Rightarrow> Svc_Video (video_detach_sinks s)
     | Svc_Audio s \<Rightarrow> Svc_Audio (audio_detach_sinks s) | _ \<Rightarrow> v)"

lemma detach_broadcast: "service_broadcast codec now BcDetachSinks v = Ret (detached v)"
  by (cases v) (simp_all add: service_broadcast_def detached_def)

lemma detached_kind: "audio_kind mute aud v \<Longrightarrow> audio_kind True aud (detached v)"
  by (cases v) (simp_all add: detached_def audio_detach_sinks_def)

lemma detach_all:
  "sinks_as (\<lambda>ch. audio_kind (ch \<in> D) (aud ch)) s \<Longrightarrow>
   sinks_as (\<lambda>ch. audio_kind (ch \<in> D \<union> set chs) (aud ch))
     (for_services ops vops (service_broadcast codec now BcDetachSinks) chs s)"
proof (induction chs arbitrary: D s)
  case (Cons ch chs)
  let ?P = "\<lambda>D ch. audio_kind (ch \<in> D) (aud ch)"
  show ?case
  proof (cases "find_service ch s")
    case None
    then have "\<forall>kv\<in>set (ss_services s). fst kv \<noteq> ch"
      by (auto simp: find_service_def map_of_eq_None_iff)
    with Cons.prems have "sinks_as (?P (insert ch D)) s" by (simp add: sinks_as_def)
    from Cons.IH [OF this] None show ?thesis by simp
  next
    case (Some v)
    have "audio_kind True (aud ch) (detached v)"
      using sinks_as_find [OF Cons.prems Some] by (rule detached_kind)
    then have "sinks_as (?P (insert ch D)) (update_service ch (detached v) s)"
      using Cons.prems by (auto simp: sinks_as_def update_service_def)
    from Cons.IH [OF this] Some show ?thesis by (simp add: detach_broadcast)
  qed
qed simp

lemma for_services_channels:
  "map fst (ss_services (for_services ops vops (service_broadcast codec now BcDetachSinks) chs s)) =
   map fst (ss_services s)"
proof (induction chs arbitrary: s)
  case (Cons ch chs)
  have "map fst (ss_services (update_service ch v s)) = map fst (ss_services s)" for v
    by (auto simp: update_service_def)
  with Cons show ?case by (simp add: detach_broadcast split: option.split)
qed simp

lemma detach_event_mutes:
  assumes "sinks_as (\<lambda>ch. audio_kind False (aud ch)) s"
  shows "sinks_as (\<lambda>ch. audio_kind True (aud ch))
    (session_step (session_env_of env) s (now, EvBroadcast BcDetachSinks))"
proof -
  let ?s = "for_services (ee_crypto env) (aap_services (ee_codec env) now)
      (service_broadcast (ee_codec env) now BcDetachSinks) (map fst (ss_services s)) s"
  have "sinks_as (\<lambda>ch. audio_kind (ch \<in> {} \<union> set (map fst (ss_services s))) (aud ch)) ?s"
    by (rule detach_all) (use assms in simp)
  moreover have "fst kv \<in> set (map fst (ss_services s))" if "kv \<in> set (ss_services ?s)" for kv
    using that for_services_channels [of _ _ _ _ "map fst (ss_services s)" s] by (metis image_eqI set_map)
  ultimately have "sinks_as (\<lambda>ch. audio_kind True (aud ch)) ?s" by (simp add: sinks_as_def)
  then show ?thesis
    by (simp add: session_step_def session_env_of_def broadcast_services_def aap_services_def Let_def)
qed

section \<open>The engine\<close>

text \<open>A session whose audio services are known, and, if \<open>mute\<close>, have their sinks detached.\<close>

definition session_kinds :: "bool \<Rightarrow> ('c, service) session \<Rightarrow> bool" where
  "session_kinds mute s \<longleftrightarrow> (\<exists>aud. sinks_as (\<lambda>ch. audio_kind mute (aud ch)) s)"

lemma session_kinds_weaken: "session_kinds True s \<Longrightarrow> session_kinds False s"
  by (auto simp: session_kinds_def sinks_as_def audio_kind_def)

lemma session_kinds_step:
  "session_kinds mute s \<Longrightarrow> ev \<noteq> EvBroadcast BcAttachSinks \<or> \<not> mute \<Longrightarrow>
   session_kinds mute (session_step (session_env_of env) s (now, ev))"
  unfolding session_kinds_def by (elim exE) (rule exI, rule session_step_kinds, auto)

lemma session_kinds_detach:
  "session_kinds False s \<Longrightarrow>
   session_kinds True (session_step (session_env_of env) s (now, EvBroadcast BcDetachSinks))"
  unfolding session_kinds_def by (elim exE) (rule exI, rule detach_event_mutes)

definition one_heard :: "'c engine \<Rightarrow> bool" where
  "one_heard e \<longleftrightarrow>
     (\<forall>sid s. eng_objects e sid = Some s \<longrightarrow> session_kinds False s)
     \<and> (\<forall>sid\<in>set (eng_sessions e). sid \<noteq> eng_active e \<longrightarrow>
          (\<forall>s. eng_objects e sid = Some s \<longrightarrow> session_kinds True s))
     \<and> (\<forall>sid b. TaskBroadcast sid b \<in> set (eng_tasks e) \<longrightarrow> b \<noteq> BcAttachSinks)
     \<and> tasks_ok (eng_tasks e)"

lemma react_no_broadcast:
  "TaskBroadcast k b \<in> set (eng_tasks (foldl (react sid) e cs)) \<longleftrightarrow> TaskBroadcast k b \<in> set (eng_tasks e)"
proof -
  obtain ts where "eng_tasks (foldl (react sid) e cs) = eng_tasks e @ ts"
    "\<forall>t\<in>set ts. t = TaskSession sid EvStop" using react_tasks by blast
  then show ?thesis by auto
qed

lemma heard_event:
  assumes "one_heard e" and "ev \<noteq> EvBroadcast BcAttachSinks \<or> sid = eng_active e"
  shows "one_heard (eng_session_event env now sid ev e)"
proof (cases "eng_objects e sid")
  case (Some s)
  let ?s = "session_step (session_env_of env) s (now, ev)"
  let ?e = "e\<lparr>eng_objects := (eng_objects e)(sid \<mapsto> ?s)\<rparr>"
  define cs where "cs = drop (length (ss_log s)) (ss_log ?s)"
  have event: "eng_session_event env now sid ev e = foldl (react sid) ?e cs"
    using Some by (simp add: eng_session_event_def Let_def cs_def)
  have kinds: "session_kinds False ?s"
    using assms(1) Some by (intro session_kinds_step) (simp_all add: one_heard_def)
  have mute: "session_kinds True ?s" if "sid \<in> set (eng_sessions e)" "sid \<noteq> eng_active e"
    using assms that Some by (intro session_kinds_step) (auto simp: one_heard_def)
  show ?thesis
    using assms(1) kinds mute unfolding event one_heard_def
    by (auto simp: react_no_broadcast split: if_splits)
qed (use assms in \<open>simp add: eng_session_event_def\<close>)

lemma heard_detach:
  assumes "one_heard e" and "eng_objects e sid = Some s"
  shows "\<exists>s'. eng_objects (eng_session_event env now sid (EvBroadcast BcDetachSinks) e) sid = Some s'
    \<and> session_kinds True s'"
  using assms by (auto simp: eng_session_event_def Let_def one_heard_def intro: session_kinds_detach)

lemma event_others:
  "k \<noteq> sid \<Longrightarrow> eng_objects (eng_session_event env now sid ev e) k = eng_objects e k"
  "set (eng_sessions (eng_session_event env now sid ev e)) \<subseteq> set (eng_sessions e)"
  by (auto simp: eng_session_event_def Let_def split: option.split if_splits)

lemma heard_set_active:
  assumes "one_heard e" and "0 \<notin> set (eng_sessions e)"
  shows "one_heard (set_active_task env now sid e)"
proof (cases "eng_active e = sid")
  case False
  let ?prev = "eng_active e"
  define e1 where "e1 = (if ?prev \<noteq> 0 then on_session ?prev
      (eng_session_event env now ?prev (EvBroadcast BcDetachSinks)) e else e)"
  have e1: "one_heard e1"
    using assms by (simp add: e1_def on_session_def heard_event)
  have muted: "session_kinds True s"
    if k: "k \<in> set (eng_sessions e1)" "eng_objects e1 k = Some s" for k s
  proof (cases "k = ?prev \<and> ?prev \<in> set (eng_sessions e)")
    case True
    then have "?prev \<noteq> 0" using assms(2) by auto
    then have "e1 = eng_session_event env now k (EvBroadcast BcDetachSinks) e"
      using True by (simp add: e1_def on_session_def)
    moreover obtain s0 where "eng_objects e k = Some s0"
      using k(2) calculation by (cases "eng_objects e k") (simp_all add: eng_session_event_def)
    ultimately show ?thesis using heard_detach [OF assms(1), of k s0 env now] k(2) by auto
  next
    case False
    have in_e: "k \<in> set (eng_sessions e)"
      using k(1) event_others(2) [of env now ?prev _ e] by (auto simp: e1_def on_session_def split: if_splits)
    with False have "k \<noteq> ?prev" by auto
    then have "eng_objects e k = Some s" using k(2) by (auto simp: e1_def on_session_def event_others(1) split: if_splits)
    then show ?thesis using assms(1) in_e \<open>k \<noteq> ?prev\<close> by (simp add: one_heard_def)
  qed
  have "one_heard (e1\<lparr>eng_active := sid\<rparr>)"
    using e1 muted by (auto simp: one_heard_def)
  then show ?thesis
    using False by (auto simp: set_active_task_def Let_def e1_def [symmetric] on_session_def
        intro!: heard_event)
qed (use assms in \<open>simp add: set_active_task_def\<close>)

text \<open>The factory attaches no sink.\<close>

definition silent_factory :: "'c engine_env \<Rightarrow> bool" where
  "silent_factory env \<longleftrightarrow> (\<forall>sid. \<forall>kv\<in>set (ee_services env sid). \<not> audio_attached (snd kv))"

definition quiet_services :: "('c, service) session \<Rightarrow> bool" where
  "quiet_services s \<longleftrightarrow> sorted_wrt (<) (map fst (ss_services s))
     \<and> (\<forall>kv\<in>set (ss_services s). \<not> audio_attached (snd kv))"

lemma put_service_set: "set (put_service ch v kvs) \<subseteq> insert (ch, v) (set kvs)"
  by (induction kvs) (auto split: if_splits)

lemma put_service_sorted:
  "sorted_wrt (<) (map fst kvs) \<Longrightarrow> sorted_wrt (<) (map fst (put_service ch v kvs))"
proof (induction kvs)
  case (Cons kv kvs)
  then show ?case using put_service_set [of ch v kvs] by (cases kv) fastforce
qed simp

lemma quiet_register:
  "quiet_services s \<Longrightarrow> \<not> audio_attached v \<Longrightarrow> quiet_services (register_service ch v s)"
  using put_service_set [of ch v "ss_services s"] put_service_sorted [of "ss_services s" ch v]
  by (auto simp: quiet_services_def register_service_def)

lemma quiet_kinds:
  assumes "quiet_services s"
  shows "session_kinds True s"
proof -
  have "distinct (map fst (ss_services s))"
    using assms strict_sorted_iff by (auto simp: quiet_services_def)
  then have "sinks_as (\<lambda>ch. audio_kind True (is_audio (the (map_of (ss_services s) ch)))) s"
    using assms by (auto simp: sinks_as_def quiet_services_def audio_kind_def)
  then show ?thesis by (auto simp: session_kinds_def)
qed

lemma set_channel_attached: "audio_attached (service_set_channel ch v) = audio_attached v"
  by (cases v) (simp_all add: audio_attached_def set_channel_def)

lemma session_with_services_quiet:
  assumes "silent_factory env"
  shows "session_kinds True (session_with_services env now sid)"
proof -
  let ?peers = "assign_channels (ee_services env sid)"
  have peers: "\<forall>kv\<in>set ?peers. \<not> audio_attached (snd kv)"
    using assms by (fastforce simp: assign_channels_def silent_factory_def set_channel_attached)
  have new: "quiet_services (new_session cfg c)" for cfg and c :: 'a
    by (simp add: quiet_services_def new_session_def)
  have local: "quiet_services (perform_call ops vops ch c s)" if "quiet_services s" "\<exists>l. c = Local l"
    for ops vops ch c and s :: "('a, service) session"
    using that by (auto simp: perform_call_def quiet_services_def)
  have control: "\<not> audio_attached (Svc_Control c)" for c by (simp add: audio_attached_def)
  have "quiet_services (session_with_services env now sid)"
    using open_calls_local [of now kControlChannelId "create_control_service env ?peers"] peers
    by (auto simp: session_with_services_def create_session_def register_services_def Let_def split_beta
        intro!: quiet_register control local new foldl_preserves [where P = quiet_services])
  then show ?thesis by (rule quiet_kinds)
qed

lemma heard_start:
  assumes "one_heard e" and "silent_factory env" and "sid \<noteq> 0"
  shows "one_heard (do_start_session env now descriptor sid e)"
proof -
  let ?s = "session_with_services env now sid"
  let ?e = "\<lambda>t. e\<lparr>eng_objects := (eng_objects e)(sid \<mapsto> ?s), eng_transports := (eng_transports e)(sid \<mapsto> t),
      eng_sessions := insort sid (removeAll sid (eng_sessions e))\<rparr>"
  have s: "session_kinds True ?s" by (rule session_with_services_quiet [OF assms(2)])
  then have "one_heard (?e t)" for t
    using assms(1) session_kinds_weaken [OF s] by (auto simp: one_heard_def set_insort_key)
  then have "one_heard (foldl (react sid) (?e t) (ss_log ?s))" for t
    using fresh_no_report [OF session_with_services_fresh, of env now sid]
    by (auto simp: one_heard_def react_no_broadcast)
  then have "one_heard (post (TaskSession sid EvStart) (foldl (react sid) (?e t) (ss_log ?s)))" for t
    by (simp add: one_heard_def post_def)
  then show ?thesis
    using assms(1)
    by (simp add: do_start_session_def report_start_session_failure_def callback_def eng_emit_def
        one_heard_def Let_def split: sum.split option.split)
qed

lemma heard_stop_all: "one_heard e \<Longrightarrow> one_heard (stop_all_task e)"
  unfolding stop_all_task_def
  by (rule foldl_preserves [where P = one_heard]) (simp_all add: one_heard_def post_def)

lemma heard_task:
  assumes "one_heard (e\<lparr>eng_tasks := t # ts\<rparr>)" and "engine_inv (e\<lparr>eng_tasks := t # ts\<rparr>)"
    and "silent_factory env"
  shows "one_heard (run_task env now t (e\<lparr>eng_tasks := ts\<rparr>))"
proof -
  have rest: "one_heard (e\<lparr>eng_tasks := ts\<rparr>)" using assms(1) by (auto simp: one_heard_def)
  have ids: "sid \<noteq> 0" if "sid \<in> set (eng_sessions e) \<or> t = TaskStart d sid" for d sid
    using assms(2) that by (fastforce simp: engine_inv_def engine_ok_def ids_fresh_def)
  have tasks: "\<forall>sid b. t = TaskBroadcast sid b \<longrightarrow> b \<noteq> BcAttachSinks"
    "\<forall>sid ev. t = TaskSession sid ev \<longrightarrow> ev = EvStart \<or> ev = EvStop"
    using assms(1) by (auto simp: one_heard_def)
  show ?thesis
  proof (cases t)
    case (TaskStart d sid)
    then show ?thesis using rest assms(3) ids [of sid d] by (simp add: run_task_def heard_start)
  next
    case (TaskSetActive sid)
    have "0 \<notin> set (eng_sessions (e\<lparr>eng_tasks := ts\<rparr>))" using ids by auto
    then show ?thesis using rest by (simp add: TaskSetActive run_task_def heard_set_active)
  next
    case TaskStopAll
    then show ?thesis using rest by (simp add: run_task_def heard_stop_all)
  next
    case (TaskStop sid)
    then show ?thesis using rest by (simp add: run_task_def stop_task_def on_session_def one_heard_def post_def)
  qed (use rest tasks in \<open>auto simp: run_task_def on_session_def intro!: heard_event\<close>)
qed

definition no_attach_request :: "engine_event \<Rightarrow> bool" where
  "no_attach_request ev \<longleftrightarrow> (\<forall>sid. ev \<noteq> EeRequest (ReqBroadcast sid BcAttachSinks))"

lemma heard_step:
  assumes "one_heard e" and "engine_inv e" and "engine_enabled e ev" and "no_attach_request ev"
    and "silent_factory env"
  shows "one_heard (engine_step env e ev)"
proof (cases ev)
  case (EeRun now)
  show ?thesis
  proof (cases "eng_tasks e")
    case (Cons t ts)
    then have e: "e\<lparr>eng_tasks := t # ts\<rparr> = e" by simp
    show ?thesis
      using heard_task [of t ts e env now, unfolded e] assms by (simp add: EeRun Cons engine_step_def)
  qed (use assms in \<open>simp add: EeRun engine_step_def\<close>)
next
  case (EeRequest r)
  then show ?thesis
    using assms(1,4) by (cases r)
      (auto simp: engine_step_def request_def one_heard_def post_def start_session_def no_attach_request_def)
next
  case (EeSession now sid sev)
  then have "sev \<noteq> EvBroadcast BcAttachSinks"
    using assms(3) by (auto simp: engine_enabled_def external_event_def)
  then show ?thesis using assms(1) by (simp add: EeSession engine_step_def heard_event)
qed (use assms in \<open>simp_all add: engine_step_def one_heard_def\<close>)

definition heard_enabled :: "'c engine \<Rightarrow> engine_event \<Rightarrow> bool" where
  "heard_enabled e ev \<longleftrightarrow> engine_enabled e ev \<and> no_attach_request ev"

lemma heard_machine:
  "silent_factory env \<Longrightarrow>
   invariant_machine (engine_step env) heard_enabled (\<lambda>e. engine_inv e \<and> one_heard e)"
  by unfold_locales (simp add: heard_enabled_def engine_step_ok heard_step)

text \<open>
  Only the active session is heard. If the services are created with detached sinks and
  the application leaves attaching to the engine (it never calls \<open>attach_all_sinks\<close>
  itself), then at any time of any run no session in the engine's map other than the active
  one has an audio service with attached sinks; so two phones never play at once.
\<close>

theorem only_active_session_is_heard:
  assumes "silent_factory env" and "run_enabled heard_enabled (engine_step env) daemon_engine es"
  defines "e \<equiv> run_events (engine_step env) daemon_engine es"
  shows "\<forall>sid\<in>set (eng_sessions e). sid \<noteq> eng_active e \<longrightarrow>
    (\<exists>s. eng_objects e sid = Some s \<and> (\<forall>kv\<in>set (ss_services s). \<not> audio_attached (snd kv)))"
proof -
  have start: "one_heard daemon_engine"
    by (simp add: one_heard_def daemon_engine_def engine_step_def new_engine_def)
  have inv: "engine_inv e \<and> one_heard e"
    unfolding e_def
    by (rule invariant_machine.run_inv [OF heard_machine [OF assms(1)] _ assms(2)])
       (use daemon_engine_inv start in blast)
  show ?thesis
  proof (intro ballI impI)
    fix sid assume sid: "sid \<in> set (eng_sessions e)" "sid \<noteq> eng_active e"
    then obtain s where s: "eng_objects e sid = Some s"
      using inv by (auto simp: engine_inv_def engine_ok_def)
    then have "session_kinds True s" using inv sid by (simp add: one_heard_def)
    then show "\<exists>s. eng_objects e sid = Some s \<and> (\<forall>kv\<in>set (ss_services s). \<not> audio_attached (snd kv))"
      using s by (auto simp: session_kinds_def sinks_as_def audio_kind_def)
  qed
qed

lemma demo_silent: "silent_factory demo_engine_env"
  using create_services_fresh(2) [of daemon_config]
  by (force simp: silent_factory_def demo_engine_env_def audio_attached_def sinks_attached_def
      split: service.splits)

theorem only_active_session_is_heard_witness:
  "\<exists>s. eng_objects (run_events (engine_step demo_engine_env) daemon_engine
       (demo_engine_run @ [EeRequest (ReqSetActive 2), EeRequest ReqStopAll])) 1 = Some s
     \<and> (\<forall>kv\<in>set (ss_services s). \<not> audio_attached (snd kv))"
proof -
  let ?es = "demo_engine_run @ [EeRequest (ReqSetActive 2), EeRequest ReqStopAll]"
  let ?e = "run_events (engine_step demo_engine_env) daemon_engine ?es"
  have "run_enabled heard_enabled (engine_step demo_engine_env) daemon_engine ?es"
    by (simp add: demo_engine_run_def heard_enabled_def no_attach_request_def engine_enabled_def
        daemon_engine_def new_engine_def engine_step_def)
  note heard = only_active_session_is_heard [OF demo_silent this]
  have "eng_sessions ?e = [1]"
    using demo_engine_sessions by (simp add: engine_step_def request_def post_def)
  moreover have "eng_active ?e \<noteq> 1"
    using demo_engine_active by (simp add: engine_step_def request_def post_def)
  ultimately show ?thesis using heard by simp
qed

end
