(* ===== verification/Engine_Types.thy ===== *)
theory Engine_Types
  imports Engine_Sinks
begin

text \<open>
  The registry of a session is well typed, whatever happens: the channels are those the
  engine registered, each still has the kind of service it was created with, and a service
  sends on its own channel until the end of the session puts it on channel 0.
\<close>

section \<open>Handlers keep the channel\<close>

lemma keeps_base:
  assumes "\<And>s. Q (channel_id s) \<Longrightarrow> prog_keeps (\<lambda>s. Q (channel_id s)) (on_open (channel_id s) s)"
    and "\<And>h s. handlers t = Some h \<Longrightarrow> Q (channel_id s) \<Longrightarrow> prog_keeps (\<lambda>s. Q (channel_id s)) (h p s)"
    and "Q (channel_id s)"
  shows "prog_keeps (\<lambda>s. Q (channel_id s)) (base_on_message on_open handlers t p s)"
  using assms by (auto simp: base_on_message_def split: option.split intro!: keeps_bind)

lemma control_message_channel:
  "Q (channel_id s) \<Longrightarrow> prog_keeps (\<lambda>s. Q (channel_id s)) (control_on_message codec now t p s)"
  unfolding control_on_message_def
  by (erule keeps_base [rotated 2])
     (auto simp: control_handlers_def control_handler_defs Let_def intro!: keeps_bind split: if_splits option.splits)

lemma video_message_channel:
  "Q (channel_id s) \<Longrightarrow> prog_keeps (\<lambda>s. Q (channel_id s)) (video_on_message codec t p s)"
  unfolding video_on_message_def
  by (erule keeps_base [rotated 2])
     (auto simp: video_handlers_def video_handler_defs Let_def intro!: keeps_bind
        split: if_splits option.splits prod.splits)

lemma audio_message_channel:
  "Q (channel_id s) \<Longrightarrow> prog_keeps (\<lambda>s. Q (channel_id s)) (audio_on_message codec t p s)"
  unfolding audio_on_message_def
  by (erule keeps_base [rotated 2])
     (auto simp: audio_handlers_def audio_handler_defs Let_def intro!: keeps_bind
        split: if_splits option.splits prod.splits)

lemma input_message_channel:
  "Q (channel_id s) \<Longrightarrow> prog_keeps (\<lambda>s. Q (channel_id s)) (input_on_message codec t p s)"
  unfolding input_on_message_def
  by (erule keeps_base [rotated 2])
     (auto simp: input_handlers_def input_on_key_binding_request_def base_on_channel_open_def split: if_splits)

lemma sensor_message_channel:
  "Q (channel_id s) \<Longrightarrow> prog_keeps (\<lambda>s. Q (channel_id s)) (sensor_on_message codec t p s)"
  unfolding sensor_on_message_def
  by (erule keeps_base [rotated 2])
     (auto simp: sensor_defs intro!: keeps_bind split: if_splits option.splits)

lemma bluetooth_message_channel:
  "Q (channel_id s) \<Longrightarrow> prog_keeps (\<lambda>s. Q (channel_id s)) (bluetooth_on_message codec t p s)"
  unfolding bluetooth_on_message_def
  by (erule keeps_base [rotated 2])
     (auto simp: bluetooth_defs Let_def split: if_splits option.splits)

lemma browser_message_channel:
  "Q (channel_id s) \<Longrightarrow> prog_keeps (\<lambda>s. Q (channel_id s)) (browser_on_message codec t p s)"
  unfolding browser_on_message_def
  by (erule keeps_base [rotated 2])
     (auto simp: browser_defs Let_def split: if_splits option.splits)

lemma playback_message_channel:
  "Q (channel_id s) \<Longrightarrow> prog_keeps (\<lambda>s. Q (channel_id s)) (playback_on_message codec t p s)"
  unfolding playback_on_message_def
  by (erule keeps_base [rotated 2])
     (auto simp: playback_defs Let_def split: if_splits option.splits)

lemma phone_message_channel:
  "Q (channel_id s) \<Longrightarrow> prog_keeps (\<lambda>s. Q (channel_id s)) (phone_status_on_message codec t p s)"
  unfolding phone_status_on_message_def
  by (erule keeps_base [rotated 2])
     (auto simp: phone_status_handlers_def on_phone_status_def base_on_channel_open_def Let_def
        split: if_splits option.splits)

lemma plain_message_channel:
  "Q (channel_id s) \<Longrightarrow> prog_keeps (\<lambda>s. Q (channel_id s)) (plain_on_message t p s)"
  unfolding plain_on_message_def
  by (erule keeps_base [rotated 2]) (auto simp: base_on_channel_open_def)

section \<open>The class of a service\<close>

text \<open>The dynamic type of an \<open>IService\<close>, by its C++ name.\<close>

primrec service_class :: "service \<Rightarrow> string" where
  "service_class (Svc_Control s) = ''ControlService''"
| "service_class (Svc_Video s) = ''VideoService''"
| "service_class (Svc_Audio s) = ''AudioService''"
| "service_class (Svc_Input s) = ''InputService''"
| "service_class (Svc_Sensor s) = ''SensorService''"
| "service_class (Svc_Microphone s) = ''MicrophoneService''"
| "service_class (Svc_Bluetooth s) = ''BluetoothService''"
| "service_class (Svc_Playback s) = ''MediaPlaybackService''"
| "service_class (Svc_Phone s) = ''PhoneStatusService''"
| "service_class (Svc_Browser s) = ''MediaBrowserService''"
| "service_class (Svc_Navigation s) = ''NavigationStatusService''"
| "service_class (Svc_Notification s) = ''GenericNotificationService''"
| "service_class (Svc_Vendor s) = ''VendorExtensionService''"

text \<open>A service is on the channel it is registered under or, if not \<open>strict\<close>, on 0.\<close>

definition own_channel :: "bool \<Rightarrow> byte \<Rightarrow> byte \<Rightarrow> bool" where
  "own_channel strict ch c \<longleftrightarrow> c = ch \<or> \<not> strict \<and> c = 0"

definition well_typed :: "bool \<Rightarrow> (byte \<rightharpoonup> string) \<Rightarrow> byte \<Rightarrow> service \<Rightarrow> bool" where
  "well_typed strict classes ch v \<longleftrightarrow> classes ch = Some (service_class v) \<and> own_channel strict ch (service_channel v)"

lemma well_typed_Svc [simp]:
  "well_typed strict classes ch (Svc_Control s0) \<longleftrightarrow> classes ch = Some ''ControlService'' \<and> own_channel strict ch (channel_id s0)"
  "well_typed strict classes ch (Svc_Video s1) \<longleftrightarrow> classes ch = Some ''VideoService'' \<and> own_channel strict ch (channel_id s1)"
  "well_typed strict classes ch (Svc_Audio s2) \<longleftrightarrow> classes ch = Some ''AudioService'' \<and> own_channel strict ch (channel_id s2)"
  "well_typed strict classes ch (Svc_Input s3) \<longleftrightarrow> classes ch = Some ''InputService'' \<and> own_channel strict ch (channel_id s3)"
  "well_typed strict classes ch (Svc_Sensor s4) \<longleftrightarrow> classes ch = Some ''SensorService'' \<and> own_channel strict ch (channel_id s4)"
  "well_typed strict classes ch (Svc_Microphone s5) \<longleftrightarrow> classes ch = Some ''MicrophoneService'' \<and> own_channel strict ch (channel_id s5)"
  "well_typed strict classes ch (Svc_Bluetooth s6) \<longleftrightarrow> classes ch = Some ''BluetoothService'' \<and> own_channel strict ch (channel_id s6)"
  "well_typed strict classes ch (Svc_Playback s7) \<longleftrightarrow> classes ch = Some ''MediaPlaybackService'' \<and> own_channel strict ch (channel_id s7)"
  "well_typed strict classes ch (Svc_Phone s8) \<longleftrightarrow> classes ch = Some ''PhoneStatusService'' \<and> own_channel strict ch (channel_id s8)"
  "well_typed strict classes ch (Svc_Browser s9) \<longleftrightarrow> classes ch = Some ''MediaBrowserService'' \<and> own_channel strict ch (channel_id s9)"
  "well_typed strict classes ch (Svc_Navigation s10) \<longleftrightarrow> classes ch = Some ''NavigationStatusService'' \<and> own_channel strict ch (channel_id s10)"
  "well_typed strict classes ch (Svc_Notification s11) \<longleftrightarrow> classes ch = Some ''GenericNotificationService'' \<and> own_channel strict ch (channel_id s11)"
  "well_typed strict classes ch (Svc_Vendor s12) \<longleftrightarrow> classes ch = Some ''VendorExtensionService'' \<and> own_channel strict ch (channel_id s12)"
  by (simp_all add: well_typed_def)

lemma set_channel_class [simp]: "service_class (service_set_channel ch v) = service_class v"
  by (cases v) simp_all

lemma set_channel_channel [simp]: "service_channel (service_set_channel ch v) = ch"
  by (cases v) (simp_all add: set_channel_def)

text \<open>The casts that the accessors of \<open>service\<close> stand for never meet another class.\<close>

lemma cast_channel:
  "well_typed strict classes ch v \<Longrightarrow> classes ch = Some ''ControlService'' \<Longrightarrow> own_channel strict ch (channel_id (the_control v))"
  "well_typed strict classes ch v \<Longrightarrow> classes ch = Some ''VideoService'' \<Longrightarrow> own_channel strict ch (channel_id (the_video v))"
  "well_typed strict classes ch v \<Longrightarrow> classes ch = Some ''AudioService'' \<Longrightarrow> own_channel strict ch (channel_id (the_audio v))"
  "well_typed strict classes ch v \<Longrightarrow> classes ch = Some ''InputService'' \<Longrightarrow> own_channel strict ch (channel_id (the_input v))"
  "well_typed strict classes ch v \<Longrightarrow> classes ch = Some ''SensorService'' \<Longrightarrow> own_channel strict ch (channel_id (the_sensor v))"
  "well_typed strict classes ch v \<Longrightarrow> classes ch = Some ''MicrophoneService'' \<Longrightarrow> own_channel strict ch (channel_id (the_microphone v))"
  "well_typed strict classes ch v \<Longrightarrow> classes ch = Some ''BluetoothService'' \<Longrightarrow> own_channel strict ch (channel_id (the_bluetooth v))"
  "well_typed strict classes ch v \<Longrightarrow> classes ch = Some ''MediaPlaybackService'' \<Longrightarrow> own_channel strict ch (channel_id (the_playback v))"
  "well_typed strict classes ch v \<Longrightarrow> classes ch = Some ''PhoneStatusService'' \<Longrightarrow> own_channel strict ch (channel_id (the_phone v))"
  "well_typed strict classes ch v \<Longrightarrow> classes ch = Some ''MediaBrowserService'' \<Longrightarrow> own_channel strict ch (channel_id (the_browser v))"
  "well_typed strict classes ch v \<Longrightarrow> classes ch = Some ''NavigationStatusService'' \<Longrightarrow> own_channel strict ch (channel_id (the_navigation v))"
  "well_typed strict classes ch v \<Longrightarrow> classes ch = Some ''GenericNotificationService'' \<Longrightarrow> own_channel strict ch (channel_id (the_notification v))"
  "well_typed strict classes ch v \<Longrightarrow> classes ch = Some ''VendorExtensionService'' \<Longrightarrow> own_channel strict ch (channel_id (the_vendor v))"
  by (cases v; simp)+

text \<open>What keeps the channel of the inner record keeps the type of the service around it.\<close>

lemma keeps_typed:
  assumes "prog_keeps (\<lambda>s. own_channel strict ch (channel_id s)) p"
    and "\<And>s. own_channel strict ch (channel_id s) \<Longrightarrow> well_typed strict classes ch (into s)"
    and "\<And>v. well_typed strict classes ch v \<Longrightarrow> own_channel strict ch (channel_id (out v))"
  shows "prog_keeps (well_typed strict classes ch) (lift_prog into out p)"
  by (rule keeps_lift [where R = "\<lambda>s. own_channel strict ch (channel_id s)"]) (use assms in auto)

lemmas message_channels = control_message_channel video_message_channel audio_message_channel
  input_message_channel sensor_message_channel bluetooth_message_channel browser_message_channel
  playback_message_channel phone_message_channel plain_message_channel

lemma message_typed:
  "well_typed strict classes ch v \<Longrightarrow> prog_keeps (well_typed strict classes ch) (service_on_message codec now t p v)"
  by (cases v) (auto intro!: keeps_typed message_channels [where Q = "own_channel strict ch"] dest: cast_channel)

lemma close_typed:
  "\<not> strict \<Longrightarrow> well_typed strict classes ch v \<Longrightarrow> well_typed strict classes ch (fst (service_on_channel_close v))"
  using services.close_resets [of v]
  by (cases v) (simp_all add: own_channel_def)

lemma broadcast_typed:
  "well_typed strict classes ch v \<Longrightarrow> prog_keeps (well_typed strict classes ch) (service_broadcast codec now b v)"
  by (cases v; cases b)
     (auto simp: service_broadcast_def video_set_native_window_def set_video_focus_def video_attach_sinks_def
        video_detach_sinks_def audio_attach_sinks_def audio_detach_sinks_def send_touch_def send_media_key_def
        control_release_audio_focus_def control_gain_audio_focus_def control_on_session_stop_def
        initiate_bye_def video_handler_defs control_handler_defs Let_def intro!: keeps_typed keeps_bind dest: cast_channel
        split: if_splits option.splits)

lemma heartbeat_typed:
  "well_typed strict classes ch v \<Longrightarrow> prog_keeps (well_typed strict classes ch) (service_heartbeat codec now v)"
  by (cases v)
     (auto simp: service_heartbeat_def on_heartbeat_timer_def send_ping_def control_handler_defs Let_def
        intro!: keeps_typed keeps_bind dest: cast_channel)

lemma bluetooth_typed:
  "well_typed strict classes ch v \<Longrightarrow> prog_keeps (well_typed strict classes ch) (service_pairing_response codec st pd v)"
  "well_typed strict classes ch v \<Longrightarrow> prog_keeps (well_typed strict classes ch) (service_auth_result codec st v)"
  by (cases v;
      auto simp: service_pairing_response_def service_auth_result_def send_pairing_response_def
        send_auth_result_def intro!: keeps_typed dest: cast_channel)+

interpretation types: service_invariant "well_typed strict classes" "aap_services codec now" UNIV strict
    for strict classes codec now
  by unfold_locales
     (simp_all add: aap_services_def close_typed message_typed broadcast_typed heartbeat_typed bluetooth_typed)

section \<open>What holds of every session of the engine\<close>

text \<open>
  A property of single sessions that creating a session establishes and every event of a
  session keeps: then all sessions of the engine have it, in every run. The engine does
  nothing else to a session.
\<close>

definition objects :: "(u32 \<Rightarrow> ('c, service) session \<Rightarrow> bool) \<Rightarrow> 'c engine \<Rightarrow> bool" where
  "objects Q e \<longleftrightarrow> (\<forall>sid s. eng_objects e sid = Some s \<longrightarrow> Q sid s)"

locale session_property =
  fixes env :: "'c engine_env" and Q :: "u32 \<Rightarrow> ('c, service) session \<Rightarrow> bool"
  assumes created: "Q sid (session_with_services env now sid)"
    and handled: "Q sid s \<Longrightarrow> session_enabled s (now, ev) \<Longrightarrow> Q sid (session_step (session_env_of env) s (now, ev))"
begin

lemma objects_event:
  assumes "objects Q e" and "\<And>s. eng_objects e sid = Some s \<Longrightarrow> session_enabled s (now, ev)"
  shows "objects Q (eng_session_event env now sid ev e)"
  using assms handled by (auto simp: objects_def eng_session_event_def Let_def split: option.split)

lemma objects_task_event:
  "objects Q e \<Longrightarrow> ev \<noteq> EvWrite None \<Longrightarrow> objects Q (eng_session_event env now sid ev e)"
  by (rule objects_event) (simp_all add: session_enabled_def)

lemma objects_task:
  assumes "objects Q e" and "tasks_ok (t # eng_tasks e)"
  shows "objects Q (run_task env now t e)"
proof (cases t)
  case (TaskStart d sid)
  then show ?thesis
    using assms(1) created
    by (auto simp: run_task_def do_start_session_def objects_def post_def report_start_session_failure_def
        callback_def eng_emit_def Let_def split: sum.split option.split)
next
  case (TaskSetActive sid)
  have "objects Q (e'\<lparr>eng_active := k\<rparr>) = objects Q e'" for e' :: "'c engine" and k
    by (simp add: objects_def)
  with TaskSetActive assms show ?thesis
    by (auto simp: run_task_def set_active_task_def on_session_def Let_def intro!: objects_task_event)
next
  case TaskStopAll
  show ?thesis unfolding TaskStopAll run_task_def engine_task.case stop_all_task_def
    by (rule foldl_preserves [where P = "objects Q"]) (use assms in \<open>simp_all add: objects_def post_def\<close>)
next
  case (TaskStop sid)
  with assms show ?thesis by (simp add: run_task_def stop_task_def on_session_def objects_def post_def)
qed (use assms in \<open>auto simp: run_task_def on_session_def intro!: objects_task_event\<close>)

lemma objects_step:
  assumes "engine_inv e" and "objects Q e" and "engine_enabled e ev"
  shows "objects Q (engine_step env e ev)"
proof (cases ev)
  case (EeRun now)
  show ?thesis
  proof (cases "eng_tasks e")
    case (Cons t ts)
    have "objects Q (e\<lparr>eng_tasks := ts\<rparr>)" using assms(2) by (simp add: objects_def)
    moreover have "tasks_ok (t # ts)" using assms(1) Cons by (simp add: engine_inv_def)
    ultimately show ?thesis using assms(2) by (simp add: EeRun Cons engine_step_def objects_task)
  qed (use assms in \<open>simp add: EeRun engine_step_def\<close>)
next
  case (EeRequest r)
  with assms(2) show ?thesis
    by (cases r) (simp_all add: engine_step_def request_def start_session_def objects_def post_def)
next
  case (EeSession now sid sev)
  with assms show ?thesis by (auto simp: engine_step_def engine_enabled_def intro!: objects_event)
qed (use assms in \<open>simp_all add: engine_step_def objects_def\<close>)

lemma objects_run:
  assumes "run_enabled engine_enabled (engine_step env) daemon_engine es"
    and "eng_objects (run_events (engine_step env) daemon_engine es) sid = Some s"
  shows "Q sid s"
proof -
  have step: "engine_inv e \<Longrightarrow> objects Q e \<Longrightarrow> run_enabled engine_enabled (engine_step env) e es \<Longrightarrow>
      objects Q (run_events (engine_step env) e es)" for e
    by (induction es arbitrary: e) (simp_all add: engine_step_ok objects_step)
  have "objects Q daemon_engine"
    by (simp add: objects_def daemon_engine_def engine_step_def new_engine_def)
  with step [OF daemon_engine_inv] assms show ?thesis by (auto simp: objects_def)
qed

end

section \<open>The registry\<close>

text \<open>What \<open>do_start_session\<close> registers: the channels in order, with the classes of the services.\<close>

definition class_table :: "'c engine_env \<Rightarrow> u32 \<Rightarrow> (byte \<times> string) list" where
  "class_table env sid =
     foldl (\<lambda>kvs (i, v). put_service (word_of_int i) (service_class v) kvs)
       [(kControlChannelId, ''ControlService'')] (ee_services env sid)"

definition typed_registry :: "'c engine_env \<Rightarrow> u32 \<Rightarrow> ('c, service) session \<Rightarrow> bool" where
  "typed_registry env sid s \<longleftrightarrow>
     sinks_as (well_typed False (map_of (class_table env sid))) s
     \<and> kept_until True (well_typed True (map_of (class_table env sid))) s
     \<and> map fst (ss_services s) = map fst (class_table env sid)"

lemma put_service_classes:
  "map (map_prod id f) (put_service ch v kvs) = put_service ch (f v) (map (map_prod id f) kvs)"
  by (induction kvs) (auto split: prod.split)

lemma class_table_sorted: "sorted_wrt (<) (map fst (class_table env sid))"
  unfolding class_table_def
  by (rule foldl_preserves [where P = "\<lambda>kvs. sorted_wrt (<) (map fst kvs)"])
     (auto simp: put_service_sorted)

lemma class_table_distinct: "distinct (map fst (class_table env sid))"
  using class_table_sorted strict_sorted_iff by blast

lemma channels_quiet: "quiet vops s s' \<Longrightarrow> map fst (ss_services s') = map fst (ss_services s)"
proof (induction rule: quiet.induct)
  case (quiet_error s ec)
  then show ?case
    by (cases "is_terminal (ss_state s)") (simp_all add: handle_error_live close_each_calls(2))
qed (auto simp: update_service_def enqueue_write_def do_write_next_def Let_def split: list.split)

lemma channels_micro: "micro vops s s' \<Longrightarrow> map fst (ss_services s') = map fst (ss_services s)"
  by (induction rule: micro.induct)
     (simp_all add: channels_quiet start_state_timer_def transition_to_def complete_disconnect_def)

lemma channels_step:
  assumes "session_enabled s te"
  shows "map fst (ss_services (session_step env s te)) = map fst (ss_services s)"
  using assms
  by (rule session_step_preserves [where P = "\<lambda>s'. map fst (ss_services s') = map fst (ss_services s)"])
     (auto simp: channels_micro do_write_next_def split: list.split)

text \<open>The services of a new session, before any event: those of the class table.\<close>

lemma local_call_services: "\<exists>l. c = Local l \<Longrightarrow> ss_services (perform_call ops vops ch c s) = ss_services s"
  by (auto simp: perform_call_def)

lemma new_services:
  "ss_services (session_with_services env now sid) =
     foldl (\<lambda>kvs (i, v). put_service (word_of_int i) v kvs)
       [(kControlChannelId, Svc_Control (fst (run_prog (control_on_channel_open now kControlChannelId
          (create_control_service env (assign_channels (ee_services env sid)))))))]
       (assign_channels (ee_services env sid))"
proof -
  let ?peers = "assign_channels (ee_services env sid)"
  let ?open = "run_prog (control_on_channel_open now kControlChannelId (create_control_service env ?peers))"
  have register: "ss_services (foldl (\<lambda>s (i, svc). register_service (word_of_int i) svc s) s peers) =
      foldl (\<lambda>kvs (i, v). put_service (word_of_int i) v kvs) (ss_services s) peers"
    for peers and s :: "('a, service) session"
    by (induction peers arbitrary: s) (auto simp: register_service_def)
  have "ss_services (foldl (\<lambda>s c. perform_call (ee_crypto env) (aap_services (ee_codec env) now) kControlChannelId c s)
      (create_session env sid) (snd ?open)) = []"
    using open_calls_local [of now kControlChannelId "create_control_service env ?peers"]
    by (intro foldl_preserves [where P = "\<lambda>s. ss_services s = []"])
       (simp_all add: local_call_services, simp add: create_session_def new_session_def)
  moreover obtain control calls where "?open = (control, calls)" by (cases ?open)
  ultimately show ?thesis
    by (simp add: session_with_services_def register_services_def register Let_def)
       (simp add: register_service_def)
qed

lemma open_control_channel:
  "channel_id (fst (run_prog (control_on_channel_open now kControlChannelId (create_control_service env peers)))) =
     kControlChannelId"
  by (simp add: control_on_channel_open_def run_prog_bind base_on_channel_open_def schedule_heartbeat_def
      create_control_service_def set_channel_def Let_def)

definition classes_of :: "(byte \<times> service) list \<Rightarrow> (byte \<times> string) list" where
  "classes_of kvs = map (\<lambda>kv. (fst kv, service_class (snd kv))) kvs"

lemma classes_of_put: "classes_of (put_service ch v kvs) = put_service ch (service_class v) (classes_of kvs)"
proof -
  have "classes_of kvs = map (map_prod id service_class) kvs" for kvs
    by (simp add: classes_of_def map_prod_def split_beta)
  then show ?thesis by (simp add: put_service_classes)
qed

lemma new_classes: "classes_of (ss_services (session_with_services env now sid)) = class_table env sid"
proof -
  have "classes_of (foldl (\<lambda>kvs (i, v). put_service (word_of_int i) v kvs) kvs (assign_channels peers)) =
      foldl (\<lambda>kvs (i, v). put_service (word_of_int i) (service_class v) kvs) (classes_of kvs) peers"
    for kvs and peers :: "(int \<times> service) list"
    by (induction peers arbitrary: kvs) (auto simp: assign_channels_def classes_of_put)
  then show ?thesis by (simp add: new_services class_table_def) (simp add: classes_of_def)
qed

lemma new_channels:
  "\<forall>kv\<in>set (ss_services (session_with_services env now sid)). service_channel (snd kv) = fst kv"
proof -
  let ?P = "\<lambda>kvs. \<forall>kv\<in>set kvs. service_channel (snd kv) = fst kv"
  have put: "?P (put_service ch v kvs)" if "?P kvs" "service_channel v = ch" for ch v kvs
    using that put_service_set [of ch v kvs] by auto
  have peers: "service_channel (snd p) = word_of_int (fst p)" if "p \<in> set (assign_channels ps)"
    for p and ps :: "(int \<times> service) list"
    using that by (auto simp: assign_channels_def)
  show ?thesis
    unfolding new_services
  proof (rule foldl_preserves [where P = ?P])
    show "?P (case p of (i, v) \<Rightarrow> put_service (word_of_int i) v kvs)"
      if "p \<in> set (assign_channels (ee_services env sid))" "?P kvs" for p kvs
      using put [OF that(2), of "snd p" "word_of_int (fst p)"] peers [OF that(1)] by (simp add: split_beta)
  qed (simp add: open_control_channel)
qed

lemma typed_registry_new: "typed_registry env sid (session_with_services env now sid)"
proof -
  let ?svcs = "ss_services (session_with_services env now sid)"
  have keys: "map fst ?svcs = map fst (class_table env sid)"
    by (simp add: new_classes [of env now sid, symmetric] classes_of_def comp_def)
  have "map_of (class_table env sid) (fst kv) = Some (service_class (snd kv))" if "kv \<in> set ?svcs" for kv
  proof -
    have "(fst kv, service_class (snd kv)) \<in> set (class_table env sid)"
      using that by (auto simp: new_classes [of env now sid, symmetric] classes_of_def)
    with class_table_distinct show ?thesis by (rule map_of_is_SomeI)
  qed
  then show ?thesis
    using keys new_channels [of env now sid]
    by (auto simp: typed_registry_def kept_until_def sinks_as_def well_typed_def own_channel_def)
qed

interpretation registry: session_property env "typed_registry env" for env
proof
  show "typed_registry env sid (session_with_services env now sid)" for sid now
    by (rule typed_registry_new)
  show "typed_registry env sid (session_step (session_env_of env) s (now, ev))"
    if "typed_registry env sid s" "session_enabled s (now, ev)" for sid s now ev
  proof -
    let ?s = "session_step (session_env_of env) s (now, ev)" and ?T = "map_of (class_table env sid)"
    have vops: "env_services (session_env_of env) now = aap_services (ee_codec env) now"
      by (simp add: session_env_of_def)
    have "sinks_as (well_typed False ?T) ?s"
      by (rule types.session_step_keeps [of False, unfolded kept_False, OF _ vops])
         (use that(1) in \<open>simp_all add: typed_registry_def\<close>)
    moreover have "kept_until True (well_typed True ?T) ?s"
      by (rule types.session_step_keeps [OF _ vops]) (use that(1) in \<open>simp_all add: typed_registry_def\<close>)
    ultimately show ?thesis
      using that(1) channels_step [OF that(2)] by (simp add: typed_registry_def)
  qed
qed

text \<open>
  C11. The registry stays well typed. In every run of the daemon, every session that was ever
  created has exactly the channels that were registered for it, in ascending order and
  without repetition, on each of them a service of the class it was created with. As long as
  the session has not reported its end, each service sends on the channel it is registered
  under; after that, on this channel or, once it has been closed, on 0.
\<close>

theorem registry_is_typed:
  assumes "run_enabled engine_enabled (engine_step env) daemon_engine es"
    and "eng_objects (run_events (engine_step env) daemon_engine es) sid = Some s"
  shows "classes_of (ss_services s) = class_table env sid
    \<and> sorted_wrt (<) (map fst (ss_services s))
    \<and> (\<forall>kv\<in>set (ss_services s). service_channel (snd kv) = fst kv
         \<or> ends (ss_log s) \<and> service_channel (snd kv) = 0)"
proof -
  let ?T = "class_table env sid"
  have typed: "typed_registry env sid s" by (rule registry.objects_run [OF assms])
  then have kind: "map_of ?T (fst kv) = Some (service_class (snd kv))" if "kv \<in> set (ss_services s)" for kv
    using that by (auto simp: typed_registry_def sinks_as_def well_typed_def)
  then have "classes_of (ss_services s) = map (\<lambda>k. (k, the (map_of ?T k))) (map fst (ss_services s))"
    by (simp add: classes_of_def)
  also have "\<dots> = map (\<lambda>k. (k, the (map_of ?T k))) (map fst ?T)"
    using typed by (simp add: typed_registry_def)
  also have "\<dots> = ?T"
    using class_table_distinct [of env sid] by (auto intro!: map_idI)
  finally show ?thesis
    using typed class_table_sorted [of env sid]
    by (auto simp: typed_registry_def kept_until_def has_ended_def sinks_as_def well_typed_def own_channel_def)
qed

lemma demo_class_table:
  "class_table demo_engine_env 1 =
     [(0, ''ControlService''), (1, ''VideoService''), (2, ''AudioService''), (3, ''AudioService''),
      (4, ''AudioService''), (5, ''InputService''), (6, ''SensorService''), (7, ''MicrophoneService''),
      (9, ''PhoneStatusService''), (10, ''MediaPlaybackService''), (13, ''BluetoothService'')]"
  by (simp add: class_table_def demo_engine_env_def create_services_def make_audio_def kControlChannelId_def)

lemma demo_engine_object:
  "\<exists>s. eng_objects (run_events (engine_step demo_engine_env) daemon_engine demo_engine_run) 1 = Some s"
  using engine_run_inv [OF demo_engine_enabled] demo_engine_sessions
  by (auto simp: engine_inv_def engine_ok_def)

section \<open>Sessions do not interfere\<close>

text \<open>
  The events that the daemon addresses to session \<open>sid\<close>: what a request for it does when its
  turn comes, if the session is still in the map; the change of the active session; and the
  completions of its own reads, writes and timers.
\<close>

definition if_listed :: "'c engine \<Rightarrow> u32 \<Rightarrow> u32 \<Rightarrow> session_event \<Rightarrow> session_event list" where
  "if_listed e sid k ev = (if k = sid \<and> sid \<in> set (eng_sessions e) then [ev] else [])"

definition of_task :: "'c engine \<Rightarrow> u32 \<Rightarrow> engine_task \<Rightarrow> session_event list" where
  "of_task e sid t =
     (case t of
        TaskBroadcast k b \<Rightarrow> if_listed e sid k (EvBroadcast b)
      | TaskPairing k status paired \<Rightarrow> if_listed e sid k (EvPairing status paired)
      | TaskAuth k status \<Rightarrow> if_listed e sid k (EvAuth status)
      | TaskSession k ev \<Rightarrow> (if k = sid then [ev] else [])
      | TaskSetActive k \<Rightarrow>
          (if k = eng_active e then []
           else if_listed e sid (eng_active e) (EvBroadcast BcDetachSinks)
             @ if_listed e sid k (EvBroadcast BcAttachSinks))
      | _ \<Rightarrow> [])"

definition addressed :: "u32 \<Rightarrow> 'c engine \<Rightarrow> engine_event \<Rightarrow> (int \<times> session_event) list" where
  "addressed sid e ev =
     (if eng_stopped e \<or> eng_objects e sid = None then []
      else case ev of
             EeRun now \<Rightarrow> (case eng_tasks e of [] \<Rightarrow> [] | t # ts \<Rightarrow> map (Pair now) (of_task e sid t))
           | EeSession now k sev \<Rightarrow> (if k = sid then [(now, sev)] else [])
           | _ \<Rightarrow> [])"

fun events_for :: "'c engine_env \<Rightarrow> u32 \<Rightarrow> 'c engine \<Rightarrow> engine_event list \<Rightarrow> (int \<times> session_event) list" where
  "events_for env sid e [] = []"
| "events_for env sid e (ev # es) = addressed sid e ev @ events_for env sid (engine_step env e ev) es"





subsection \<open>One step\<close>

abbreviation session_run :: "'c engine_env \<Rightarrow> ('c, service) session \<Rightarrow> (int \<times> session_event) list
    \<Rightarrow> ('c, service) session" where
  "session_run env \<equiv> run_events (session_step (session_env_of env))"

abbreviation session_run_enabled :: "'c engine_env \<Rightarrow> ('c, service) session
    \<Rightarrow> (int \<times> session_event) list \<Rightarrow> bool" where
  "session_run_enabled env \<equiv> run_enabled session_enabled (session_step (session_env_of env))"

lemma own_event:
  "eng_objects e sid = Some s \<Longrightarrow>
   eng_objects (eng_session_event env now k ev e) sid =
     Some (session_run env s (if k = sid then [(now, ev)] else []))"
  by (auto simp: eng_session_event_def Let_def split: option.split)

lemma own_listed_event:
  "eng_objects e sid = Some s \<Longrightarrow>
   eng_objects (on_session k (eng_session_event env now k ev) e) sid =
     Some (session_run env s (map (Pair now) (if_listed e sid k ev)))"
  by (auto simp: on_session_def if_listed_def own_event)

lemma listed_after_event:
  "k \<noteq> sid \<Longrightarrow> sid \<in> set (eng_sessions (eng_session_event env now k ev e)) \<longleftrightarrow> sid \<in> set (eng_sessions e)"
  by (auto simp: eng_session_event_def Let_def split: option.split)

lemma own_set_active:
  assumes "eng_objects e sid = Some s" and "0 \<notin> set (eng_sessions e)"
  shows "eng_objects (set_active_task env now k e) sid =
    Some (session_run env s (map (Pair now) (of_task e sid (TaskSetActive k))))"
proof (cases "eng_active e = k")
  case False
  let ?prev = "eng_active e"
  define e1 where "e1 = (if ?prev \<noteq> 0
      then on_session ?prev (eng_session_event env now ?prev (EvBroadcast BcDetachSinks)) e else e)"
  define s1 where "s1 = session_run env s (map (Pair now) (if_listed e sid ?prev (EvBroadcast BcDetachSinks)))"
  have e1: "eng_objects e1 sid = Some s1"
    using assms own_listed_event [OF assms(1)] by (auto simp: e1_def s1_def if_listed_def)
  have same: "k \<in> set (eng_sessions e1) \<longleftrightarrow> k \<in> set (eng_sessions e)"
    using False listed_after_event [of ?prev k] by (auto simp: e1_def on_session_def)
  then have "if_listed (e1\<lparr>eng_active := k\<rparr>) sid k ev = if_listed e sid k ev" for ev
    by (auto simp: if_listed_def)
  moreover have "k \<notin> set (eng_sessions e1) \<or> k \<noteq> 0" using same assms(2) by auto
  ultimately show ?thesis
    using False e1 own_listed_event [of "e1\<lparr>eng_active := k\<rparr>" sid s1 k env now]
    by (auto simp: set_active_task_def Let_def e1_def [symmetric] of_task_def s1_def run_events_append if_listed_def)
qed (simp add: set_active_task_def assms of_task_def)

lemma stop_all_objects [simp]: "eng_objects (stop_all_task e) = eng_objects e"
proof -
  have "eng_objects (foldl (\<lambda>e sid. post (TaskSession sid EvStop) e) e ks) = eng_objects e" for ks
    by (induction ks rule: rev_induct) (simp_all add: post_def)
  then show ?thesis by (simp add: stop_all_task_def)
qed

lemma own_task:
  assumes "eng_objects e sid = Some s" and "0 \<notin> set (eng_sessions e)" and "\<And>d. t \<noteq> TaskStart d sid"
  shows "eng_objects (run_task env now t e) sid =
    Some (session_run env s (map (Pair now) (of_task e sid t)))"
proof (cases t)
  case (TaskStart d k)
  with assms(1,3) show ?thesis
    by (auto simp: run_task_def of_task_def do_start_session_def report_start_session_failure_def callback_def
        eng_emit_def post_def Let_def split: sum.split option.split)
next
  case (TaskSetActive k)
  with own_set_active [OF assms(1,2)] show ?thesis by (simp add: run_task_def)
next
  case (TaskStop k)
  with assms(1) show ?thesis by (simp add: run_task_def of_task_def stop_task_def on_session_def post_def)
qed (use assms(1) in \<open>simp_all add: run_task_def of_task_def own_listed_event own_event\<close>)

lemma tasks_enabled:
  "\<forall>ev\<in>set evs. ev \<noteq> EvWrite None \<Longrightarrow> session_run_enabled env s (map (Pair now) evs)"
  by (induction evs arbitrary: s) (simp_all add: session_enabled_def)

lemma of_task_no_write: "tasks_ok [t] \<Longrightarrow> \<forall>ev\<in>set (of_task e sid t). ev \<noteq> EvWrite None"
  by (cases t) (auto simp: of_task_def if_listed_def)

lemma own_step:
  assumes "engine_inv e" and "engine_enabled e ev" and s: "eng_objects e sid = Some s"
  shows "eng_objects (engine_step env e ev) sid = Some (session_run env s (addressed sid e ev))"
    and "session_run_enabled env s (addressed sid e ev)"
proof -
  have fresh: "0 \<notin> set (eng_sessions e)" "sid \<notin> set (starting (eng_tasks e))"
    using assms(1) s by (force simp: engine_inv_def engine_ok_def ids_fresh_def)+
  have "eng_objects (engine_step env e ev) sid = Some (session_run env s (addressed sid e ev))
    \<and> session_run_enabled env s (addressed sid e ev)"
  proof (cases ev)
    case (EeRun now)
    show ?thesis
    proof (cases "eng_tasks e")
      case (Cons t ts)
      have "tasks_ok [t]" using assms(1) Cons by (simp add: engine_inv_def)
      moreover have "of_task (e\<lparr>eng_tasks := ts\<rparr>) sid t = of_task e sid t"
        by (simp add: of_task_def if_listed_def split: engine_task.split)
      moreover have "t \<noteq> TaskStart d sid" for d using fresh(2) by (auto simp: Cons)
      ultimately show ?thesis
        using s fresh(1) own_task [of "e\<lparr>eng_tasks := ts\<rparr>" sid s t env now]
        by (simp add: EeRun Cons engine_step_def addressed_def tasks_enabled of_task_no_write)
    qed (use s in \<open>simp add: EeRun engine_step_def addressed_def\<close>)
  next
    case (EeRequest r)
    with s show ?thesis
      by (cases r) (simp_all add: engine_step_def addressed_def request_def start_session_def post_def)
  next
    case (EeSession now k sev)
    then show ?thesis
      using s assms(2) by (auto simp: engine_step_def addressed_def own_event engine_enabled_def)
  qed (use s in \<open>simp_all add: engine_step_def addressed_def\<close>)
  then show "eng_objects (engine_step env e ev) sid = Some (session_run env s (addressed sid e ev))"
    "session_run_enabled env s (addressed sid e ev)" by simp_all
qed

lemma own_run:
  assumes "engine_inv e" and "run_enabled engine_enabled (engine_step env) e es" and "eng_objects e sid = Some s"
  shows "eng_objects (run_events (engine_step env) e es) sid = Some (session_run env s (events_for env sid e es))
    \<and> session_run_enabled env s (events_for env sid e es)"
  using assms
proof (induction es arbitrary: e s)
  case (Cons ev es)
  then show ?case
    using own_step [of e ev sid s env] engine_step_ok [of e ev env]
    by (simp add: run_events_append run_enabled_append)
qed simp

text \<open>Nothing but its start creates a session.\<close>

lemma creation_step:
  assumes "eng_objects e sid = None"
  shows "eng_objects (engine_step env e ev) sid = None
    \<or> (\<exists>now. ev = EeRun now \<and> eng_objects (engine_step env e ev) sid = Some (session_with_services env now sid))"
proof -
  have event: "eng_objects (eng_session_event env now k sev e) sid = None" if "eng_objects e sid = None"
    for now k sev and e :: "'a engine"
    using that by (auto simp: eng_session_event_def Let_def split: option.split)
  show ?thesis
  proof (cases ev)
    case (EeRun now)
    show ?thesis
    proof (cases "eng_tasks e")
      case (Cons t ts)
      then show ?thesis
        using assms
        by (cases t)
           (auto simp: EeRun engine_step_def run_task_def do_start_session_def report_start_session_failure_def
              callback_def eng_emit_def stop_task_def set_active_task_def on_session_def
              post_def event Let_def split: sum.split option.split)
    qed (use assms in \<open>simp add: EeRun engine_step_def\<close>)
  next
    case (EeRequest r)
    with assms show ?thesis
      by (cases r) (simp_all add: engine_step_def request_def start_session_def post_def)
  qed (use assms in \<open>simp_all add: engine_step_def event\<close>)
qed

lemma isolated_run:
  assumes "engine_inv e" and "run_enabled engine_enabled (engine_step env) e es" and "eng_objects e sid = None"
    and "eng_objects (run_events (engine_step env) e es) sid = Some s"
  shows "\<exists>now. EeRun now \<in> set es
    \<and> session_run_enabled env (session_with_services env now sid) (events_for env sid e es)
    \<and> s = session_run env (session_with_services env now sid) (events_for env sid e es)"
  using assms
proof (induction es arbitrary: e)
  case (Cons ev es)
  let ?e = "engine_step env e ev"
  have none: "addressed sid e ev = []" using Cons.prems(3) by (simp add: addressed_def)
  have rest: "engine_inv ?e" "run_enabled engine_enabled (engine_step env) ?e es"
    using Cons.prems(1,2) engine_step_ok by auto
  consider "eng_objects ?e sid = None"
    | now where "ev = EeRun now" "eng_objects ?e sid = Some (session_with_services env now sid)"
    using creation_step [OF Cons.prems(3), of env ev] by metis
  then show ?case
  proof cases
    case 1
    with Cons.IH [OF rest] Cons.prems(4) none show ?thesis by auto
  next
    case 2
    with own_run [OF rest, of sid] Cons.prems(4) none show ?thesis by auto
  qed
qed simp

subsection \<open>Where the events come from\<close>


definition waiting_for :: "u32 \<Rightarrow> engine_task list \<Rightarrow> session_event list" where
  "waiting_for sid ts = concat (map (\<lambda>t. case t of
      TaskBroadcast k b \<Rightarrow> (if k = sid then [EvBroadcast b] else [])
    | TaskPairing k status paired \<Rightarrow> (if k = sid then [EvPairing status paired] else [])
    | TaskAuth k status \<Rightarrow> (if k = sid then [EvAuth status] else [])
    | _ \<Rightarrow> []) ts)"

lemma waiting_for_simps [simp]:
  "waiting_for sid [] = []" "waiting_for sid (ts @ us) = waiting_for sid ts @ waiting_for sid us"
  by (simp_all add: waiting_for_def)

lemma react_waiting [simp]: "waiting_for k (eng_tasks (foldl (react sid) e cs)) = waiting_for k (eng_tasks e)"
proof -
  obtain ts where ts: "eng_tasks (foldl (react sid) e cs) = eng_tasks e @ ts"
    "\<forall>t\<in>set ts. t = TaskSession sid EvStop" using react_tasks by blast
  from ts(2) have "waiting_for k ts = []" by (induction ts) (simp_all add: waiting_for_def)
  with ts(1) show ?thesis by simp
qed

lemma event_waiting [simp]:
  "waiting_for k (eng_tasks (eng_session_event env now sid ev e)) = waiting_for k (eng_tasks e)"
  by (simp add: eng_session_event_def Let_def split: option.split)





lemma daemon_engine_empty:
  "eng_objects daemon_engine = Map.empty" "eng_tasks daemon_engine = []" "eng_stopped daemon_engine = False"
  by (simp_all add: daemon_engine_def engine_step_def new_engine_def)






lemma demo_engine_fresh:
  "\<exists>now. eng_objects (run_events (engine_step demo_engine_env) daemon_engine demo_engine_run) 1 =
     Some (session_with_services demo_engine_env now 1)"
proof -
  obtain s where s: "eng_objects (run_events (engine_step demo_engine_env) daemon_engine demo_engine_run) 1 = Some s"
    using demo_engine_object by blast
  have "events_for demo_engine_env 1 daemon_engine demo_engine_run = []"
    by (simp add: demo_engine_run_def addressed_def daemon_engine_empty engine_step_def request_def start_session_def
        post_def)
  then show ?thesis
    using s isolated_run [OF daemon_engine_inv demo_engine_enabled _ s] by (auto simp: daemon_engine_empty)
qed

theorem registry_is_typed_witness:
  "\<exists>s. eng_objects (run_events (engine_step demo_engine_env) daemon_engine demo_engine_run) 1 = Some s
    \<and> classes_of (ss_services s) = class_table demo_engine_env 1
    \<and> (\<forall>kv\<in>set (ss_services s). service_channel (snd kv) = fst kv)"
proof -
  obtain now where s: "eng_objects (run_events (engine_step demo_engine_env) daemon_engine demo_engine_run) 1 =
      Some (session_with_services demo_engine_env now 1)" using demo_engine_fresh by blast
  with registry_is_typed [OF demo_engine_enabled s] fresh_no_report [OF session_with_services_fresh] show ?thesis
    by blast
qed

end
