(* ===== verification/Aidl.thy ===== *)
theory Aidl
  imports Engine_Properties
begin

text \<open>
  \<open>AidlEngineController\<close> (\<open>impl/android/aidl/AidlEngineController.cpp\<close>), and the wiring of
  \<open>main.cpp\<close>: calls of the app become requests to the engine, and what the engine and
  the sinks report becomes calls on the app's callback.

  \<open>int32_t\<close> and \<open>uint32_t\<close> are both words of 32 bits; a cast between them is the identity.
  A call of the app is one step: the calls of other threads come before or after it. The results
  of \<open>dup\<close>, \<open>socket\<close>, \<open>bind\<close> and \<open>accept\<close> are arguments. The conversion to UTF-16 is not
  modelled; texts end at their first NUL, as \<open>c_str\<close> does.
\<close>

section \<open>State\<close>

datatype aidl_call =
    OnSessionConfig i32 u32 u32
  | OnSessionStateChanged i32 i32
  | OnSessionError i32 int string
  | OnPhoneIdentified i32 string
  | OnVideoData i32 i32 bytes i64 bool
  | OnAudioData i32 i32 bytes i64
  | OnVideoFocusChanged i32 bool
  | OnPlaybackStatus i32 i32 string i32 bool bool bool
  | OnPlaybackMetadata i32 string string string bytes string i32
  | OnPairingRequest i32 string int
  | OnAuthData i32 string int

record 'c controller =
  ac_engine :: "'c engine"
  ac_config :: platform_config
  ac_factory :: platform_config   \<comment> \<open>\<open>hu_\<close> of the service factory\<close>
  ac_callback :: "nat option"   \<comment> \<open>which \<open>IAAEngineCallback\<close> is registered; \<open>None\<close> is a null pointer\<close>
  ac_streams :: "u32 \<Rightarrow> byte \<Rightarrow> audio_stream_type"   \<comment> \<open>\<open>stream_type_\<close> of the audio sinks\<close>
  ac_closed :: "int list"
  ac_app :: "(nat \<times> aidl_call) list"   \<comment> \<open>the calls made on the callbacks\<close>

definition new_controller :: "'c controller" where
  "new_controller =
     \<lparr>ac_engine = engine_step undefined new_engine EeRegisterCallback, ac_config = daemon_config,
      ac_factory = daemon_config, ac_callback = None, ac_streams = (\<lambda>sid ch. StreamMedia),
      ac_closed = [], ac_app = []\<rparr>"

text \<open>The factories of \<open>main.cpp\<close>, around a crypto and a serializer.\<close>

definition daemon_env :: "'c engine_env \<Rightarrow> 'c controller \<Rightarrow> 'c engine_env" where
  "daemon_env env c = env\<lparr>ee_transport := create_transport,
     ee_services := (\<lambda>sid. create_services (ac_factory c)),
     ee_config := headunit_config.truncate (ac_config c)\<rparr>"

section \<open>From the engine to the app\<close>

definition c_str :: "string \<Rightarrow> string" where
  "c_str s = takeWhile (\<lambda>ch. ch \<noteq> CHR 0x00) s"

definition to_app :: "aidl_call \<Rightarrow> 'c controller \<Rightarrow> 'c controller" where
  "to_app a c = (case ac_callback c of None \<Rightarrow> c | Some cb \<Rightarrow> c\<lparr>ac_app := ac_app c @ [(cb, a)]\<rparr>)"

primrec status_code :: "session_status \<Rightarrow> i32" where
  "status_code StConnecting = 0"
| "status_code StHandshaking = 1"
| "status_code StRunning = 2"
| "status_code StDisconnecting = 3"
| "status_code StDisconnected = 4"
| "status_code StError = 5"

text \<open>\<open>ec.value()\<close>; 125 is \<open>ECANCELED\<close>, the value of \<open>operation_aborted\<close>.\<close>

primrec ec_value :: "error_code \<Rightarrow> int" where
  "ec_value (ErrAap e) = errc_value e"
| "ec_value ErrAborted = 125"
| "ec_value (ErrSystem n) = n"

definition forward_video :: "u32 \<Rightarrow> video_call \<Rightarrow> 'c controller \<Rightarrow> 'c controller" where
  "forward_video sid v c =
     (case callback_video_sink v of
        None \<Rightarrow> c
      | Some (data, ts, is_config) \<Rightarrow> to_app (OnVideoData sid 1 data ts is_config) c)"

definition forward_audio :: "u32 \<Rightarrow> byte \<Rightarrow> audio_call \<Rightarrow> 'c controller \<Rightarrow> 'c controller" where
  "forward_audio sid ch a c =
     (let (st, res) = callback_audio_sink (ac_streams c sid ch) a;
          c1 = c\<lparr>ac_streams := (ac_streams c)(sid := (ac_streams c sid)(ch := st))\<rparr>
      in case res of None \<Rightarrow> c1 | Some (code, data, ts) \<Rightarrow> to_app (OnAudioData sid code data ts) c1)"

definition forward_app :: "u32 \<Rightarrow> app_call \<Rightarrow> 'c controller \<Rightarrow> 'c controller" where
  "forward_app sid a c =
     (case a of
        CbVideoFocus projected \<Rightarrow> to_app (OnVideoFocusChanged sid projected) c
      | CbPairingRequest addr m \<Rightarrow> to_app (OnPairingRequest sid (c_str addr) m) c
      | CbAuthData data m \<Rightarrow> to_app (OnAuthData sid (c_str data) m) c
      | CbPlaybackStatus st src pos shuffle rep rep_one \<Rightarrow>
          to_app (OnPlaybackStatus sid st (c_str src) pos shuffle rep rep_one) c
      | CbPlaybackMetadata song artist album art playlist duration \<Rightarrow>
          to_app (OnPlaybackMetadata sid (c_str song) (c_str artist) (c_str album) art
            (c_str playlist) duration) c
      | _ \<Rightarrow> c)"

definition forward :: "'c controller \<Rightarrow> engine_call \<Rightarrow> 'c controller" where
  "forward c call =
     (case call of
        CbState sid st \<Rightarrow> to_app (OnSessionStateChanged sid (status_code st)) c
      | CbError sid ec detail \<Rightarrow> to_app (OnSessionError sid (ec_value ec) (c_str detail)) c
      | CbPhoneIdentified sid name \<Rightarrow> to_app (OnPhoneIdentified sid (c_str name)) c
      | OfSession sid sc \<Rightarrow>
          (case sc of
             FromService ch (VideoSink k v) \<Rightarrow> forward_video sid v c
           | FromService ch (AudioSink k a) \<Rightarrow> forward_audio sid ch a c
           | FromService ch (AppCall a) \<Rightarrow> forward_app sid a c
           | _ \<Rightarrow> c))"

definition engine_event :: "'c engine_env \<Rightarrow> engine_event \<Rightarrow> 'c controller \<Rightarrow> 'c controller" where
  "engine_event env ev c =
     (let e1 = engine_step (daemon_env env c) (ac_engine c) ev
      in foldl forward (c\<lparr>ac_engine := e1\<rparr>) (drop (length (eng_log (ac_engine c))) (eng_log e1)))"

section \<open>From the app to the engine\<close>

definition report_config :: "u32 \<Rightarrow> 'c controller \<Rightarrow> 'c controller" where
  "report_config sid c =
     to_app (OnSessionConfig sid (hu_video_width (ac_config c)) (hu_video_height (ac_config c))) c"

definition close_fd :: "int \<Rightarrow> 'c controller \<Rightarrow> 'c controller" where
  "close_fd fd c = c\<lparr>ac_closed := ac_closed c @ [fd]\<rparr>"

text \<open>The common part of the two ways to start: an id, or -1 and a closed descriptor.\<close>

definition start_with :: "int \<Rightarrow> string \<Rightarrow> 'c controller \<Rightarrow> i32 \<times> 'c controller" where
  "start_with fd descriptor c =
     (let (sid, e1) = start_session descriptor (ac_engine c);
          c1 = c\<lparr>ac_engine := e1\<rparr>
      in if sid = 0 then (-1, close_fd fd c1) else (sid, report_config sid c1))"

definition startSession :: "int \<Rightarrow> i32 \<Rightarrow> i32 \<Rightarrow> 'c controller \<Rightarrow> i32 \<times> 'c controller" where
  "startSession fd ep_in ep_out c =
     (if fd < 0 then (-1, c) else start_with fd (usb_descriptor fd (sint ep_in) (sint ep_out)) c)"

datatype accept_result = SocketFailed | BindFailed int | AcceptFailed int | Accepted int int

definition startTcpSession :: "accept_result \<Rightarrow> 'c controller \<Rightarrow> i32 \<times> 'c controller" where
  "startTcpSession res c =
     (case res of
        SocketFailed \<Rightarrow> (-1, c)
      | BindFailed server_fd \<Rightarrow> (-1, close_fd server_fd c)
      | AcceptFailed server_fd \<Rightarrow> (-1, close_fd server_fd c)
      | Accepted server_fd fd \<Rightarrow> start_with fd (tcp_descriptor fd) (close_fd server_fd c))"

datatype app_request =
    SendTouchEvent i32 i32 i32 i32
  | SendMediaKey i32 i32
  | ReleaseAudioFocus i32
  | GainAudioFocus i32
  | SetBluetoothMac string
  | CompletePairing i32 i32 bool
  | CompleteAuth i32 i32
  | SetVideoFocus i32 bool
  | AttachAllSinks i32
  | DetachAllSinks i32
  | StopSession i32
  | StopAll
  | RegisterCallback "nat option"

definition to_engine :: "engine_request \<Rightarrow> 'c controller \<Rightarrow> 'c controller" where
  "to_engine r c = c\<lparr>ac_engine := request r (ac_engine c)\<rparr>"

definition app_request_step :: "app_request \<Rightarrow> 'c controller \<Rightarrow> 'c controller" where
  "app_request_step b c =
     (case b of
        SendTouchEvent sid x y action \<Rightarrow> to_engine (ReqBroadcast sid (BcTouch x y action)) c
      | SendMediaKey sid keycode \<Rightarrow> to_engine (ReqBroadcast sid (BcMediaKey keycode)) c
      | ReleaseAudioFocus sid \<Rightarrow> to_engine (ReqBroadcast sid BcReleaseAudioFocus) c
      | GainAudioFocus sid \<Rightarrow> to_engine (ReqBroadcast sid BcGainAudioFocus) c
      | SetBluetoothMac mac \<Rightarrow> c\<lparr>ac_factory := set_bluetooth_mac (c_str mac) (ac_factory c)\<rparr>
      | CompletePairing sid status paired \<Rightarrow> to_engine (ReqPairing sid status paired) c
      | CompleteAuth sid status \<Rightarrow> to_engine (ReqAuth sid status) c
      | SetVideoFocus sid projected \<Rightarrow> to_engine (ReqBroadcast sid (BcVideoFocus projected)) c
      | AttachAllSinks sid \<Rightarrow> to_engine (ReqBroadcast sid BcAttachSinks) c
      | DetachAllSinks sid \<Rightarrow> to_engine (ReqBroadcast sid BcDetachSinks) c
      | StopSession sid \<Rightarrow> to_engine (ReqStop sid) c
      | StopAll \<Rightarrow> to_engine ReqStopAll c
      | RegisterCallback cb \<Rightarrow> c\<lparr>ac_callback := cb\<rparr>)"

datatype daemon_event =
    DeStartUsb int i32 i32
  | DeStartTcp accept_result
  | DeRequest app_request
  | DeEngine engine_event

definition daemon_step :: "'c engine_env \<Rightarrow> 'c controller \<Rightarrow> daemon_event \<Rightarrow> 'c controller" where
  "daemon_step env c ev =
     (case ev of
        DeStartUsb fd ep_in ep_out \<Rightarrow> snd (startSession fd ep_in ep_out c)
      | DeStartTcp res \<Rightarrow> snd (startTcpSession res c)
      | DeRequest b \<Rightarrow> app_request_step b c
      | DeEngine e \<Rightarrow> engine_event env e c)"

section \<open>Forwarding\<close>

definition calls_to :: "nat option \<Rightarrow> aidl_call \<Rightarrow> (nat \<times> aidl_call) list" where
  "calls_to r a = (case r of None \<Rightarrow> [] | Some cb \<Rightarrow> [(cb, a)])"

lemma to_app_simps [simp]:
  "ac_engine (to_app a c) = ac_engine c" "ac_callback (to_app a c) = ac_callback c"
  "ac_closed (to_app a c) = ac_closed c" "ac_streams (to_app a c) = ac_streams c"
  "ac_app (to_app a c) = ac_app c @ calls_to (ac_callback c) a"
  by (simp_all add: to_app_def calls_to_def split: option.split)

lemmas forward_defs = forward_def forward_video_def forward_audio_def forward_app_def Let_def split_beta

text \<open>What the callbacks have been told about the state of sessions: callback, session, code.\<close>

definition app_states :: "(nat \<times> aidl_call) list \<Rightarrow> (nat \<times> i32 \<times> i32) list" where
  "app_states as =
     concat (map (\<lambda>(cb, a). case a of OnSessionStateChanged sid st \<Rightarrow> [(cb, sid, st)] | _ \<Rightarrow> []) as)"

text \<open>The codes that one callback has been given for one session, and what the engine has reported.\<close>

definition told_codes :: "nat \<Rightarrow> i32 \<Rightarrow> (nat \<times> aidl_call) list \<Rightarrow> i32 list" where
  "told_codes cb sid as =
     map (snd \<circ> snd) (filter (\<lambda>(cb', sid', st). cb' = cb \<and> sid' = sid) (app_states as))"

definition reported :: "u32 \<Rightarrow> engine_call list \<Rightarrow> session_status list" where
  "reported sid cs =
     concat (map (\<lambda>c. case c of CbState k st \<Rightarrow> (if k = sid then [st] else []) | _ \<Rightarrow> []) cs)"

lemma app_states_append [simp]: "app_states (xs @ ys) = app_states xs @ app_states ys" "app_states [] = []"
  by (simp_all add: app_states_def)

lemma told_append [simp]:
  "told_codes cb sid (xs @ ys) = told_codes cb sid xs @ told_codes cb sid ys"
  "reported sid (cs @ ds) = reported sid cs @ reported sid ds"
  "told_codes cb sid [] = []" "reported sid [] = []"
  by (simp_all add: told_codes_def reported_def)

lemma calls_to_states [simp]:
  "app_states (calls_to r a) =
     (case r of None \<Rightarrow> [] | Some cb \<Rightarrow> (case a of OnSessionStateChanged sid st \<Rightarrow> [(cb, sid, st)] | _ \<Rightarrow> []))"
  by (simp add: calls_to_def app_states_def split: option.split aidl_call.split)

lemma calls_to_told [simp]:
  "told_codes cb sid (calls_to r a) =
     (case a of OnSessionStateChanged k st \<Rightarrow> (if r = Some cb \<and> k = sid then [st] else []) | _ \<Rightarrow> [])"
  by (auto simp: told_codes_def split: option.split aidl_call.split)

lemma forward_keeps [simp]:
  "ac_engine (forward c call) = ac_engine c" "ac_callback (forward c call) = ac_callback c"
  "ac_closed (forward c call) = ac_closed c"
  by (auto simp: forward_defs split: engine_call.split session_call.split local_call.split app_call.split option.split)

lemma forward_told:
  "told_codes cb sid (ac_app (forward c call)) =
     told_codes cb sid (ac_app c)
     @ (if ac_callback c = Some cb then map status_code (reported sid [call]) else [])"
  by (auto simp: forward_defs reported_def
      split: engine_call.split session_call.split local_call.split app_call.split option.split)

lemma forward_all [simp]:
  "ac_engine (foldl forward c calls) = ac_engine c" "ac_callback (foldl forward c calls) = ac_callback c"
  "ac_closed (foldl forward c calls) = ac_closed c"
  by (induction calls arbitrary: c) simp_all

lemma forward_all_told:
  "told_codes cb sid (ac_app (foldl forward c calls)) =
     told_codes cb sid (ac_app c)
     @ (if ac_callback c = Some cb then map status_code (reported sid calls) else [])"
proof (induction calls rule: rev_induct)
  case (snoc call calls)
  then show ?case using forward_told [of cb sid "foldl forward c calls" call] by simp
qed simp

section \<open>The daemon\<close>

text \<open>The engine's log only grows.\<close>

definition grows :: "'c engine \<Rightarrow> 'c engine \<Rightarrow> bool" where
  "grows e e1 \<longleftrightarrow> (\<exists>cs. eng_log e1 = eng_log e @ cs)"

lemma grows_refl [simp]: "grows e e"
  by (simp add: grows_def)

lemma grows_trans: "grows e e1 \<Longrightarrow> grows e1 e2 \<Longrightarrow> grows e e2"
  by (auto simp: grows_def)

lemma grows_emit [simp]:
  "grows e (eng_emit c e)" "grows e (callback c e)" "grows e (post t e)" "grows e (cleanup_session sid e)"
  by (auto simp: grows_def eng_emit_def callback_def post_def cleanup_session_def Let_def)

lemma grows_react: "grows e (react sid e c)"
proof -
  have "grows e (callback r (cleanup_session sid e))" for r
    by (rule grows_trans [OF grows_emit(4) grows_emit(2)])
  then show ?thesis
    by (auto simp: react_def on_session_state_changed_def on_session_error_def
        split: session_call.split local_call.split)
qed

lemma grows_foldl: "(\<And>e x. grows e (f e x)) \<Longrightarrow> grows e (foldl f e xs)"
  by (induction xs arbitrary: e) (auto intro: grows_trans)

lemma grows_same_log: "eng_log e1 = eng_log e \<Longrightarrow> grows e1 e2 \<Longrightarrow> grows e e2"
  by (simp add: grows_def)

lemma grows_event: "grows e (eng_session_event env now sid ev e)"
  by (auto simp: eng_session_event_def Let_def
      intro!: grows_same_log [OF _ grows_foldl [OF grows_react]] split: option.split)

lemma grows_start: "grows e (do_start_session env now d sid e)"
  unfolding do_start_session_def Let_def report_start_session_failure_def
  by (auto simp: grows_def [of e "e\<lparr>eng_stopped := True\<rparr>"]
      intro!: grows_trans [OF grows_same_log [OF _ grows_foldl [OF grows_react]] grows_emit(3)]
      split: sum.split option.split)

lemma grows_on_session: "(\<And>e. grows e (f e)) \<Longrightarrow> grows e (on_session sid f e)"
  by (simp add: on_session_def)

lemma grows_set_active: "grows e (set_active_task env now sid e)"
proof -
  have event: "grows e (on_session k (eng_session_event env now k ev) e)" for k ev e
    by (rule grows_on_session) (rule grows_event)
  have "grows e (e\<lparr>eng_active := k\<rparr>)" for k and e :: "'a engine" by (simp add: grows_def)
  then show ?thesis
    using event by (simp add: set_active_task_def Let_def) (meson grows_trans)
qed

lemma grows_task: "grows e (run_task env now t e)"
  by (auto simp: run_task_def stop_task_def stop_all_task_def
      intro!: grows_on_session grows_event grows_start grows_set_active grows_foldl split: engine_task.split)

lemma grows_step: "grows e (engine_step env e ev)"
proof (cases ev)
  case (EeRequest r)
  then show ?thesis
    by (cases r) (simp_all add: engine_step_def request_def start_session_def grows_def post_def)
next
  case (EeRun now)
  have "grows e (run_task env now t (e\<lparr>eng_tasks := ts\<rparr>))" for t ts
    by (rule grows_same_log [OF _ grows_task]) simp
  then show ?thesis by (simp add: EeRun engine_step_def split: list.split)
qed (simp_all add: engine_step_def grows_event, simp_all add: grows_def)

definition daemon_enabled :: "'c controller \<Rightarrow> daemon_event \<Rightarrow> bool" where
  "daemon_enabled c ev \<longleftrightarrow>
     (case ev of
        DeEngine e \<Rightarrow> engine_enabled (ac_engine c) e
      | _ \<Rightarrow> eng_next (ac_engine c) + 1 \<noteq> 0)"

text \<open>
  What one step of the daemon does: the engine moves by one of its steps, or makes a request,
  or stays; and the registered callback is told what the engine reports in the step.
\<close>

definition says :: "'c controller \<Rightarrow> 'c controller \<Rightarrow> bool" where
  "says c c' \<longleftrightarrow> (\<exists>cs. eng_log (ac_engine c') = eng_log (ac_engine c) @ cs
     \<and> (\<forall>cb sid. told_codes cb sid (ac_app c') = told_codes cb sid (ac_app c)
          @ (if ac_callback c = Some cb then map status_code (reported sid cs) else [])))"

lemma says_same:
  "eng_log (ac_engine c') = eng_log (ac_engine c) \<Longrightarrow>
   (\<And>cb sid. told_codes cb sid (ac_app c') = told_codes cb sid (ac_app c)) \<Longrightarrow> says c c'"
  unfolding says_def by (intro exI [of _ "[]"]) simp

lemma request_keeps_log [simp]: "eng_log (request r e) = eng_log e"
  by (cases r) (simp_all add: request_def start_session_def post_def)

lemma engine_event_step:
  assumes "engine_inv (ac_engine c)" and "engine_enabled (ac_engine c) ev"
  shows "engine_inv (ac_engine (engine_event env ev c))" and "says c (engine_event env ev c)"
proof -
  let ?e = "engine_step (daemon_env env c) (ac_engine c) ev"
  show "engine_inv (ac_engine (engine_event env ev c))"
    using assms by (simp add: engine_event_def Let_def engine_step_ok)
  obtain cs where cs: "eng_log ?e = eng_log (ac_engine c) @ cs"
    using grows_step [of "ac_engine c" "daemon_env env c" ev] unfolding grows_def by blast
  then show "says c (engine_event env ev c)"
    unfolding says_def
    by (intro exI [of _ cs]) (simp add: engine_event_def Let_def forward_all_told)
qed

lemma start_with_step:
  assumes "engine_inv (ac_engine c)" and "eng_next (ac_engine c) + 1 \<noteq> 0"
  shows "engine_inv (ac_engine (snd (start_with fd d c)))" and "says c (snd (start_with fd d c))"
proof -
  have "engine_inv (request (ReqStart d) (ac_engine c))"
    using assms by (intro request_ok) (simp_all add: engine_enabled_def)
  then have "engine_inv (snd (start_session d (ac_engine c)))" by (simp add: request_def)
  then show "engine_inv (ac_engine (snd (start_with fd d c)))" "says c (snd (start_with fd d c))"
    by (auto simp: start_with_def Let_def split_beta close_fd_def report_config_def start_session_def post_def
        intro!: says_same)
qed

lemma daemon_step_ok:
  assumes "engine_inv (ac_engine c)" and "daemon_enabled c ev"
  shows "engine_inv (ac_engine (daemon_step env c ev))" and "says c (daemon_step env c ev)"
proof -
  have "engine_inv (ac_engine (daemon_step env c ev)) \<and> says c (daemon_step env c ev)"
  proof (cases ev)
    case (DeStartUsb fd ep_in ep_out)
    then show ?thesis
      using assms start_with_step [of c]
      by (auto simp: daemon_step_def startSession_def daemon_enabled_def intro!: says_same)
  next
    case (DeStartTcp res)
    have closed: "ac_engine (close_fd fd c) = ac_engine c" "ac_app (close_fd fd c) = ac_app c"
      "ac_callback (close_fd fd c) = ac_callback c" for fd by (simp_all add: close_fd_def)
    have "says (close_fd fd c) c' = says c c'" for fd c' by (simp add: says_def closed)
    then show ?thesis
      using assms start_with_step [of "close_fd fd c" for fd] closed
      by (auto simp: DeStartTcp daemon_step_def startTcpSession_def daemon_enabled_def intro!: says_same
          split: accept_result.split)
  next
    case (DeRequest b)
    have "engine_inv (ac_engine (to_engine r c)) \<and> says c (to_engine r c)" if "\<And>d. r \<noteq> ReqStart d" for r
      using assms(1) that request_ok [of "ac_engine c" r]
      by (auto simp: to_engine_def engine_enabled_def intro!: says_same split: engine_request.splits)
    moreover have "says c (c\<lparr>ac_factory := f\<rparr>)" "says c (c\<lparr>ac_callback := r\<rparr>)" for f r
      by (simp_all add: says_same)
    ultimately show ?thesis
      using assms(1) by (simp add: DeRequest daemon_step_def app_request_step_def split: app_request.split)
  next
    case (DeEngine e)
    then show ?thesis
      using assms engine_event_step [of c e env] by (simp add: daemon_step_def daemon_enabled_def)
  qed
  then show "engine_inv (ac_engine (daemon_step env c ev))" "says c (daemon_step env c ev)" by simp_all
qed

interpretation daemon_machine: invariant_machine "daemon_step env" daemon_enabled "\<lambda>c. engine_inv (ac_engine c)"
    for env
  by unfold_locales (rule daemon_step_ok(1))

lemma new_controller_inv: "engine_inv (ac_engine new_controller)"
  using daemon_engine_inv by (simp add: new_controller_def daemon_engine_def)

lemma daemon_run_inv:
  "run_enabled daemon_enabled (daemon_step env) new_controller es \<Longrightarrow>
   engine_inv (ac_engine (run_events (daemon_step env) new_controller es))"
  by (rule daemon_machine.run_inv [OF new_controller_inv])

text \<open>No callback is ever told about a session of which the engine has reported nothing.\<close>

definition no_rumours :: "'c controller \<Rightarrow> bool" where
  "no_rumours c \<longleftrightarrow> (\<forall>cb sid. reported sid (eng_log (ac_engine c)) = [] \<longrightarrow> told_codes cb sid (ac_app c) = [])"

lemma no_rumours_run:
  "engine_inv (ac_engine c) \<Longrightarrow> no_rumours c \<Longrightarrow> run_enabled daemon_enabled (daemon_step env) c es \<Longrightarrow>
   no_rumours (run_events (daemon_step env) c es)"
proof (induction es arbitrary: c)
  case (Cons ev es)
  have "no_rumours (daemon_step env c ev)"
    using daemon_step_ok(2) [of c ev env] Cons.prems by (auto simp: no_rumours_def says_def)
  then show ?case using Cons daemon_step_ok(1) [of c ev env] by simp
qed simp

section \<open>What a registered callback is told\<close>

definition keeps_callback :: "nat \<Rightarrow> daemon_event \<Rightarrow> bool" where
  "keeps_callback cb ev \<longleftrightarrow> (\<forall>r. ev = DeRequest (RegisterCallback r) \<longrightarrow> r = Some cb)"

lemma callback_step:
  assumes "ac_callback c = Some cb" and "keeps_callback cb ev"
  shows "ac_callback (daemon_step env c ev) = Some cb"
  using assms
  by (cases ev)
     (auto simp: daemon_step_def startSession_def startTcpSession_def start_with_def Let_def split_beta
        close_fd_def report_config_def to_engine_def app_request_step_def engine_event_def keeps_callback_def
        split: accept_result.split app_request.split)

lemma told_what_is_reported:
  assumes "engine_inv (ac_engine c)" and "run_enabled daemon_enabled (daemon_step env) c es"
    and "ac_callback c = Some cb" and "\<forall>ev\<in>set es. keeps_callback cb ev"
    and "told_codes cb sid (ac_app c) = map status_code (reported sid (eng_log (ac_engine c)))"
  defines "c' \<equiv> run_events (daemon_step env) c es"
  shows "told_codes cb sid (ac_app c') = map status_code (reported sid (eng_log (ac_engine c')))"
  using assms(1-5) unfolding c'_def
proof (induction es arbitrary: c)
  case (Cons ev es)
  have "told_codes cb sid (ac_app (daemon_step env c ev)) =
      map status_code (reported sid (eng_log (ac_engine (daemon_step env c ev))))"
    using daemon_step_ok(2) [of c ev env] Cons.prems by (auto simp: says_def)
  then show ?case
    using Cons.IH [of "daemon_step env c ev"] Cons.prems daemon_step_ok(1) [of c ev env] callback_step [of c cb ev env]
    by simp
qed simp

lemma last_told_reported:
  "last_told sid log = (if reported sid log = [] then StConnecting else last (reported sid log))"
proof (induction log rule: rev_induct)
  case (snoc c log)
  have "reported sid [c] = (case c of CbState k st \<Rightarrow> if k = sid then [st] else [] | _ \<Rightarrow> [])"
    by (simp add: reported_def)
  with snoc show ?case by (cases c) (simp_all add: told_def)
qed (simp add: last_told_def)

lemma reported_none: "(\<And>st. CbState sid st \<notin> set log) \<Longrightarrow> reported sid log = []"
  by (induction log) (auto simp: reported_def split: engine_call.split)

section \<open>Properties\<close>

text \<open>
  The number that the interface documents for each state of a session: the values of
  \<open>engine::SessionStatus\<close>, with one value for the two phases of the handshake.
\<close>

primrec documented_status :: "session_state \<Rightarrow> i32" where
  "documented_status Idle = 0"
| "documented_status VersionExchange = 1"
| "documented_status SslHandshake = 1"
| "documented_status Running = 2"
| "documented_status Disconnecting = 3"
| "documented_status Disconnected = 4"
| "documented_status SessionError = 5"

lemma documented: "status_code (session_status_of st) = documented_status st"
  by (cases st) simp_all

text \<open>
  C12. A registered callback is kept informed. Let the app register a callback before a session
  is created and keep it registered (it may register it again, and may have had others before).
  Then at any later time of any run of the daemon the last status that this callback was given for the
  session is the documented number of the state that the session is in; and if it was given
  none, the session has not been started yet. Sessions that the engine still lists are alive.
\<close>

theorem app_knows_every_session:
  assumes "run_enabled daemon_enabled (daemon_step env) new_controller (es1 @ es2)"
    and "ac_callback (run_events (daemon_step env) new_controller es1) = Some cb"
    and "eng_objects (ac_engine (run_events (daemon_step env) new_controller es1)) sid = None"
    and "\<forall>ev\<in>set es2. keeps_callback cb ev"
  defines "c \<equiv> run_events (daemon_step env) new_controller (es1 @ es2)"
  assumes "eng_objects (ac_engine c) sid = Some s"
  defines "codes \<equiv> told_codes cb sid (ac_app c)"
  shows "(if codes = [] then ss_state s = Idle else last codes = documented_status (ss_state s))
    \<and> (sid \<in> set (eng_sessions (ac_engine c)) \<longrightarrow> \<not> is_terminal (ss_state s))"
proof -
  let ?c1 = "run_events (daemon_step env) new_controller es1"
  have runs: "run_enabled daemon_enabled (daemon_step env) new_controller es1"
    "run_enabled daemon_enabled (daemon_step env) ?c1 es2"
    using assms(1) by (simp_all add: run_enabled_append)
  have inv1: "engine_inv (ac_engine ?c1)" by (rule daemon_run_inv [OF runs(1)])
  have "no_rumours (new_controller :: 'a controller)" by (simp add: no_rumours_def new_controller_def)
  then have quiet: "no_rumours ?c1" by (rule no_rumours_run [OF new_controller_inv _ runs(1)])
  have none: "reported sid (eng_log (ac_engine ?c1)) = []"
    using inv1 assms(3) by (intro reported_none) (simp add: engine_inv_def engine_ok_def)
  with quiet have base: "told_codes cb sid (ac_app ?c1) = map status_code (reported sid (eng_log (ac_engine ?c1)))"
    by (simp add: no_rumours_def)
  have codes: "codes = map status_code (reported sid (eng_log (ac_engine c)))"
    using told_what_is_reported [OF inv1 runs(2) assms(2,4) base] by (simp add: codes_def c_def)
  have inv: "engine_inv (ac_engine c)" unfolding c_def by (rule daemon_run_inv [OF assms(1)])
  then have "last_told sid (eng_log (ac_engine c)) = session_status_of (ss_state s)"
    "sid \<in> set (eng_sessions (ac_engine c)) \<longrightarrow> \<not> is_terminal (ss_state s)"
    using assms(6) by (force simp: engine_inv_def engine_ok_def)+
  moreover have "session_status_of st = StConnecting \<Longrightarrow> st = Idle" for st by (cases st) simp_all
  ultimately show ?thesis
    by (auto simp: codes last_told_reported last_map documented [symmetric] split: if_splits)
qed

text \<open>
  C13. Starting a session works end to end. If the app passes a descriptor that can be
  duplicated and endpoint addresses that are not negative while the engine is idle and has not
  been stopped, \<open>startSession\<close> returns a new id, and the engine's next task creates a session
  under that id, lists it, and gives it the USB transport on exactly that descriptor, with the
  first endpoint for reading and the second for writing.
\<close>

theorem start_session_end_to_end:
  assumes "run_enabled daemon_enabled (daemon_step env) new_controller es"
  defines "c \<equiv> run_events (daemon_step env) new_controller es"
  assumes "eng_tasks (ac_engine c) = []" and "\<not> eng_stopped (ac_engine c)"
    and "0 \<le> fd" and "fd < 2 ^ 31" and "0 \<le> sint ep_in" and "0 \<le> sint ep_out"
  defines "r \<equiv> startSession fd ep_in ep_out c"
  defines "e \<equiv> \<lambda>now. ac_engine (engine_event env (EeRun now) (snd r))"
  shows "eng_objects (ac_engine c) (fst r) = None
    \<and> fst r \<in> set (eng_sessions (e now)) \<and> eng_objects (e now) (fst r) \<noteq> None
    \<and> eng_transports (e now) (fst r) = Some (AndroidUsb fd (sint ep_in) (sint ep_out))"
proof -
  let ?e = "ac_engine c" and ?d = "usb_descriptor fd (sint ep_in) (sint ep_out)"
  have inv: "engine_inv ?e" unfolding c_def by (rule daemon_run_inv [OF assms(1)])
  then have next_id: "eng_next ?e \<noteq> 0" "eng_objects ?e (eng_next ?e) = None"
    by (force simp: engine_inv_def engine_ok_def ids_fresh_def)+
  have "sint ep_in < 2 ^ 31" "sint ep_out < 2 ^ 31" using sint_less [of ep_in] sint_less [of ep_out] by simp_all
  then have opens: "create_transport ?d = Inr (Some (AndroidUsb fd (sint ep_in) (sint ep_out)))"
    using assms(5-8) create_transport_descriptors by blast
  have r: "fst r = eng_next ?e" "ac_engine (snd r) = snd (start_session ?d ?e)"
    using assms(5) next_id(1) by (simp_all add: r_def startSession_def start_with_def Let_def split_beta
        report_config_def start_session_def)
  have transports: "eng_transports (foldl (react sid) e cs) = eng_transports e" for sid cs and e :: "'a engine"
    by (induction cs arbitrary: e) (simp_all add: react_transports)
  show ?thesis
    using assms(3,4) next_id opens r fresh_no_report [OF session_with_services_fresh]
    by (simp add: e_def engine_event_def engine_step_def start_session_def post_def run_task_def
        do_start_session_def daemon_env_def Let_def set_insort_key transports)
qed

text \<open>A callback is registered, and a USB session is opened on descriptor 42.\<close>

definition demo_daemon_run :: "daemon_event list" where
  "demo_daemon_run = [DeStartUsb 42 129 1, DeEngine (EeRun 0)]"

lemma demo_daemon_enabled:
  "run_enabled daemon_enabled (daemon_step demo_engine_env) new_controller
     ([DeRequest (RegisterCallback (Some 7))] @ demo_daemon_run)"
  by (simp add: demo_daemon_run_def daemon_enabled_def daemon_step_def app_request_step_def new_controller_def
      engine_step_def new_engine_def engine_enabled_def)

lemma demo_daemon_session:
  "\<exists>s. eng_objects (ac_engine (run_events (daemon_step demo_engine_env) new_controller
      ([DeRequest (RegisterCallback (Some 7))] @ demo_daemon_run))) 1 = Some s"
proof -
  have "create_transport (usb_descriptor 42 129 1) = Inr (Some (AndroidUsb 42 129 1))"
    using create_transport_descriptors [of 42 129 1] by simp
  then show ?thesis
    by (simp add: demo_daemon_run_def daemon_step_def startSession_def start_with_def start_session_def
        app_request_step_def new_controller_def engine_step_def new_engine_def
        engine_event_def daemon_env_def post_def run_task_def do_start_session_def report_config_def Let_def)
qed

theorem app_knows_every_session_witness:
  "\<exists>s codes. eng_objects (ac_engine (run_events (daemon_step demo_engine_env) new_controller
      ([DeRequest (RegisterCallback (Some 7))] @ demo_daemon_run))) 1 = Some s
    \<and> codes = told_codes 7 1 (ac_app (run_events (daemon_step demo_engine_env) new_controller
      ([DeRequest (RegisterCallback (Some 7))] @ demo_daemon_run)))
    \<and> (if codes = [] then ss_state s = Idle else last codes = documented_status (ss_state s))"
proof -
  have "ac_callback (run_events (daemon_step demo_engine_env) new_controller [DeRequest (RegisterCallback (Some 7))]) = Some 7"
    "eng_objects (ac_engine (run_events (daemon_step demo_engine_env) new_controller
      [DeRequest (RegisterCallback (Some 7))])) 1 = None"
    by (simp_all add: daemon_step_def app_request_step_def new_controller_def engine_step_def new_engine_def)
  moreover have "\<forall>ev\<in>set demo_daemon_run. keeps_callback 7 ev"
    by (simp add: demo_daemon_run_def keeps_callback_def)
  ultimately show ?thesis
    using demo_daemon_session app_knows_every_session [OF demo_daemon_enabled] by blast
qed

theorem start_session_end_to_end_witness:
  "eng_transports (ac_engine (engine_event demo_engine_env (EeRun 0) (snd (startSession 42 129 1 new_controller)))) 1
     = Some (AndroidUsb 42 129 1)"
proof -
  have start: "eng_tasks (ac_engine (new_controller :: mock_crypto controller)) = []"
      "\<not> eng_stopped (ac_engine (new_controller :: mock_crypto controller))"
      "fst (startSession 42 129 1 (new_controller :: mock_crypto controller)) = 1"
    by (simp_all add: new_controller_def engine_step_def new_engine_def
        startSession_def start_with_def start_session_def report_config_def)
  show ?thesis
    using start_session_end_to_end [of demo_engine_env "[]" 42 129 1 0] start by simp
qed

end
