(* ===== verification/Daemon.thy ===== *)
theory Daemon
  imports Aidl
begin

text \<open>
  The program (\<open>main\<close> in \<open>impl/android/main/main.cpp\<close>): registration with the service manager, the
  signals, the event loop and the status it exits with. The daemon that runs in the loop is
  \<open>Aidl.daemon_step\<close>; binder threads, the threads of the transports and signals come between its steps.
\<close>

section \<open>The program\<close>

text \<open>
  \<open>pg_engine\<close> says that \<open>g_engine\<close> is set, \<open>pg_exit\<close> is the exit status once the program has
  ended. An exception that nobody catches ends it in \<open>std::terminate\<close>, with \<open>SIGABRT\<close>; a shell
  reports that as 134.
\<close>

record 'c program =
  pg_daemon :: "'c controller"
  pg_engine :: bool
  pg_exit :: "int option"

datatype signal = SigInt | SigTerm

definition exit_abort :: int where "exit_abort = 134"

text \<open>Up to \<open>engine.run\<close>; the argument says whether \<open>addService\<close> returned \<open>android::OK\<close>.\<close>

definition main_start :: "bool \<Rightarrow> 'c program" where
  "main_start registered =
     \<lparr>pg_daemon = new_controller, pg_engine = True, pg_exit = (if registered then None else Some 1)\<rparr>"

definition engine_shutdown :: "'c controller \<Rightarrow> 'c controller" where
  "engine_shutdown c = c\<lparr>ac_engine := engine_step undefined (ac_engine c) EeShutdown\<rparr>"

definition signal_handler :: "signal \<Rightarrow> 'c program \<Rightarrow> 'c program" where
  "signal_handler sig p = (if pg_engine p then p\<lparr>pg_daemon := engine_shutdown (pg_daemon p)\<rparr> else p)"

text \<open>
  \<open>engine.run(1)\<close> returns once the io context has been stopped; then \<open>g_engine\<close> is reset. At the end
  of \<open>main\<close> its objects are destroyed, and with them the sessions and their transports.
\<close>

definition loop_returns :: "'c program \<Rightarrow> 'c program" where
  "loop_returns p = (if eng_stopped (ac_engine (pg_daemon p)) then p\<lparr>pg_engine := False\<rparr> else p)"

definition main_ends :: "'c program \<Rightarrow> 'c program" where
  "main_ends p = (if pg_engine p then p else p\<lparr>pg_exit := Some 0\<rparr>)"

datatype program_event =
    PgDaemon daemon_event
  | PgSignal signal
  | PgLoopReturns
  | PgMainEnds
  | PgTransportDies u32   \<comment> \<open>the transport of a session is destroyed with its threads not joined\<close>

text \<open>
  A step of the loop that stops the engine by itself is one that has thrown. A transport whose
  threads were not joined ends the program when it is destroyed, in the loop or at the end of
  \<open>main\<close>: by \<open>Tcp_Transport.peer_close_is_fatal\<close> that is what becomes of a TCP transport whose
  peer has closed the connection. (The USB transport always joins: \<open>Usb_Transport\<close>.)
\<close>

definition program_step :: "'c engine_env \<Rightarrow> 'c program \<Rightarrow> program_event \<Rightarrow> 'c program" where
  "program_step env p ev =
     (if pg_exit p \<noteq> None then p
      else case ev of
             PgDaemon de \<Rightarrow>
               let c = daemon_step env (pg_daemon p) de;
                   thrown = (\<not> eng_stopped (ac_engine (pg_daemon p)) \<and> eng_stopped (ac_engine c))
               in p\<lparr>pg_daemon := c, pg_exit := if thrown then Some exit_abort else None\<rparr>
           | PgSignal sig \<Rightarrow> signal_handler sig p
           | PgLoopReturns \<Rightarrow> loop_returns p
           | PgMainEnds \<Rightarrow> main_ends p
           | PgTransportDies sid \<Rightarrow> p\<lparr>pg_exit := Some exit_abort\<rparr>)"



section \<open>No task throws\<close>

text \<open>The descriptors of the sessions that wait to be started.\<close>

definition start_texts :: "engine_task list \<Rightarrow> string list" where
  "start_texts ts = concat (map (\<lambda>t. case t of TaskStart d sid \<Rightarrow> [d] | _ \<Rightarrow> []) ts)"

lemma start_texts_simps [simp]:
  "start_texts [] = []" "start_texts (ts @ us) = start_texts ts @ start_texts us"
  "start_texts (t # ts) = (case t of TaskStart d sid \<Rightarrow> [d] | _ \<Rightarrow> []) @ start_texts ts"
  by (simp_all add: start_texts_def)


lemma react_start_texts [simp]: "start_texts (eng_tasks (foldl (react sid) e cs)) = start_texts (eng_tasks e)"
proof -
  obtain ts where ts: "eng_tasks (foldl (react sid) e cs) = eng_tasks e @ ts"
    "\<forall>t\<in>set ts. t = TaskSession sid EvStop" using react_tasks by blast
  from ts(2) have "start_texts ts = []" by (induction ts) simp_all
  with ts(1) show ?thesis by simp
qed

lemma event_start_texts [simp]:
  "start_texts (eng_tasks (eng_session_event env now sid ev e)) = start_texts (eng_tasks e)"
  "eng_stopped (eng_session_event env now sid ev e) = eng_stopped e"
  by (simp_all add: eng_session_event_def Let_def split: option.split)

lemma stop_all_keeps [simp]:
  "start_texts (eng_tasks (stop_all_task e)) = start_texts (eng_tasks e)"
  "eng_stopped (stop_all_task e) = eng_stopped e"
proof -
  have "start_texts (eng_tasks (foldl (\<lambda>e sid. post (TaskSession sid EvStop) e) e sids)) = start_texts (eng_tasks e)
      \<and> eng_stopped (foldl (\<lambda>e sid. post (TaskSession sid EvStop) e) e sids) = eng_stopped e" for sids
    by (rule foldl_preserves [where P = "\<lambda>e'. start_texts (eng_tasks e') = start_texts (eng_tasks e)
        \<and> eng_stopped e' = eng_stopped e"]) (simp_all add: post_def)
  then show "start_texts (eng_tasks (stop_all_task e)) = start_texts (eng_tasks e)"
    "eng_stopped (stop_all_task e) = eng_stopped e"
    by (simp_all add: stop_all_task_def)
qed







section \<open>What ends the program\<close>








section \<open>What a signal leaves behind\<close>

lemma stopped_daemon_step:
  assumes "eng_stopped (ac_engine c)"
  shows "eng_stopped (ac_engine (daemon_step env c de))
    \<and> eng_objects (ac_engine (daemon_step env c de)) = eng_objects (ac_engine c)
    \<and> app_states (ac_app (daemon_step env c de)) = app_states (ac_app c)"
proof -
  have start: "eng_stopped (ac_engine (snd (start_with fd d c))) = eng_stopped (ac_engine c)
      \<and> eng_objects (ac_engine (snd (start_with fd d c))) = eng_objects (ac_engine c)
      \<and> app_states (ac_app (snd (start_with fd d c))) = app_states (ac_app c)" for fd d and c :: "'a controller"
    by (simp add: start_with_def start_session_def post_def Let_def close_fd_def report_config_def split: option.split)
  have close: "ac_engine (close_fd fd c) = ac_engine c" "ac_app (close_fd fd c) = ac_app c" for fd
    by (simp_all add: close_fd_def)
  have req: "eng_stopped (request q e) = eng_stopped e" "eng_objects (request q e) = eng_objects e"
    for q and e :: "'a engine"
    by (cases q; simp add: request_def start_session_def post_def)+
  have engine: "eng_stopped (engine_step env' (ac_engine c) e)
      \<and> eng_objects (engine_step env' (ac_engine c) e) = eng_objects (ac_engine c)
      \<and> eng_log (engine_step env' (ac_engine c) e) = eng_log (ac_engine c)" for env' e
    using assms req by (cases e) (simp_all add: engine_step_def)
  show ?thesis
    using assms start close req engine
    by (cases de) (auto simp: daemon_step_def startSession_def startTcpSession_def app_request_step_def
        to_engine_def engine_event_def Let_def split: accept_result.split app_request.split)
qed

lemma stopped_program_step:
  assumes "eng_stopped (ac_engine (pg_daemon p))"
  shows "eng_stopped (ac_engine (pg_daemon (program_step env p ev)))
    \<and> eng_objects (ac_engine (pg_daemon (program_step env p ev))) = eng_objects (ac_engine (pg_daemon p))
    \<and> app_states (ac_app (pg_daemon (program_step env p ev))) = app_states (ac_app (pg_daemon p))"
  using assms stopped_daemon_step [of "pg_daemon p" env]
  by (cases ev) (simp_all add: program_step_def Let_def signal_handler_def engine_shutdown_def engine_step_def
      loop_returns_def main_ends_def)

lemma stopped_program_run:
  "eng_stopped (ac_engine (pg_daemon p)) \<Longrightarrow>
   eng_objects (ac_engine (pg_daemon (run_events (program_step env) p es))) = eng_objects (ac_engine (pg_daemon p))
   \<and> app_states (ac_app (pg_daemon (run_events (program_step env) p es))) = app_states (ac_app (pg_daemon p))"
proof (induction es arbitrary: p)
  case (Cons ev es)
  then show ?case using stopped_program_step [of p env ev] by simp
qed simp

text \<open>
  C33. A shutdown abandons the sessions. From the signal on, nothing changes a session and the app
  is told of no change of state: a session that was running is not stopped, so that the phone is
  sent no goodbye, and the last status that the app was given for it stays that of a running session.
\<close>

theorem shutdown_abandons_sessions:
  assumes "pg_engine p" and "pg_exit p = None"
  shows "let q = run_events (program_step env) p (PgSignal sig # es)
    in eng_objects (ac_engine (pg_daemon q)) = eng_objects (ac_engine (pg_daemon p))
      \<and> app_states (ac_app (pg_daemon q)) = app_states (ac_app (pg_daemon p))"
proof -
  let ?p = "program_step env p (PgSignal sig)"
  have "eng_stopped (ac_engine (pg_daemon ?p))" "eng_objects (ac_engine (pg_daemon ?p)) = eng_objects (ac_engine (pg_daemon p))"
    "app_states (ac_app (pg_daemon ?p)) = app_states (ac_app (pg_daemon p))"
    using assms(1,2) by (simp_all add: program_step_def signal_handler_def engine_shutdown_def engine_step_def)
  with stopped_program_run [of ?p env es] show ?thesis by (simp add: Let_def)
qed

text \<open>A USB session has been opened; the signal arrives before it is started, and it stays as it is.\<close>

theorem shutdown_abandons_sessions_witness:
  "\<exists>s. eng_objects (ac_engine (pg_daemon (run_events (program_step demo_engine_env)
      ((main_start True)\<lparr>pg_daemon := run_events (daemon_step demo_engine_env) new_controller
          ([DeRequest (RegisterCallback (Some 7))] @ demo_daemon_run)\<rparr>)
      [PgSignal SigInt, PgDaemon (DeEngine (EeRun 1)), PgDaemon (DeEngine (EeSession 2 1 EvTimeout)), PgLoopReturns]))) 1
    = Some s"
  using demo_daemon_session
    shutdown_abandons_sessions [of "(main_start True)\<lparr>pg_daemon := run_events (daemon_step demo_engine_env)
        new_controller ([DeRequest (RegisterCallback (Some 7))] @ demo_daemon_run)\<rparr>" demo_engine_env SigInt
      "[PgDaemon (DeEngine (EeRun 1)), PgDaemon (DeEngine (EeSession 2 1 EvTimeout)), PgLoopReturns]"]
  by (simp add: Let_def main_start_def)

end
