(* ===== verification/Daemon_Sinks.thy ===== *)
theory Daemon_Sinks
  imports Daemon Engine_Sinks
begin

text \<open>
  Which phone is heard in the daemon. \<open>IAAEngine.aidl\<close> offers no \<open>set_active_session\<close>: the app
  attaches and detaches the sinks of each session itself (\<open>attachAllSinks\<close>, \<open>detachAllSinks\<close>). The
  theory follows these requests through the queue of the engine to the audio services.
\<close>

section \<open>Attaching and detaching\<close>

text \<open>What the app asked for a session, \<open>True\<close> to attach, and what of it still waits in the queue.\<close>

definition sink_requests :: "i32 \<Rightarrow> daemon_event list \<Rightarrow> bool list" where
  "sink_requests sid es = concat (map (\<lambda>ev. case ev of
      DeRequest (AttachAllSinks k) \<Rightarrow> (if k = sid then [True] else [])
    | DeRequest (DetachAllSinks k) \<Rightarrow> (if k = sid then [False] else [])
    | _ \<Rightarrow> []) es)"

definition waiting_sinks :: "u32 \<Rightarrow> engine_task list \<Rightarrow> bool list" where
  "waiting_sinks sid ts = concat (map (\<lambda>t. case t of
      TaskBroadcast k b \<Rightarrow>
        (if k = sid \<and> b = BcAttachSinks then [True] else if k = sid \<and> b = BcDetachSinks then [False] else [])
    | _ \<Rightarrow> []) ts)"

lemma waiting_sinks_simps [simp]:
  "waiting_sinks sid [] = []" "waiting_sinks sid (ts @ us) = waiting_sinks sid ts @ waiting_sinks sid us"
  by (simp_all add: waiting_sinks_def)

lemma waiting_broadcast:
  "waiting_sinks sid [TaskBroadcast k b] =
     (if k = sid \<and> b = BcAttachSinks then [True] else if k = sid \<and> b = BcDetachSinks then [False] else [])"
  by (simp add: waiting_sinks_def)

lemma sink_requests_append [simp]:
  "sink_requests sid (es @ fs) = sink_requests sid es @ sink_requests sid fs" "sink_requests sid [] = []"
  by (simp_all add: sink_requests_def)

lemma react_sinks [simp]: "waiting_sinks k (eng_tasks (foldl (react sid) e cs)) = waiting_sinks k (eng_tasks e)"
proof -
  obtain ts where ts: "eng_tasks (foldl (react sid) e cs) = eng_tasks e @ ts"
    "\<forall>t\<in>set ts. t = TaskSession sid EvStop" using react_tasks by blast
  from ts(2) have "waiting_sinks k ts = []" by (induction ts) (simp_all add: waiting_sinks_def)
  with ts(1) show ?thesis by simp
qed

lemma event_sinks [simp]:
  "waiting_sinks k (eng_tasks (eng_session_event env now sid ev e)) = waiting_sinks k (eng_tasks e)"
  by (simp add: eng_session_event_def Let_def split: option.split)

definition no_set_active :: "engine_task list \<Rightarrow> bool" where
  "no_set_active ts \<longleftrightarrow> (\<forall>k. TaskSetActive k \<notin> set ts)"

lemma react_no_set_active [simp]:
  "no_set_active (eng_tasks (foldl (react sid) e cs)) = no_set_active (eng_tasks e)"
proof -
  obtain ts where "eng_tasks (foldl (react sid) e cs) = eng_tasks e @ ts"
    "\<forall>t\<in>set ts. t = TaskSession sid EvStop" using react_tasks by blast
  then show ?thesis by (auto simp: no_set_active_def)
qed

section \<open>The invariant\<close>

text \<open>
  The requests \<open>ds\<close> have been carried out for session \<open>sid\<close>: if they are none, or the session
  is in the map and the last of them was to detach, its audio services are mute.
\<close>

definition silenced :: "bool list \<Rightarrow> bool \<Rightarrow> bool" where
  "silenced ds listed \<longleftrightarrow> ds = [] \<or> \<not> last ds \<and> listed"

definition sinks_follow :: "u32 \<Rightarrow> bool list \<Rightarrow> 'c engine \<Rightarrow> bool" where
  "sinks_follow sid ds e \<longleftrightarrow>
     (\<forall>k s. eng_objects e k = Some s \<longrightarrow> session_kinds False s)
     \<and> (\<forall>s. eng_objects e sid = Some s \<longrightarrow> silenced ds (sid \<in> set (eng_sessions e)) \<longrightarrow> session_kinds True s)
     \<and> tasks_ok (eng_tasks e) \<and> no_set_active (eng_tasks e)"

lemma follow_event:
  assumes "sinks_follow sid ds e" and "ev \<noteq> EvBroadcast BcAttachSinks \<or> k \<noteq> sid"
  shows "sinks_follow sid ds (eng_session_event env now k ev e)"
proof (cases "eng_objects e k")
  case (Some s)
  let ?s = "session_step (session_env_of env) s (now, ev)"
  have "session_kinds False ?s" using assms(1) Some by (intro session_kinds_step) (simp_all add: sinks_follow_def)
  moreover have "session_kinds True s \<Longrightarrow> k = sid \<Longrightarrow> session_kinds True ?s"
    using assms(2) by (intro session_kinds_step) auto
  ultimately show ?thesis
    using assms(1) Some
    by (auto simp: sinks_follow_def eng_session_event_def Let_def silenced_def split: if_splits)
qed (use assms in \<open>simp add: eng_session_event_def\<close>)

lemma follow_attach:
  assumes "sinks_follow sid ds e"
  shows "sinks_follow sid (ds @ [True]) (eng_session_event env now sid ev e)"
proof (cases "eng_objects e sid")
  case (Some s)
  have "session_kinds False (session_step (session_env_of env) s (now, ev))"
    using assms Some by (intro session_kinds_step) (simp_all add: sinks_follow_def)
  with assms Some show ?thesis
    by (auto simp: sinks_follow_def eng_session_event_def Let_def silenced_def split: if_splits)
qed (use assms in \<open>simp add: eng_session_event_def sinks_follow_def silenced_def\<close>)

lemma follow_detach:
  assumes "sinks_follow sid ds e"
  shows "sinks_follow sid (ds @ [False]) (eng_session_event env now sid (EvBroadcast BcDetachSinks) e)"
proof (cases "eng_objects e sid")
  case (Some s)
  have "session_kinds True (session_step (session_env_of env) s (now, EvBroadcast BcDetachSinks))"
    using assms Some by (intro session_kinds_detach) (simp add: sinks_follow_def)
  with assms Some show ?thesis
    by (auto simp: sinks_follow_def eng_session_event_def Let_def silenced_def dest: session_kinds_weaken
        split: if_splits)
qed (use assms in \<open>simp add: eng_session_event_def sinks_follow_def silenced_def\<close>)

lemma follow_unlisted:
  "sinks_follow sid ds e \<Longrightarrow> sid \<notin> set (eng_sessions e) \<Longrightarrow> sinks_follow sid (ds @ us) e"
  by (auto simp: sinks_follow_def silenced_def)

lemma follow_posted:
  "sinks_follow sid ds e \<Longrightarrow> tasks_ok [t] \<Longrightarrow> (\<And>k. t \<noteq> TaskSetActive k) \<Longrightarrow> sinks_follow sid ds (post t e)"
  by (auto simp: sinks_follow_def post_def no_set_active_def)

lemma follow_broadcast:
  assumes "sinks_follow sid ds e"
  shows "sinks_follow sid (ds @ waiting_sinks sid [TaskBroadcast k b])
    (on_session k (eng_session_event env now k (EvBroadcast b)) e)"
proof (cases "k \<in> set (eng_sessions e)")
  case True
  with assms show ?thesis
    by (auto simp: on_session_def waiting_sinks_def intro!: follow_event follow_attach follow_detach)
next
  case False
  with assms show ?thesis
    by (auto simp: on_session_def waiting_sinks_def intro: follow_unlisted)
qed

lemma follow_start:
  assumes "sinks_follow sid ds e" and "silent_factory env"
  shows "sinks_follow sid ds (do_start_session env now descriptor k e)"
proof -
  let ?s = "session_with_services env now k"
  let ?e = "\<lambda>t. e\<lparr>eng_objects := (eng_objects e)(k \<mapsto> ?s), eng_transports := (eng_transports e)(k \<mapsto> t),
      eng_sessions := insort k (removeAll k (eng_sessions e))\<rparr>"
  have s: "session_kinds True ?s" by (rule session_with_services_quiet [OF assms(2)])
  then have "sinks_follow sid ds (foldl (react k) (?e t) (ss_log ?s))" for t
    using assms(1) session_kinds_weaken [OF s] fresh_no_report [OF session_with_services_fresh, of env now k]
    by (auto simp: sinks_follow_def set_insort_key)
  then have "sinks_follow sid ds (post (TaskSession k EvStart) (foldl (react k) (?e t) (ss_log ?s)))" for t
    by (rule follow_posted) simp_all
  then show ?thesis
    using assms(1)
    by (simp add: do_start_session_def report_start_session_failure_def callback_def eng_emit_def
        sinks_follow_def Let_def split: sum.split option.split)
qed

lemma follow_stop_all: "sinks_follow sid ds e \<Longrightarrow> sinks_follow sid ds (stop_all_task e)"
  unfolding stop_all_task_def
  by (rule foldl_preserves [where P = "sinks_follow sid ds"]) (simp_all add: follow_posted)

lemma follow_task:
  assumes "sinks_follow sid ds (e\<lparr>eng_tasks := t # ts\<rparr>)" and "silent_factory env"
  shows "sinks_follow sid (ds @ waiting_sinks sid [t]) (run_task env now t (e\<lparr>eng_tasks := ts\<rparr>))"
proof -
  have rest: "sinks_follow sid ds (e\<lparr>eng_tasks := ts\<rparr>)"
    using assms(1) by (auto simp: sinks_follow_def no_set_active_def)
  have tasks: "t \<noteq> TaskSetActive k" "\<forall>sid ev. t = TaskSession sid ev \<longrightarrow> ev = EvStart \<or> ev = EvStop" for k
    using assms(1) by (auto simp: sinks_follow_def no_set_active_def)
  show ?thesis
  proof (cases t)
    case (TaskStart d k)
    with rest assms(2) show ?thesis by (simp add: run_task_def follow_start waiting_sinks_def)
  next
    case TaskStopAll
    with rest show ?thesis by (simp add: run_task_def follow_stop_all waiting_sinks_def)
  next
    case (TaskStop k)
    with rest show ?thesis
      by (simp add: run_task_def stop_task_def on_session_def follow_posted waiting_sinks_def)
  next
    case (TaskBroadcast k b)
    with rest show ?thesis by (simp add: run_task_def follow_broadcast)
  qed (use rest tasks in \<open>auto simp: run_task_def on_session_def waiting_sinks_def intro!: follow_event\<close>)
qed

lemma task_sinks: "no_set_active [t] \<Longrightarrow>
  waiting_sinks k (eng_tasks (run_task env now t e)) = waiting_sinks k (eng_tasks e)"
proof -
  have "waiting_sinks k (eng_tasks (foldl (\<lambda>e sid. post (TaskSession sid EvStop) e) e ks)) =
      waiting_sinks k (eng_tasks e)"
    for ks by (induction ks rule: rev_induct) (simp_all add: post_def, simp add: waiting_sinks_def)
  moreover have "waiting_sinks k [TaskSession sid ev] = []" for sid ev by (simp add: waiting_sinks_def)
  ultimately show "no_set_active [t] \<Longrightarrow> ?thesis"
    by (cases t) (simp_all add: run_task_def do_start_session_def post_def report_start_session_failure_def
        callback_def eng_emit_def stop_task_def stop_all_task_def on_session_def no_set_active_def Let_def
        split: sum.split option.split)
qed

section \<open>The daemon\<close>

lemma daemon_silent: "silent_factory (daemon_env env c)"
  using create_services_fresh(2) [of "ac_factory c"]
  by (force simp: silent_factory_def daemon_env_def audio_attached_def sinks_attached_def split: service.splits)

text \<open>The engine gets its requests from the AIDL layer only.\<close>

definition aidl_event :: "daemon_event \<Rightarrow> bool" where
  "aidl_event ev \<longleftrightarrow>
     (\<forall>e. ev = DeEngine e \<longrightarrow> (\<exists>now. e = EeRun now) \<or> (\<exists>now sid sev. e = EeSession now sid sev \<and> external_event sev))"

lemma follow_request:
  assumes "sinks_follow sid ds e" and "\<And>k. r \<noteq> ReqSetActive k"
  shows "sinks_follow sid ds (request r e)"
  using assms
  by (cases r) (auto simp: request_def start_session_def intro!: follow_posted, auto simp: sinks_follow_def post_def)

lemma follow_step:
  assumes follow: "sinks_follow sid ds (ac_engine c)"
    and asked: "asked = ds @ waiting_sinks sid (eng_tasks (ac_engine c))" and "aidl_event ev"
  shows "\<exists>ds'. sinks_follow sid ds' (ac_engine (daemon_step env c ev))
    \<and> asked @ sink_requests sid [ev] = ds' @ waiting_sinks sid (eng_tasks (ac_engine (daemon_step env c ev)))"
proof -
  have request: "sinks_follow sid ds (request r e) \<and> waiting_sinks sid (eng_tasks (request r e)) =
      waiting_sinks sid (eng_tasks e)"
    if "sinks_follow sid ds e" "case r of ReqSetActive k \<Rightarrow> False | ReqBroadcast k b \<Rightarrow> False | _ \<Rightarrow> True"
    for r and e :: "'a engine"
    using that follow_request [OF that(1), of r]
    by (cases r) (simp_all add: request_def start_session_def post_def waiting_sinks_def)
  have sinks: "sinks_follow sid ds (request (ReqBroadcast k b) e)
      \<and> waiting_sinks sid (eng_tasks (request (ReqBroadcast k b) e)) =
        waiting_sinks sid (eng_tasks e) @ waiting_sinks sid [TaskBroadcast k b]"
    if "sinks_follow sid ds e" for k b and e :: "'a engine"
    using that follow_request [OF that, of "ReqBroadcast k b"] by (simp add: request_def post_def)
  have start: "sinks_follow sid ds (snd (start_session d e)) \<and> waiting_sinks sid (eng_tasks (snd (start_session d e))) =
      waiting_sinks sid (eng_tasks e)" if "sinks_follow sid ds e" for d and e :: "'a engine"
    using request [OF that, of "ReqStart d"] by (simp add: request_def)
  have closed: "ac_engine (close_fd fd c) = ac_engine c" for fd by (simp add: close_fd_def)
  have start_with: "ac_engine (snd (start_with fd d c')) = snd (start_session d (ac_engine c'))"
    for fd d and c' :: "'a controller"
    by (simp add: start_with_def Let_def split_beta close_fd_def report_config_def)
  show ?thesis
  proof (cases ev)
    case (DeStartUsb fd a b)
    with follow asked start show ?thesis
      by (intro exI [of _ ds]) (simp add: daemon_step_def startSession_def start_with sink_requests_def)
  next
    case (DeStartTcp res)
    with follow asked start show ?thesis
      by (intro exI [of _ ds])
         (simp add: daemon_step_def startTcpSession_def start_with closed sink_requests_def split: accept_result.split)
  next
    case (DeRequest b)
    show ?thesis
    proof (rule exI [of _ ds])
      show "sinks_follow sid ds (ac_engine (daemon_step env c ev))
        \<and> asked @ sink_requests sid [ev] = ds @ waiting_sinks sid (eng_tasks (ac_engine (daemon_step env c ev)))"
        using follow asked request [OF follow] sinks [OF follow]
        by (cases b) (simp_all add: DeRequest daemon_step_def app_request_step_def to_engine_def sink_requests_def
            waiting_broadcast)
    qed
  next
    case (DeEngine ee)
    let ?e = "ac_engine c"
    have step: "ac_engine (daemon_step env c ev) = engine_step (daemon_env env c) ?e ee"
      by (simp add: DeEngine daemon_step_def engine_event_def Let_def)
    have none: "sink_requests sid [ev] = []" by (simp add: DeEngine sink_requests_def)
    from assms(3) DeEngine consider now where "ee = EeRun now"
      | now k sev where "ee = EeSession now k sev" "external_event sev" by (auto simp: aidl_event_def)
    then show ?thesis
    proof cases
      case (1 now)
      show ?thesis
      proof (cases "eng_stopped ?e \<or> eng_tasks ?e = []")
        case True
        with follow asked none show ?thesis
          unfolding step by (intro exI [of _ ds]) (auto simp: 1 engine_step_def)
      next
        case False
        then obtain t ts where ts: "eng_tasks ?e = t # ts" by (cases "eng_tasks ?e") auto
        then have e: "?e\<lparr>eng_tasks := t # ts\<rparr> = ?e" by simp
        have "no_set_active [t]" using follow ts by (auto simp: sinks_follow_def no_set_active_def)
        moreover have "waiting_sinks sid (t # ts) = waiting_sinks sid [t] @ waiting_sinks sid ts"
          by (simp add: waiting_sinks_def)
        ultimately show ?thesis
          using follow_task [where e = ?e and t = t and ts = ts and env = "daemon_env env c" and now = now, unfolded e,
              OF follow daemon_silent] False asked none
          unfolding step
          by (intro exI [of _ "ds @ waiting_sinks sid [t]"]) (simp add: 1 ts engine_step_def task_sinks)
      qed
    next
      case (2 now k sev)
      then have "sev \<noteq> EvBroadcast BcAttachSinks" by (auto simp: external_event_def)
      with 2 follow asked none show ?thesis
        unfolding step by (intro exI [of _ ds]) (simp add: engine_step_def follow_event)
    qed
  qed
qed

lemma follow_run:
  assumes "\<forall>ev\<in>set es. aidl_event ev"
  shows "\<exists>ds. sinks_follow sid ds (ac_engine (run_events (daemon_step env) new_controller es))
    \<and> sink_requests sid es = ds @ waiting_sinks sid (eng_tasks (ac_engine (run_events (daemon_step env) new_controller es)))"
  using assms
proof (induction es rule: rev_induct)
  case Nil
  show ?case
    by (intro exI [of _ "[]"]) (simp add: sinks_follow_def new_controller_def engine_step_def new_engine_def no_set_active_def)
next
  case (snoc ev es)
  then obtain ds where "sinks_follow sid ds (ac_engine (run_events (daemon_step env) new_controller es))"
    "sink_requests sid es = ds @ waiting_sinks sid (eng_tasks (ac_engine (run_events (daemon_step env) new_controller es)))"
    by auto
  from follow_step [OF this, of ev env] snoc.prems show ?case by simp
qed

section \<open>Properties\<close>

text \<open>
  C9. The app decides which phone is heard. In any run of the daemon, take the requests to attach
  or detach the sinks of a session that the app has made and that have left the engine's queue.
  If there are none, or if the last of them was to detach and the session is still listed, then
  the sinks of all audio services of that session are detached: whatever the phone sends and whatever is
  requested for other sessions, nothing is heard from it. (The services are those of the
  daemon's factory.)
\<close>

theorem only_attached_sessions_are_heard:
  assumes "\<forall>ev\<in>set es. aidl_event ev"
    and "eng_objects (ac_engine (run_events (daemon_step env) new_controller es)) sid = Some s"
  shows "let e = ac_engine (run_events (daemon_step env) new_controller es)
    in \<exists>carried_out. sink_requests sid es = carried_out @ waiting_sinks sid (eng_tasks e)
      \<and> (carried_out = [] \<or> \<not> last carried_out \<and> sid \<in> set (eng_sessions e) \<longrightarrow>
          (\<forall>kv\<in>set (ss_services s). \<not> audio_attached (snd kv)))"
proof -
  let ?e = "ac_engine (run_events (daemon_step env) new_controller es)"
  obtain ds where ds: "sinks_follow sid ds ?e" "sink_requests sid es = ds @ waiting_sinks sid (eng_tasks ?e)"
    using follow_run [OF assms(1), of sid env] by auto
  have "session_kinds True s \<Longrightarrow> \<forall>kv\<in>set (ss_services s). \<not> audio_attached (snd kv)"
    by (auto simp: session_kinds_def sinks_as_def audio_kind_def)
  with ds assms(2) show ?thesis
    unfolding Let_def by (intro exI [of _ ds]) (auto simp: sinks_follow_def silenced_def)
qed

text \<open>The app has asked to attach the sinks of session 2; session 1 is not heard.\<close>

theorem only_attached_sessions_are_heard_witness:
  "\<exists>s. eng_objects (ac_engine (run_events (daemon_step demo_engine_env) new_controller
        ([DeRequest (RegisterCallback (Some 7))] @ demo_daemon_run @ [DeRequest (AttachAllSinks 2)]))) 1 = Some s
     \<and> (\<forall>kv\<in>set (ss_services s). \<not> audio_attached (snd kv))"
proof -
  let ?es = "[DeRequest (RegisterCallback (Some 7))] @ demo_daemon_run @ [DeRequest (AttachAllSinks 2)]"
  let ?e = "ac_engine (run_events (daemon_step demo_engine_env) new_controller ?es)"
  obtain s where s: "eng_objects ?e 1 = Some s"
    using demo_daemon_session by (auto simp: daemon_step_def app_request_step_def to_engine_def request_def post_def)
  have aidl: "\<forall>ev\<in>set ?es. aidl_event ev" by (simp add: demo_daemon_run_def aidl_event_def)
  have "sink_requests 1 ?es = []" by (simp add: demo_daemon_run_def sink_requests_def)
  with only_attached_sessions_are_heard [OF aidl s] s show ?thesis by (auto simp: Let_def)
qed

end
