(* ===== verification/Openssl.thy ===== *)
theory Openssl
  imports Inbound
begin

text \<open>
  \<open>OpenSslCryptoStrategy\<close> (\<open>impl/common/crypto/OpenSslCryptoStrategy.cpp\<close>): the crypto port
  on top of OpenSSL. OpenSSL itself is not part of the repository; its calls are the record
  \<open>ssl_library\<close>, a parameter of every definition here. A context is of type \<open>'x\<close>, and an
  \<open>SSL\<close> object together with its two memory BIOs of type \<open>'s\<close>.

  The two loops of the class end only if OpenSSL makes them end, so they are partial
  functions: \<open>None\<close> is a call that does not return. What the OpenSSL manual promises is stated
  by the predicates \<open>memory_bio\<close> and \<open>tls_stream\<close>; under them the loops return, and the
  strategy meets the contract \<open>crypto_channel\<close> of the message layer.
\<close>

section \<open>The library\<close>

text \<open>The classes of \<open>SSL_get_error\<close> that the code tells apart.\<close>

datatype ssl_error = WantRead | WantWrite | ZeroReturn | OtherError

record ('x, 's) ssl_library =
  ctx_new :: "'x option"   \<comment> \<open>locked to TLS 1.2, without verification\<close>
  use_certificate_file :: "string \<Rightarrow> 'x \<Rightarrow> 'x option"
  use_certificate_pem :: "string \<Rightarrow> 'x \<Rightarrow> 'x option"
  use_key_file :: "string \<Rightarrow> 'x \<Rightarrow> 'x option"
  use_key_pem :: "string \<Rightarrow> 'x \<Rightarrow> 'x option"
  ssl_new :: "'x \<Rightarrow> 's option"   \<comment> \<open>with fresh memory BIOs, in connect state\<close>
  bio_write :: "bytes \<Rightarrow> 's \<Rightarrow> 's"   \<comment> \<open>to the read BIO\<close>
  bio_pending :: "'s \<Rightarrow> nat"   \<comment> \<open>of the write BIO\<close>
  bio_read :: "nat \<Rightarrow> 's \<Rightarrow> 's \<times> bytes"   \<comment> \<open>from the write BIO; no bytes when it fails\<close>
  do_handshake :: "'s \<Rightarrow> 's \<times> ssl_error option"   \<comment> \<open>\<open>None\<close>: returned 1\<close>
  ssl_write :: "bytes \<Rightarrow> 's \<Rightarrow> 's \<times> bool"   \<comment> \<open>returned a positive number\<close>
  ssl_read :: "nat \<Rightarrow> 's \<Rightarrow> 's \<times> (ssl_error + bytes)"

record crypto_config =
  cert_pem_path :: string
  key_pem_path :: string
  cert_pem :: string
  key_pem :: string

record ('x, 's) openssl =
  os_ctx :: "'x option"
  os_ssl :: "'s option"
  os_established :: bool

section \<open>The class\<close>

text \<open>
  Certificate and key are chosen independently: text, else file, else the built-in one
  (\<open>AapKeys.cpp\<close>, a parameter here).
\<close>

definition load_pem ::
    "(string \<Rightarrow> 'x \<Rightarrow> 'x option) \<Rightarrow> (string \<Rightarrow> 'x \<Rightarrow> 'x option) \<Rightarrow>
     string \<Rightarrow> string \<Rightarrow> string \<Rightarrow> 'x \<Rightarrow> 'x option" where
  "load_pem use_file use_pem pem path builtin ctx =
     (let source = (if pem \<noteq> [] then pem else if path \<noteq> [] then path else builtin)
      in if pem = [] \<and> path \<noteq> [] then use_file source ctx else use_pem source ctx)"

text \<open>
  The context, and whether everything was loaded. A failure leaves the context with what
  had been loaded; the constructor logs the failure and goes on.
\<close>

definition init_ssl_context ::
    "('x, 's) ssl_library \<Rightarrow> string \<times> string \<Rightarrow> crypto_config \<Rightarrow> 'x option \<times> bool" where
  "init_ssl_context lib builtin cfg =
     (case ctx_new lib of
        None \<Rightarrow> (None, False)
      | Some ctx \<Rightarrow>
          (case load_pem (use_certificate_file lib) (use_certificate_pem lib)
                  (cert_pem cfg) (cert_pem_path cfg) (fst builtin) ctx of
             None \<Rightarrow> (Some ctx, False)
           | Some ctx1 \<Rightarrow>
               (case load_pem (use_key_file lib) (use_key_pem lib)
                       (key_pem cfg) (key_pem_path cfg) (snd builtin) ctx1 of
                  None \<Rightarrow> (Some ctx1, False)
                | Some ctx2 \<Rightarrow> (Some ctx2, True))))"

text \<open>\<open>SSL_new\<close> of a null context is a null pointer.\<close>

definition init_ssl :: "('x, 's) ssl_library \<Rightarrow> ('x, 's) openssl \<Rightarrow> ('x, 's) openssl" where
  "init_ssl lib c =
     (case Option.bind (os_ctx c) (ssl_new lib) of
        None \<Rightarrow> c\<lparr>os_ssl := None\<rparr>
      | Some s \<Rightarrow> c\<lparr>os_ssl := Some s, os_established := False\<rparr>)"

definition new_openssl ::
    "('x, 's) ssl_library \<Rightarrow> string \<times> string \<Rightarrow> crypto_config \<Rightarrow> ('x, 's) openssl" where
  "new_openssl lib builtin cfg =
     init_ssl lib \<lparr>os_ctx = fst (init_ssl_context lib builtin cfg), os_ssl = None, os_established = False\<rparr>"

partial_function (option) bio_loop ::
    "('x, 's) ssl_library \<Rightarrow> bytes \<Rightarrow> 's \<Rightarrow> ('s \<times> bytes) option" where
  "bio_loop lib output s =
     (if bio_pending lib s > 0
      then let (s1, data) = bio_read lib (min (bio_pending lib s) 4096) s
           in bio_loop lib (output @ data) s1
      else Some (s, output))"

definition read_bio_output :: "('x, 's) ssl_library \<Rightarrow> 's \<Rightarrow> ('s \<times> bytes) option" where
  "read_bio_output lib s = bio_loop lib [] s"

partial_function (option) ssl_read_loop ::
    "('x, 's) ssl_library \<Rightarrow> bytes \<Rightarrow> 's \<Rightarrow> ('s \<times> (error_code + bytes)) option" where
  "ssl_read_loop lib plaintext s =
     (case ssl_read lib 16384 s of
        (s1, Inr data) \<Rightarrow> ssl_read_loop lib (plaintext @ data) s1
      | (s1, Inl err) \<Rightarrow>
          Some (s1, if err = WantRead \<or> err = ZeroReturn then Inr plaintext
                    else Inl (ErrAap DecryptionFailed)))"

definition os_handshake_step ::
    "('x, 's) ssl_library \<Rightarrow> bytes \<Rightarrow> ('x, 's) openssl \<Rightarrow>
     (('x, 's) openssl \<times> (error_code + handshake_result)) option" where
  "os_handshake_step lib input c =
     (case os_ssl c of
        None \<Rightarrow> Some (c, Inl (ErrAap SslHandshakeFailed))
      | Some s \<Rightarrow>
          (let s1 = (if input \<noteq> [] then bio_write lib input s else s);
               (s2, err) = do_handshake lib s1
           in case read_bio_output lib s2 of
                None \<Rightarrow> None
              | Some (s3, out) \<Rightarrow>
                  Some (case err of
                      None \<Rightarrow> (c\<lparr>os_ssl := Some s3, os_established := True\<rparr>,
                               Inr \<lparr>output_bytes = out, complete = True\<rparr>)
                    | Some e \<Rightarrow>
                        (c\<lparr>os_ssl := Some s3\<rparr>,
                         if e = WantRead \<or> e = WantWrite
                         then Inr \<lparr>output_bytes = out, complete = False\<rparr>
                         else Inl (ErrAap SslHandshakeFailed)))))"

definition os_encrypt ::
    "('x, 's) ssl_library \<Rightarrow> bytes \<Rightarrow> ('x, 's) openssl \<Rightarrow>
     (('x, 's) openssl \<times> (error_code + bytes)) option" where
  "os_encrypt lib plaintext c =
     (if os_established c
      then (case os_ssl c of
              None \<Rightarrow> Some (c, Inl (ErrAap ErrInternal))
            | Some s \<Rightarrow>
                (let (s1, ok) = ssl_write lib plaintext s
                 in if ok
                    then map_option (\<lambda>(s2, out). (c\<lparr>os_ssl := Some s2\<rparr>, Inr out)) (read_bio_output lib s1)
                    else Some (c\<lparr>os_ssl := Some s1\<rparr>, Inl (ErrAap ErrInternal))))
      else Some (c, Inl (ErrAap ErrInternal)))"

definition os_decrypt ::
    "('x, 's) ssl_library \<Rightarrow> bytes \<Rightarrow> ('x, 's) openssl \<Rightarrow>
     (('x, 's) openssl \<times> (error_code + bytes)) option" where
  "os_decrypt lib ciphertext c =
     (if os_established c
      then (case os_ssl c of
              None \<Rightarrow> Some (c, Inl (ErrAap DecryptionFailed))
            | Some s \<Rightarrow>
                map_option (\<lambda>(s1, res). (c\<lparr>os_ssl := Some s1\<rparr>, res))
                  (ssl_read_loop lib [] (bio_write lib ciphertext s)))
      else Some (c, Inl (ErrAap DecryptionFailed)))"

definition os_reset :: "('x, 's) ssl_library \<Rightarrow> ('x, 's) openssl \<Rightarrow> ('x, 's) openssl" where
  "os_reset lib c = init_ssl lib (c\<lparr>os_ssl := None, os_established := False\<rparr>)"

text \<open>
  The class behind the port, whose operations always return: \<open>when_returns\<close> makes a
  call that hangs an arbitrary fixed result, and only where \<open>openssl_returns\<close> does not
  apply.
\<close>

definition when_returns :: "'c \<Rightarrow> ('c \<times> (error_code + 'r)) option \<Rightarrow> 'c \<times> (error_code + 'r)" where
  "when_returns c r = (case r of Some res \<Rightarrow> res | None \<Rightarrow> (c, Inl (ErrAap ErrInternal)))"

definition openssl_ops :: "('x, 's) ssl_library \<Rightarrow> ('x, 's) openssl crypto_ops" where
  "openssl_ops lib =
     \<lparr>handshake_step = (\<lambda>d c. when_returns c (os_handshake_step lib d c)),
      encrypt = (\<lambda>d c. when_returns c (os_encrypt lib d c)),
      decrypt = (\<lambda>d c. when_returns c (os_decrypt lib d c)),
      is_established = os_established, crypto_reset = os_reset lib\<rparr>"

section \<open>What the OpenSSL manual promises\<close>

text \<open>
  A memory BIO is a queue of bytes: \<open>BIO_ctrl_pending\<close> is its length, and a read takes from
  its front. \<open>out s\<close> is the content of the write BIO.
\<close>

definition memory_bio :: "('x, 's) ssl_library \<Rightarrow> ('s \<Rightarrow> bytes) \<Rightarrow> bool" where
  "memory_bio lib out \<longleftrightarrow>
     (\<forall>s. bio_pending lib s = length (out s))
     \<and> (\<forall>s n. snd (bio_read lib n s) = take n (out s) \<and> out (fst (bio_read lib n s)) = drop n (out s))"

text \<open>
  A TLS connection is a reliable stream in each direction. \<open>chan s r p ct\<close>: the receiver \<open>r\<close>
  still has the plaintext \<open>p\<close> of the sender \<open>s\<close> to deliver, once it has been given the
  ciphertext \<open>ct\<close>. \<open>SSL_write\<close> writes records to the write BIO; \<open>SSL_read\<close> delivers the
  next part of the plaintext or wants more, and wants more only if it has delivered all that
  the ciphertext it was given contains; taking bytes out of the sender's BIO does not matter
  to the receiver.
\<close>

definition tls_stream ::
    "('x, 's) ssl_library \<Rightarrow> ('s \<Rightarrow> bytes) \<Rightarrow> ('s \<Rightarrow> 's \<Rightarrow> bytes \<Rightarrow> bytes \<Rightarrow> bool) \<Rightarrow> bool" where
  "tls_stream lib out chan \<longleftrightarrow>
     (\<forall>s r p s1. chan s r [] [] \<and> out s = [] \<and> ssl_write lib p s = (s1, True) \<longrightarrow>
        out s1 \<noteq> [] \<and> chan s1 r p (out s1))
     \<and> (\<forall>s r p x ct. chan s r p (x @ ct) \<longrightarrow> chan s (bio_write lib x r) p ct)
     \<and> (\<forall>s r p ct n. chan s r p ct \<longrightarrow> chan (fst (bio_read lib n s)) r p ct)
     \<and> (\<forall>s r p ct n. chan s r p ct \<and> 0 < n \<longrightarrow>
          (case ssl_read lib n r of
             (r1, Inr d) \<Rightarrow> d \<noteq> [] \<and> (\<exists>q. p = d @ q \<and> chan s r1 q ct)
           | (r1, Inl err) \<Rightarrow> err = WantRead \<and> chan s r1 p ct \<and> (ct = [] \<longrightarrow> p = [])))"

text \<open>For termination it is enough that \<open>SSL_read\<close> delivers what is buffered, and no more.\<close>

definition finite_reads :: "('x, 's) ssl_library \<Rightarrow> ('s \<Rightarrow> nat) \<Rightarrow> bool" where
  "finite_reads lib buffered \<longleftrightarrow>
     (\<forall>s s1 d. ssl_read lib 16384 s = (s1, Inr d) \<longrightarrow> buffered s1 < buffered s)"

section \<open>The loops return\<close>

lemma bio_loop_drains:
  assumes bio: "memory_bio lib out"
    and keep: "\<And>s n. Q s \<Longrightarrow> Q (fst (bio_read lib n s))" and "Q s"
  shows "\<exists>s1. bio_loop lib acc s = Some (s1, acc @ out s) \<and> out s1 = [] \<and> Q s1"
  using assms(3)
proof (induction "length (out s)" arbitrary: acc s rule: less_induct)
  case less
  have len: "bio_pending lib s = length (out s)" using bio by (simp add: memory_bio_def)
  show ?case
  proof (cases "out s")
    case Nil
    with len less.prems show ?thesis by (simp add: bio_loop.simps)
  next
    case (Cons b bs)
    let ?n = "min (length (out s)) 4096"
    obtain s1 d where r: "bio_read lib ?n s = (s1, d)" by (cases "bio_read lib ?n s")
    have d: "d = take ?n (out s)" "out s1 = drop ?n (out s)"
      using bio [unfolded memory_bio_def] r by (metis fst_conv snd_conv)+
    have "Q s1" using keep [OF less.prems, of ?n] r by simp
    moreover have "length (out s1) < length (out s)" using d(2) Cons by simp
    ultimately obtain s2 where s2: "bio_loop lib (acc @ d) s1 = Some (s2, (acc @ d) @ out s1)" "out s2 = []" "Q s2"
      using less.hyps by blast
    have "d @ out s1 = out s" by (simp add: d)
    then show ?thesis using s2 r len Cons by (subst bio_loop.simps) simp
  qed
qed

lemma read_bio_output_drains:
  assumes "memory_bio lib out"
  shows "\<exists>s1. read_bio_output lib s = Some (s1, out s) \<and> out s1 = []"
  using bio_loop_drains [OF assms, of "\<lambda>s. True" s "[]"] by (simp add: read_bio_output_def)

lemma ssl_read_loop_returns:
  assumes "finite_reads lib buffered"
  shows "\<exists>r. ssl_read_loop lib acc s = Some r"
proof (induction "buffered s" arbitrary: acc s rule: less_induct)
  case less
  show ?case
  proof (cases "ssl_read lib 16384 s")
    case (Pair s1 res)
    then show ?thesis
      using less [of s1] assms
      by (subst ssl_read_loop.simps) (auto simp: finite_reads_def split: sum.split)
  qed
qed

text \<open>
  C31. No call of the strategy hangs. With memory BIOs, and an SSL object that delivers only
  what it has buffered, the handshake step, encryption and decryption return for any state
  and any input; the loop around BIO_read ends with an empty BIO and the one around SSL_read
  after at most as many rounds as there are bytes.
\<close>

theorem openssl_returns:
  assumes "memory_bio lib out" and "finite_reads lib buffered"
  shows "os_handshake_step lib d c \<noteq> None \<and> os_encrypt lib d c \<noteq> None \<and> os_decrypt lib d c \<noteq> None"
proof -
  have "\<forall>s. \<exists>r. read_bio_output lib s = Some r" "\<forall>acc s. \<exists>r. ssl_read_loop lib acc s = Some r"
    using read_bio_output_drains [OF assms(1)] ssl_read_loop_returns [OF assms(2)] by blast+
  then obtain w r where w: "\<And>s. read_bio_output lib s = Some (w s)"
      and r: "\<And>acc s. ssl_read_loop lib acc s = Some (r acc s)"
    by metis
  show ?thesis
    by (simp add: os_handshake_step_def os_encrypt_def os_decrypt_def w r Let_def split: option.split prod.split)
qed

section \<open>The strategy is a crypto channel\<close>

definition openssl_sync ::
    "('s \<Rightarrow> bytes) \<Rightarrow> ('s \<Rightarrow> 's \<Rightarrow> bytes \<Rightarrow> bytes \<Rightarrow> bool) \<Rightarrow>
     ('x, 's) openssl \<Rightarrow> ('x, 's) openssl \<Rightarrow> bool" where
  "openssl_sync out chan c d \<longleftrightarrow> os_established c \<and> os_established d \<and>
     (\<exists>s r. os_ssl c = Some s \<and> os_ssl d = Some r \<and> chan s r [] [] \<and> out s = [])"

lemma ssl_read_loop_stream:
  assumes tls: "tls_stream lib out chan" and "chan s r p ct"
  shows "\<exists>r1 d q. ssl_read_loop lib acc r = Some (r1, Inr (acc @ d)) \<and> p = d @ q
    \<and> chan s r1 q ct \<and> (ct = [] \<longrightarrow> q = [])"
  using assms(2)
proof (induction "length p" arbitrary: p r acc rule: less_induct)
  case less
  have read: "case ssl_read lib 16384 r of
      (r1, Inr d) \<Rightarrow> d \<noteq> [] \<and> (\<exists>q. p = d @ q \<and> chan s r1 q ct)
    | (r1, Inl err) \<Rightarrow> err = WantRead \<and> chan s r1 p ct \<and> (ct = [] \<longrightarrow> p = [])"
    using tls less.prems by (simp add: tls_stream_def)
  show ?case
  proof (cases "ssl_read lib 16384 r")
    case (Pair r1 res)
    show ?thesis
    proof (cases res)
      case (Inl err)
      with read Pair have "ssl_read_loop lib acc r = Some (r1, Inr (acc @ []))"
        by (simp add: ssl_read_loop.simps)
      with read Pair Inl show ?thesis by force
    next
      case (Inr d)
      with read Pair obtain q where q: "p = d @ q" "chan s r1 q ct" "d \<noteq> []" by auto
      then obtain r2 d2 q2 where "ssl_read_loop lib (acc @ d) r1 = Some (r2, Inr ((acc @ d) @ d2))"
          "q = d2 @ q2" "chan s r2 q2 ct" "ct = [] \<longrightarrow> q2 = []"
        using less.hyps [of q r1 "acc @ d"] by auto
      moreover have "ssl_read_loop lib acc r = ssl_read_loop lib (acc @ d) r1"
        using Pair Inr by (subst ssl_read_loop.simps) simp
      ultimately show ?thesis using q by (metis append_assoc)
    qed
  qed
qed

lemma openssl_decrypt_piece:
  assumes "tls_stream lib out chan" and "os_established c" and "os_ssl c = Some r"
    and "chan s r p (x @ ct)"
  shows "\<exists>r1 d q. decrypt (openssl_ops lib) x c = (c\<lparr>os_ssl := Some r1\<rparr>, Inr d) \<and> p = d @ q
    \<and> chan s r1 q ct \<and> (ct = [] \<longrightarrow> q = [])"
proof -
  have "chan s (bio_write lib x r) p ct" using assms(1,4) by (simp add: tls_stream_def)
  from ssl_read_loop_stream [OF assms(1) this, of "[]"] show ?thesis
    using assms(2,3) by (auto simp: openssl_ops_def os_decrypt_def when_returns_def)
qed

lemma openssl_decrypt_pieces:
  assumes "tls_stream lib out chan" and "os_established c" and "os_ssl c = Some r"
    and "chan s r p (concat pieces)" and "concat pieces = [] \<longrightarrow> p = []"
  shows "\<exists>r1. decrypt_pieces (openssl_ops lib) pieces c = (c\<lparr>os_ssl := Some r1\<rparr>, Inr p) \<and> chan s r1 [] []"
  using assms(2-)
proof (induction pieces arbitrary: c r p)
  case Nil
  then have "c\<lparr>os_ssl := Some r\<rparr> = c" by simp
  with Nil show ?case by (intro exI [of _ r]) simp
next
  case (Cons x pieces)
  obtain r1 d q where d: "decrypt (openssl_ops lib) x c = (c\<lparr>os_ssl := Some r1\<rparr>, Inr d)" "p = d @ q"
      "chan s r1 q (concat pieces)" "concat pieces = [] \<longrightarrow> q = []"
    using openssl_decrypt_piece [OF assms(1) Cons.prems(1,2), of s p x "concat pieces"] Cons.prems(3) by auto
  from Cons.IH [of "c\<lparr>os_ssl := Some r1\<rparr>" r1 q] Cons.prems(1) d(3,4)
  show ?case by (auto simp: d(1,2))
qed

lemma openssl_encrypt_stream:
  assumes "memory_bio lib out" and "tls_stream lib out chan" and "openssl_sync out chan c d"
    and "encrypt (openssl_ops lib) p c = (c1, Inr ct)"
  shows "\<exists>s1 r. c1 = c\<lparr>os_ssl := Some s1\<rparr> \<and> os_ssl d = Some r \<and> out s1 = [] \<and> ct \<noteq> [] \<and> chan s1 r p ct"
proof -
  obtain s r where sr: "os_established c" "os_ssl c = Some s" "os_ssl d = Some r" "chan s r [] []" "out s = []"
    using assms(3) by (auto simp: openssl_sync_def)
  obtain s1 ok where w: "ssl_write lib p s = (s1, ok)" by (cases "ssl_write lib p s")
  have ok: ok using assms(4) sr w by (auto simp: openssl_ops_def os_encrypt_def when_returns_def split: if_splits)
  then have s1: "out s1 \<noteq> []" "chan s1 r p (out s1)"
    using assms(2) sr w by (auto simp: tls_stream_def)
  have "chan s r p (out s1) \<Longrightarrow> chan (fst (bio_read lib n s)) r p (out s1)" for s n
    using assms(2) by (simp add: tls_stream_def)
  from bio_loop_drains [OF assms(1), where Q = "\<lambda>s. chan s r p (out s1)" and s = s1 and acc = "[]", OF this] s1(2)
  obtain s2 where "read_bio_output lib s1 = Some (s2, out s1)" "out s2 = []" "chan s2 r p (out s1)"
    by (auto simp: read_bio_output_def)
  then show ?thesis
    using assms(4) sr w ok s1 by (auto simp: openssl_ops_def os_encrypt_def when_returns_def)
qed

text \<open>
  C7. The OpenSSL strategy is a crypto channel. If OpenSSL behaves as its manual says, the
  strategy meets the contract on which the message layer rests: what an established strategy
  encrypts, its peer decrypts to the same bytes, in however many pieces the ciphertext
  arrives, also when a piece ends inside a TLS record or holds several.
\<close>

theorem openssl_is_crypto_channel:
  fixes lib :: "('x, 's) ssl_library"
  assumes "memory_bio lib out" and "tls_stream lib out chan"
  shows "crypto_channel (openssl_ops lib) (openssl_sync out chan)"
proof
  fix c d :: "('x, 's) openssl"
  show "is_established (openssl_ops lib) c \<and> is_established (openssl_ops lib) d"
    if "openssl_sync out chan c d"
    using that by (simp add: openssl_sync_def openssl_ops_def)
  show "is_established (openssl_ops lib) (fst (decrypt (openssl_ops lib) x c)) =
      is_established (openssl_ops lib) c" for x
    by (auto simp: openssl_ops_def os_decrypt_def when_returns_def split: option.splits prod.splits)
  show "\<exists>d1. decrypt_pieces (openssl_ops lib) pieces d = (d1, Inr p) \<and> openssl_sync out chan c1 d1"
    if sync: "openssl_sync out chan c d" and enc: "encrypt (openssl_ops lib) p c = (c1, Inr ct)"
      and pieces: "concat pieces = ct" for p c1 ct pieces
  proof -
    obtain s1 r where s1: "c1 = c\<lparr>os_ssl := Some s1\<rparr>" "os_ssl d = Some r" "out s1 = []" "ct \<noteq> []" "chan s1 r p ct"
      using openssl_encrypt_stream [OF assms sync enc] by blast
    have est: "os_established c" "os_established d" using sync by (auto simp: openssl_sync_def)
    from openssl_decrypt_pieces [OF assms(2) est(2) s1(2), of s1 p pieces] s1(4,5) pieces
    obtain r1 where "decrypt_pieces (openssl_ops lib) pieces d = (d\<lparr>os_ssl := Some r1\<rparr>, Inr p)" "chan s1 r1 [] []"
      by auto
    then show ?thesis using est s1 by (auto simp: openssl_sync_def)
  qed
qed

section \<open>Outcomes of a handshake step\<close>

lemma established_by_handshake:
  assumes "os_handshake_step lib d c = Some (c1, res)"
  shows "os_established c1 \<longleftrightarrow>
    os_established c \<or> (\<exists>out. res = Inr \<lparr>output_bytes = out, complete = True\<rparr>)"
  using assms by (auto simp: os_handshake_step_def Let_def split: option.splits prod.splits if_splits)

text \<open>A failed step empties the write BIO, but what was in it, the TLS alert, is not passed on.\<close>

lemma failed_step_loses_alert:
  assumes "memory_bio lib out" and "os_ssl c = Some s" and "do_handshake lib s = (s1, Some OtherError)"
  shows "\<exists>s2. os_handshake_step lib [] c = Some (c\<lparr>os_ssl := Some s2\<rparr>, Inl (ErrAap SslHandshakeFailed))
    \<and> out s2 = []"
  using read_bio_output_drains [OF assms(1), of s1] assms(2,3)
  by (auto simp: os_handshake_step_def Let_def)

text \<open>A strategy whose certificate could not be loaded is set up all the same.\<close>

lemma failed_certificate_goes_on:
  assumes "ctx_new lib = Some x" and "ssl_new lib x = Some s"
    and "load_pem (use_certificate_file lib) (use_certificate_pem lib) (cert_pem cfg) (cert_pem_path cfg)
           (fst builtin) x = None"
  shows "new_openssl lib builtin cfg = \<lparr>os_ctx = Some x, os_ssl = Some s, os_established = False\<rparr>"
  using assms by (simp add: new_openssl_def init_ssl_def init_ssl_context_def)

lemma reset_needs_new_handshake: "\<not> os_established (os_reset lib c)"
  by (simp add: os_reset_def init_ssl_def split: option.split)

section \<open>An instance of the library\<close>

text \<open>Enough of a library to meet the promises: a handshake of one flight, and a null cipher.\<close>

record demo_ssl =
  in_bytes :: bytes
  out_bytes :: bytes
  hello_sent :: bool

definition demo_library :: "(unit, demo_ssl) ssl_library" where
  "demo_library =
     \<lparr>ctx_new = Some (), use_certificate_file = (\<lambda>path x. None), use_certificate_pem = (\<lambda>pem x. Some x),
      use_key_file = (\<lambda>path x. None), use_key_pem = (\<lambda>pem x. Some x),
      ssl_new = (\<lambda>x. Some \<lparr>in_bytes = [], out_bytes = [], hello_sent = False\<rparr>),
      bio_write = (\<lambda>d s. s\<lparr>in_bytes := in_bytes s @ d\<rparr>),
      bio_pending = (\<lambda>s. length (out_bytes s)),
      bio_read = (\<lambda>n s. (s\<lparr>out_bytes := drop n (out_bytes s)\<rparr>, take n (out_bytes s))),
      do_handshake = (\<lambda>s.
        if hello_sent s then (if in_bytes s = [] then (s, Some WantRead) else (s\<lparr>in_bytes := []\<rparr>, None))
        else (s\<lparr>hello_sent := True, out_bytes := out_bytes s @ [22, 3, 3]\<rparr>, Some WantRead)),
      ssl_write = (\<lambda>p s. (s\<lparr>out_bytes := out_bytes s @ p\<rparr>, p \<noteq> [])),
      ssl_read = (\<lambda>n s. if in_bytes s = [] then (s, Inl WantRead)
        else (s\<lparr>in_bytes := drop n (in_bytes s)\<rparr>, Inr (take n (in_bytes s))))\<rparr>"

definition demo_chan :: "demo_ssl \<Rightarrow> demo_ssl \<Rightarrow> bytes \<Rightarrow> bytes \<Rightarrow> bool" where
  "demo_chan s r p ct \<longleftrightarrow> p = in_bytes r @ ct"

lemma demo_bio: "memory_bio demo_library out_bytes"
  by (simp add: memory_bio_def demo_library_def)

lemma demo_tls: "tls_stream demo_library out_bytes demo_chan"
  by (auto simp: tls_stream_def demo_library_def demo_chan_def intro: exI [of _ "drop n ins" for n ins])

lemma demo_finite_reads: "finite_reads demo_library (\<lambda>s. length (in_bytes s))"
  by (auto simp: finite_reads_def demo_library_def split: if_splits)

theorem openssl_returns_witness:
  "os_handshake_step demo_library [] (new_openssl demo_library ([], []) \<lparr>cert_pem_path = [],
     key_pem_path = [], cert_pem = ''cert'', key_pem = ''key''\<rparr>) \<noteq> None"
  using openssl_returns [OF demo_bio demo_finite_reads] by blast

theorem openssl_is_crypto_channel_witness:
  "crypto_channel (openssl_ops demo_library) (openssl_sync out_bytes demo_chan)"
  by (rule openssl_is_crypto_channel [OF demo_bio demo_tls])

end
