(* ===== verification/Buffered.thy ===== *)
theory Buffered
  imports Protocol
begin

text \<open>
  \<open>BufferedTransport\<close> (\<open>core/src/transport/BufferedTransport.cpp\<close>): a transport around a
  transport. It keeps one read outstanding on the underlying transport and queues what
  arrives until the upper layer reads.

  A handler is a token. \<open>asio::post\<close> of a handler is the call \<open>Completed\<close> with the bytes
  that were copied to the caller's buffer, of which the model keeps the size. Each operation
  is atomic: the mutex protects its steps, and the completion of an underlying read and the
  calls of the upper layer run on the same executor.
\<close>

section \<open>State and operations\<close>

type_synonym handler = nat

datatype bt_call =
    UnderlyingRead
  | UnderlyingWrite handler bytes
  | UnderlyingClose
  | Completed handler "error_code option" bytes

record buffered =
  rx_queue :: "bytes list"
  loop_started :: bool
  bt_closed :: bool
  pending_handler :: "(handler \<times> nat) option"
  deferred_error :: "error_code option"
  bt_log :: "bt_call list"

definition kMaxQueuedReads :: nat where "kMaxQueuedReads = 32"

definition new_buffered :: buffered where
  "new_buffered =
     \<lparr>rx_queue = [], loop_started = False, bt_closed = False, pending_handler = None,
      deferred_error = None, bt_log = []\<rparr>"

definition bt_emit :: "bt_call \<Rightarrow> buffered \<Rightarrow> buffered" where
  "bt_emit c b = b\<lparr>bt_log := bt_log b @ [c]\<rparr>"

definition issue_underlying_read :: "buffered \<Rightarrow> buffered" where
  "issue_underlying_read b = (if bt_closed b then b else bt_emit UnderlyingRead b)"

definition bt_start :: "buffered \<Rightarrow> buffered" where
  "bt_start b =
     (if loop_started b \<or> bt_closed b then b
      else issue_underlying_read (b\<lparr>loop_started := True\<rparr>))"

text \<open>What does not fit into the destination goes back to the front of the queue.\<close>

definition invoke_handler ::
    "handler \<times> nat \<Rightarrow> error_code option \<Rightarrow> bytes \<Rightarrow> buffered \<Rightarrow> buffered" where
  "invoke_handler hd_dest ec data b =
     (let (h, dest) = hd_dest;
          to_copy = (if ec = None \<and> data \<noteq> [] then min dest (length data) else 0);
          b1 = (if ec = None \<and> to_copy < length data
                then b\<lparr>rx_queue := drop to_copy data # rx_queue b\<rparr> else b)
      in bt_emit (Completed h ec (take to_copy data)) b1)"

definition bt_async_read :: "handler \<times> nat \<Rightarrow> buffered \<Rightarrow> buffered" where
  "bt_async_read hd_dest b =
     (if bt_closed b then invoke_handler hd_dest (Some ErrAborted) [] b
      else case rx_queue b of
             chunk # rest \<Rightarrow> invoke_handler hd_dest None chunk (b\<lparr>rx_queue := rest\<rparr>)
           | [] \<Rightarrow>
               (case deferred_error b of
                  Some ec \<Rightarrow> invoke_handler hd_dest (Some ec) [] (b\<lparr>deferred_error := None\<rparr>)
                | None \<Rightarrow> b\<lparr>pending_handler := Some hd_dest\<rparr>))"

definition bt_async_write :: "handler \<Rightarrow> bytes \<Rightarrow> buffered \<Rightarrow> buffered" where
  "bt_async_write h data b = bt_emit (UnderlyingWrite h data) b"

definition bt_close :: "buffered \<Rightarrow> buffered" where
  "bt_close b =
     (if bt_closed b then b
      else let b1 = bt_emit UnderlyingClose
                      (b\<lparr>bt_closed := True, pending_handler := None, rx_queue := []\<rparr>)
           in case pending_handler b of
                None \<Rightarrow> b1
              | Some hd_dest \<Rightarrow> invoke_handler hd_dest (Some ErrAborted) [] b1)"

text \<open>A chunk for which nobody waits is queued; a full queue loses its oldest chunk.\<close>

definition rx_push :: "bytes list \<Rightarrow> bytes \<Rightarrow> bytes list" where
  "rx_push q buf = (if length q \<ge> kMaxQueuedReads then tl q else q) @ [buf]"

definition on_underlying_read :: "error_code + bytes \<Rightarrow> buffered \<Rightarrow> buffered" where
  "on_underlying_read res b =
     (if bt_closed b then b
      else case res of
        Inl ec \<Rightarrow>
          (case pending_handler b of
             Some hd_dest \<Rightarrow> invoke_handler hd_dest (Some ec) [] (b\<lparr>pending_handler := None\<rparr>)
           | None \<Rightarrow> b\<lparr>deferred_error := Some ec\<rparr>)
      | Inr buf \<Rightarrow>
          issue_underlying_read
            (case pending_handler b of
               Some hd_dest \<Rightarrow> invoke_handler hd_dest None buf (b\<lparr>pending_handler := None\<rparr>)
             | None \<Rightarrow> b\<lparr>rx_queue := rx_push (rx_queue b) buf\<rparr>))"

datatype bt_event =
    BtStart
  | BtRead handler nat
  | BtWrite handler bytes
  | BtClose
  | BtUnderlying "error_code + bytes"

definition bt_step :: "buffered \<Rightarrow> bt_event \<Rightarrow> buffered" where
  "bt_step b e =
     (case e of
        BtStart \<Rightarrow> bt_start b
      | BtRead h dest \<Rightarrow> bt_async_read (h, dest) b
      | BtWrite h data \<Rightarrow> bt_async_write h data b
      | BtClose \<Rightarrow> bt_close b
      | BtUnderlying res \<Rightarrow> on_underlying_read res b)"

section \<open>The queue\<close>

interpretation rx: drop_oldest_fifo rx_push "\<lambda>q. q" kMaxQueuedReads
  by unfold_locales (auto simp: rx_push_def kMaxQueuedReads_def)

section \<open>The invariant\<close>

text \<open>
  The transport's contract towards its caller: one read outstanding at a time. Then a parked
  handler means that there is nothing to deliver.
\<close>

definition bt_enabled :: "buffered \<Rightarrow> bt_event \<Rightarrow> bool" where
  "bt_enabled b e \<longleftrightarrow> (case e of BtRead h dest \<Rightarrow> pending_handler b = None | _ \<Rightarrow> True)"

definition bt_ok :: "buffered \<Rightarrow> bool" where
  "bt_ok b \<longleftrightarrow> length (rx_queue b) \<le> kMaxQueuedReads
     \<and> (pending_handler b \<noteq> None \<longrightarrow> rx_queue b = [] \<and> deferred_error b = None \<and> \<not> bt_closed b)"

lemmas bt_step_defs = bt_step_def bt_start_def issue_underlying_read_def invoke_handler_def
  bt_async_read_def bt_async_write_def bt_close_def on_underlying_read_def bt_emit_def Let_def

lemma bt_step_ok:
  assumes "bt_ok b" and "bt_enabled b e"
  shows "bt_ok (bt_step b e)"
proof -
  have push: "length (rx_push (rx_queue b) buf) \<le> kMaxQueuedReads" for buf
    using assms(1) rx.enq_bound by (simp add: bt_ok_def)
  show ?thesis
    using assms push
    by (cases e)
       (auto simp: bt_step_defs bt_ok_def bt_enabled_def kMaxQueuedReads_def
          split: list.split option.split sum.split)
qed

interpretation buffered_machine: invariant_machine bt_step bt_enabled bt_ok
  by unfold_locales (rule bt_step_ok)

lemma new_buffered_ok: "bt_ok new_buffered"
  by (simp add: bt_ok_def new_buffered_def)

section \<open>Every read completes once\<close>

definition completed :: "buffered \<Rightarrow> handler list" where
  "completed b = concat (map (\<lambda>c. case c of Completed h ec data \<Rightarrow> [h] | _ \<Rightarrow> []) (bt_log b))"

definition parked :: "buffered \<Rightarrow> handler list" where
  "parked b = (case pending_handler b of None \<Rightarrow> [] | Some (h, dest) \<Rightarrow> [h])"

definition issued :: "bt_event list \<Rightarrow> handler list" where
  "issued es = concat (map (\<lambda>e. case e of BtRead h dest \<Rightarrow> [h] | _ \<Rightarrow> []) es)"

lemma completed_step:
  "bt_enabled b e \<Longrightarrow> completed (bt_step b e) @ parked (bt_step b e) =
     completed b @ parked b @ issued [e]"
  by (cases e)
     (auto simp: bt_step_defs bt_enabled_def completed_def parked_def issued_def
        split: list.split option.split sum.split)

lemma completed_run:
  "run_enabled bt_enabled bt_step b es \<Longrightarrow>
   completed (run_events bt_step b es) @ parked (run_events bt_step b es) =
     completed b @ parked b @ issued es"
proof (induction es arbitrary: b)
  case (Cons e es)
  then show ?case using completed_step [of b e] by (simp add: issued_def)
qed (simp add: issued_def)

text \<open>
  C28. Every read completes exactly once, in order. Whatever the underlying transport does
  and whenever the transport is closed, the handlers that have been called, followed by the
  one that is parked, are exactly the handlers of the reads issued; at most one is parked,
  none once the transport is closed; and at most 32 chunks are buffered.
\<close>

theorem buffered_reads_complete_once:
  assumes "run_enabled bt_enabled bt_step new_buffered es"
  shows "completed (run_events bt_step new_buffered es) @ parked (run_events bt_step new_buffered es) =
      issued es
    \<and> length (parked (run_events bt_step new_buffered es)) \<le>
        (if bt_closed (run_events bt_step new_buffered es) then 0 else 1)
    \<and> length (rx_queue (run_events bt_step new_buffered es)) \<le> 32"
  using completed_run [OF assms] buffered_machine.run_inv [OF new_buffered_ok assms]
  by (auto simp: bt_ok_def kMaxQueuedReads_def completed_def new_buffered_def parked_def
      split: option.split)

definition demo_reads :: "bt_event list" where
  "demo_reads = [BtStart, BtUnderlying (Inr [1, 2, 3]), BtRead 7 2, BtRead 8 16384, BtRead 9 16384, BtClose]"

theorem buffered_reads_complete_once_witness:
  "completed (run_events bt_step new_buffered demo_reads) = [7, 8, 9]"
proof -
  have "run_enabled bt_enabled bt_step new_buffered demo_reads"
    by (simp add: demo_reads_def new_buffered_def bt_enabled_def bt_step_defs rx_push_def kMaxQueuedReads_def)
  moreover have "bt_closed (run_events bt_step new_buffered demo_reads)"
    by (simp add: demo_reads_def new_buffered_def bt_step_defs rx_push_def kMaxQueuedReads_def)
  moreover have "issued demo_reads = [7, 8, 9]" by (simp add: demo_reads_def issued_def)
  ultimately show ?thesis using buffered_reads_complete_once [of demo_reads] by force
qed

section \<open>What is delivered\<close>

definition bt_delivered :: "buffered \<Rightarrow> bytes" where
  "bt_delivered b = concat (map (\<lambda>c. case c of Completed h ec data \<Rightarrow> data | _ \<Rightarrow> []) (bt_log b))"

definition bt_received :: "bt_event list \<Rightarrow> bytes" where
  "bt_received es = concat (map (\<lambda>e. case e of BtUnderlying (Inr data) \<Rightarrow> data | _ \<Rightarrow> []) es)"

definition reads_issued :: "buffered \<Rightarrow> nat" where
  "reads_issued b = length (filter (\<lambda>c. c = UnderlyingRead) (bt_log b))"

definition read_successes :: "bt_event list \<Rightarrow> nat" where
  "read_successes es = length (filter (\<lambda>e. case e of BtUnderlying (Inr data) \<Rightarrow> True | _ \<Rightarrow> False) es)"

text \<open>An event that finds room for what it brings, and does not close the transport.\<close>

definition bt_roomy :: "buffered \<Rightarrow> bt_event \<Rightarrow> bool" where
  "bt_roomy b e \<longleftrightarrow> bt_enabled b e \<and> e \<noteq> BtClose
     \<and> (case e of
          BtUnderlying (Inr data) \<Rightarrow> pending_handler b \<noteq> None \<or> length (rx_queue b) < kMaxQueuedReads
        | _ \<Rightarrow> True)"

text \<open>What has been delivered and what waits, as one stream: the abstraction of the state.\<close>

definition bt_stream :: "buffered \<Rightarrow> bytes" where
  "bt_stream b = bt_delivered b @ concat (rx_queue b)"

definition bt_flowing :: "buffered \<Rightarrow> bool" where
  "bt_flowing b \<longleftrightarrow> \<not> bt_closed b \<and> (pending_handler b \<noteq> None \<longrightarrow> rx_queue b = [])"

lemma bt_roomy_step:
  assumes "bt_flowing b" and "bt_roomy b e"
  shows "bt_flowing (bt_step b e)"
    and "bt_stream (bt_step b e) = bt_stream b @ bt_received [e]"
    and "loop_started (bt_step b e) \<longleftrightarrow> loop_started b \<or> e = BtStart"
    and "reads_issued (bt_step b e) =
      reads_issued b + (if e = BtStart \<and> \<not> loop_started b then 1 else 0) + read_successes [e]"
  using assms
  by (auto simp: bt_step_defs bt_flowing_def bt_roomy_def bt_enabled_def bt_stream_def bt_delivered_def
      bt_received_def reads_issued_def read_successes_def rx_push_def
      split: bt_event.splits list.split option.split sum.splits)

lemma bt_roomy_run:
  "run_enabled bt_roomy bt_step b es \<Longrightarrow> bt_flowing b \<Longrightarrow>
   bt_stream (run_events bt_step b es) = bt_stream b @ bt_received es
   \<and> reads_issued (run_events bt_step b es) =
      reads_issued b + (if BtStart \<in> set es \<and> \<not> loop_started b then 1 else 0) + read_successes es"
proof (induction es arbitrary: b)
  case (Cons e es)
  then have e: "bt_roomy b e" by simp
  note step = bt_roomy_step [OF Cons.prems(2) e]
  have "bt_received (e # es) = bt_received [e] @ bt_received es"
    "read_successes (e # es) = read_successes [e] + read_successes es"
    by (simp_all add: bt_received_def read_successes_def)
  then show ?case using Cons.IH [of "bt_step b e"] Cons.prems(1) step by auto
qed (simp add: bt_received_def read_successes_def)

text \<open>
  As long as there is room the buffering is invisible, and the transport is always being
  read. If a chunk only ever arrives when it is waited for or when fewer than 32 chunks are
  queued, then what the readers were given, followed by what is queued, is exactly the byte
  stream that arrived, whatever the sizes of the readers' buffers; and the reads issued to
  the underlying transport are one for the start and one for every successful read.
\<close>

theorem buffered_is_transparent:
  assumes "run_enabled bt_roomy bt_step new_buffered es"
  shows "bt_delivered (run_events bt_step new_buffered es)
      @ concat (rx_queue (run_events bt_step new_buffered es)) = bt_received es
    \<and> reads_issued (run_events bt_step new_buffered es) =
        (if BtStart \<in> set es then 1 else 0) + read_successes es"
proof -
  have "bt_flowing new_buffered" "bt_stream new_buffered = []" "reads_issued new_buffered = 0"
    "\<not> loop_started new_buffered"
    by (simp_all add: bt_flowing_def bt_stream_def bt_delivered_def reads_issued_def new_buffered_def)
  with bt_roomy_run [OF assms] show ?thesis by (simp add: bt_stream_def)
qed

theorem buffered_is_transparent_witness:
  "bt_delivered (run_events bt_step new_buffered
     [BtStart, BtUnderlying (Inr [1, 2, 3]), BtRead 7 2, BtRead 8 16384]) = [1, 2, 3]"
proof -
  let ?es = "[BtStart, BtUnderlying (Inr [1, 2, 3]), BtRead 7 2, BtRead 8 16384]"
  have "run_enabled bt_roomy bt_step new_buffered ?es"
    by (simp add: new_buffered_def bt_roomy_def bt_enabled_def bt_step_defs rx_push_def kMaxQueuedReads_def)
  moreover have "rx_queue (run_events bt_step new_buffered ?es) = []"
    by (simp add: new_buffered_def bt_step_defs rx_push_def kMaxQueuedReads_def)
  ultimately show ?thesis using buffered_is_transparent [of ?es] by (simp add: bt_received_def)
qed

section \<open>Overflow\<close>

lemma underlying_unread:
  assumes "\<not> bt_closed b" and "pending_handler b = None"
  shows "on_underlying_read (Inr buf) b =
    b\<lparr>rx_queue := rx_push (rx_queue b) buf, bt_log := bt_log b @ [UnderlyingRead]\<rparr>"
  using assms by (simp add: on_underlying_read_def issue_underlying_read_def bt_emit_def)

text \<open>
  A reader that falls behind loses bytes and is not told. While nobody reads, only the
  last 32 chunks are kept: with more, the next reads go on behind a gap in the byte stream,
  no handler is called with an error and none is stored for later.
\<close>

theorem buffered_overflow_is_silent:
  assumes "\<not> bt_closed b" and "pending_handler b = None" and "length (rx_queue b) \<le> 32"
  shows "rx_queue (foldl (\<lambda>b buf. on_underlying_read (Inr buf) b) b bufs) =
      drop (length (rx_queue b) + length bufs - 32) (rx_queue b @ bufs)
    \<and> completed (foldl (\<lambda>b buf. on_underlying_read (Inr buf) b) b bufs) = completed b
    \<and> deferred_error (foldl (\<lambda>b buf. on_underlying_read (Inr buf) b) b bufs) = deferred_error b"
proof -
  let ?run = "foldl (\<lambda>b buf. on_underlying_read (Inr buf) b)"
  have "rx_queue (?run b bufs) = foldl rx_push (rx_queue b) bufs
      \<and> completed (?run b bufs) = completed b \<and> deferred_error (?run b bufs) = deferred_error b"
    using assms(1,2)
    by (induction bufs arbitrary: b) (simp_all add: underlying_unread completed_def)
  with rx.enq_all_suffix [of "rx_queue b" bufs] assms(3) show ?thesis
    by (simp add: kMaxQueuedReads_def)
qed

theorem buffered_overflow_is_silent_witness:
  "hd (rx_queue (foldl (\<lambda>b buf. on_underlying_read (Inr buf) b) new_buffered
     ([0] # replicate 32 [1]))) = [1]"
  using buffered_overflow_is_silent [of new_buffered "[0] # replicate 32 [1]"]
  by (simp add: new_buffered_def)

end
