(* ===== verification/Connection.thy ===== *)
theory Connection
  imports Session_Properties Buffered
begin

text \<open>
  A session with the transport it is given: \<open>Session\<close> on top of \<open>BufferedTransport\<close>, as
  \<open>AndroidTransportFactory\<close> (\<open>impl/android/main/main.cpp\<close>) and \<open>Engine\<close> put them together.
  The calls that a handler of the session makes to its transport are events of the buffered
  transport, in call order; a handler that the buffered transport posts waits until the io
  context runs it, as an event of the session. The underlying transport is a parameter: its
  completions are events, at most one for each read that was issued.
\<close>

section \<open>State and steps\<close>

text \<open>
  \<open>cn_taken\<close> counts the posted read handlers that have run, \<open>cn_arrived\<close> the completed reads of
  the underlying transport.
\<close>

record ('c, 'v) connection =
  cn_session :: "('c, 'v) session"
  cn_transport :: buffered
  cn_taken :: nat
  cn_arrived :: nat

definition kReadBufferSize :: nat where "kReadBufferSize = 16384"

text \<open>
  All reads of a session have the same handler, and so have all writes: \<open>self\<close> is the only
  thing they capture. They are the tokens 0 and 1.
\<close>

fun transport_event :: "session_call \<Rightarrow> bt_event list" where
  "transport_event TransportRead = [BtRead 0 kReadBufferSize]"
| "transport_event (TransportWrite front) = [BtWrite 1 front]"
| "transport_event TransportClose = [BtClose]"
| "transport_event _ = []"

definition transport_events :: "session_call list \<Rightarrow> bt_event list" where
  "transport_events calls = concat (map transport_event calls)"

text \<open>The read handlers that have been posted, with their arguments, in the order of the posts.\<close>

definition completions :: "buffered \<Rightarrow> (error_code option \<times> bytes) list" where
  "completions b = concat (map (\<lambda>c. case c of Completed h ec data \<Rightarrow> [(ec, data)] | _ \<Rightarrow> []) (bt_log b))"

definition posted_reads :: "('c, 'v) connection \<Rightarrow> (error_code option \<times> bytes) list" where
  "posted_reads c = drop (cn_taken c) (completions (cn_transport c))"

definition new_connection :: "('c, 'v) session \<Rightarrow> ('c, 'v) connection" where
  "new_connection s =
     \<lparr>cn_session = s, cn_transport = bt_start new_buffered, cn_taken = 0, cn_arrived = 0\<rparr>"

text \<open>The calls that handling an event adds to the log.\<close>

definition new_calls :: "('c, 'v) session_env \<Rightarrow> ('c, 'v) session \<Rightarrow> int \<times> session_event \<Rightarrow> session_call list" where
  "new_calls env s te = drop (length (ss_log s)) (ss_log (session_step env s te))"

definition session_runs ::
    "('c, 'v) session_env \<Rightarrow> int \<times> session_event \<Rightarrow> ('c, 'v) connection \<Rightarrow> ('c, 'v) connection" where
  "session_runs env te c =
     c\<lparr>cn_session := session_step env (cn_session c) te,
       cn_transport := run_events bt_step (cn_transport c)
         (transport_events (new_calls env (cn_session c) te))\<rparr>"

datatype cn_event =
    CnHandler int
  | CnArrives "error_code + bytes"
  | CnSession int session_event

definition cn_step ::
    "('c, 'v) session_env \<Rightarrow> ('c, 'v) connection \<Rightarrow> cn_event \<Rightarrow> ('c, 'v) connection" where
  "cn_step env c e =
     (case e of
        CnHandler now \<Rightarrow>
          (case posted_reads c of
             [] \<Rightarrow> c
           | (ec, data) # _ \<Rightarrow> session_runs env (now, EvRead ec data) (c\<lparr>cn_taken := Suc (cn_taken c)\<rparr>))
      | CnArrives res \<Rightarrow>
          c\<lparr>cn_transport := on_underlying_read res (cn_transport c), cn_arrived := Suc (cn_arrived c)\<rparr>
      | CnSession now ev \<Rightarrow> session_runs env (now, ev) c)"

text \<open>
  What can happen: a posted handler runs, a read of the underlying transport that was issued
  completes, or an event that is not a read
  reaches the session, \<open>start\<close> only as the first one.
\<close>

definition is_read :: "session_event \<Rightarrow> bool" where
  "is_read ev = (case ev of EvRead ec data \<Rightarrow> True | _ \<Rightarrow> False)"

lemma is_read_iff: "is_read ev \<longleftrightarrow> (\<exists>ec data. ev = EvRead ec data)"
  by (simp add: is_read_def split: session_event.split)

definition cn_enabled :: "('c, 'v) connection \<Rightarrow> cn_event \<Rightarrow> bool" where
  "cn_enabled c e \<longleftrightarrow>
     (case e of
        CnHandler now \<Rightarrow> posted_reads c \<noteq> []
      | CnArrives res \<Rightarrow> cn_arrived c < reads_issued (cn_transport c)
      | CnSession now ev \<Rightarrow> session_enabled (cn_session c) (now, ev)
          \<and> \<not> is_read ev
          \<and> (ev = EvStart \<longrightarrow> ss_state (cn_session c) = Idle))"

section \<open>What a handler of the session calls\<close>

lemma session_step_calls: "ss_log (session_step env s te) = ss_log s @ new_calls env s te"
  using session_step_log [of env s te] by (auto simp: new_calls_def)

lemma session_runs_simps [simp]:
  "cn_session (session_runs env te c) = session_step env (cn_session c) te"
  "cn_transport (session_runs env te c) =
     run_events bt_step (cn_transport c) (transport_events (new_calls env (cn_session c) te))"
  "cn_taken (session_runs env te c) = cn_taken c" "cn_arrived (session_runs env te c) = cn_arrived c"
  by (simp_all add: session_runs_def)

lemma transport_events_simps [simp]:
  "transport_events [] = []"
  "transport_events (c # cs) = transport_event c @ transport_events cs"
  by (simp_all add: transport_events_def)

lemma new_calls_reads:
  "reads (new_calls env s (now, e)) =
     (case e of
        EvStart \<Rightarrow> 1
      | EvRead None data \<Rightarrow> if is_terminal (ss_state (session_step env s (now, e))) then 0 else 1
      | _ \<Rightarrow> 0)"
  using read_loop [of env s now e] by (simp add: session_step_calls)

lemma issued_calls: "length (issued (transport_events calls)) = reads calls"
proof (induction calls)
  case (Cons c calls)
  then show ?case by (cases c) (simp_all add: issued_def)
qed (simp add: issued_def)

text \<open>The session is a good client: with no read parked, a handler that reads once is allowed to.\<close>

lemma calls_enabled:
  "reads calls + length (parked b) \<le> 1 \<Longrightarrow> run_enabled bt_enabled bt_step b (transport_events calls)"
proof (induction calls arbitrary: b)
  case (Cons c calls)
  show ?case
  proof (cases c)
    case TransportRead
    with Cons.prems have "pending_handler b = None" "reads calls = 0"
      by (auto simp: parked_def split: option.splits)
    moreover have "length (parked (bt_step b (BtRead 0 kReadBufferSize))) \<le> 1"
      by (simp add: parked_def split: option.split prod.split)
    ultimately show ?thesis using Cons.IH TransportRead by (simp add: bt_enabled_def)
  next
    case (TransportWrite w)
    then show ?thesis using Cons by (simp add: bt_enabled_def bt_step_defs parked_def)
  next
    case TransportClose
    moreover have "length (parked (bt_step b BtClose)) \<le> length (parked b)"
      by (simp add: bt_step_defs parked_def split: option.split)
    ultimately show ?thesis using Cons.IH [of "bt_step b BtClose"] Cons.prems by (simp add: bt_enabled_def)
  qed (use Cons in simp_all)
qed simp

lemma closed_stays: "bt_closed b \<Longrightarrow> bt_closed (run_events bt_step b es)"
proof (induction es arbitrary: b)
  case (Cons e es)
  then have "bt_closed (bt_step b e)"
    by (cases e) (auto simp: bt_step_defs split: list.split option.split sum.split)
  then show ?case using Cons.IH by simp
qed simp

lemma close_closes:
  "TransportClose \<in> set calls \<Longrightarrow> bt_closed (run_events bt_step b (transport_events calls))"
proof (induction calls arbitrary: b)
  case (Cons c calls)
  show ?case
  proof (cases "c = TransportClose")
    case True
    have "bt_closed (bt_step b BtClose)" by (simp add: bt_step_defs split: option.split)
    with True show ?thesis by (simp add: closed_stays)
  qed (use Cons in simp)
qed simp

section \<open>The invariant\<close>

lemma completions_completed: "length (completions b) = length (completed b)"
proof -
  have "length (concat (map (\<lambda>c. case c of Completed h ec data \<Rightarrow> [(ec, data)] | _ \<Rightarrow> []) cs)) =
      length (concat (map (\<lambda>c. case c of Completed h ec data \<Rightarrow> [h] | _ \<Rightarrow> []) cs))" for cs
    by (induction cs) (auto split: bt_call.split)
  then show ?thesis by (simp add: completions_def completed_def)
qed

text \<open>
  While the transport is open the underlying transport is being read, or it has failed and
  the error waits to be delivered. \<open>t\<close> handlers have run, \<open>a\<close> underlying reads have completed.
\<close>

definition link_ok :: "nat \<Rightarrow> nat \<Rightarrow> buffered \<Rightarrow> bool" where
  "link_ok t a b \<longleftrightarrow> bt_closed b \<or>
     (\<forall>x\<in>set (completions b). fst x \<noteq> Some ErrAborted) \<and> deferred_error b \<noteq> Some ErrAborted
     \<and> (reads_issued b = Suc a
        \<or> reads_issued b = a \<and> (deferred_error b \<noteq> None \<or> (\<exists>x\<in>set (drop t (completions b)). fst x \<noteq> None)))"

text \<open>An error is delivered without data.\<close>

definition errors_bare :: "buffered \<Rightarrow> bool" where
  "errors_bare b \<longleftrightarrow> (\<forall>x\<in>set (completions b). fst x \<noteq> None \<longrightarrow> snd x = [])"

lemma errors_bare_step: "errors_bare b \<Longrightarrow> errors_bare (bt_step b e)"
  by (cases e)
     (auto simp: errors_bare_def bt_step_defs completions_def split: list.split option.split sum.split)

lemma errors_bare_run: "errors_bare b \<Longrightarrow> errors_bare (run_events bt_step b es)"
  by (induction es arbitrary: b) (simp_all add: errors_bare_step)

lemma calls_reads_issued:
  "reads_issued (run_events bt_step b (transport_events calls)) = reads_issued b"
proof (induction calls arbitrary: b)
  case (Cons c calls)
  then show ?case
    by (cases c) (simp_all add: bt_step_defs reads_issued_def split: list.split option.split)
qed simp

lemma completions_step:
  "\<exists>new. completions (bt_step b e) = completions b @ new"
  by (cases e)
     (auto simp: bt_step_defs completions_def split: list.split option.split sum.split)

lemma completions_run:
  "\<exists>new. completions (run_events bt_step b es) = completions b @ new"
proof (induction es arbitrary: b)
  case (Cons e es)
  show ?case using completions_step [of b e] Cons.IH [of "bt_step b e"]
    by (metis append.assoc run_events.simps(2))
qed simp

lemma link_ok_step:
  assumes "link_ok t a b" and "e = BtRead 0 n \<or> e = BtWrite 1 w \<or> e = BtClose" and "t \<le> length (completions b)"
  shows "link_ok t a (bt_step b e)"
  using assms
  by (elim disjE)
     (auto simp: link_ok_def bt_step_defs completions_def reads_issued_def split: list.split option.split)

lemma link_ok_calls:
  assumes "link_ok t a b" and "t \<le> length (completions b)"
  shows "link_ok t a (run_events bt_step b (transport_events calls))"
  using assms
proof (induction calls arbitrary: b)
  case (Cons c calls)
  show ?case
  proof (cases "transport_event c")
    case Nil
    with Cons show ?thesis by simp
  next
    case (Cons e rest)
    then have e: "transport_event c = [e]" by (cases c) auto
    have "link_ok t a (bt_step b e)"
      using Cons.prems e by (cases c) (auto intro!: link_ok_step)
    moreover have "t \<le> length (completions (bt_step b e))"
      using completions_step [of b e] Cons.prems(2) by auto
    ultimately show ?thesis using Cons.IH e by simp
  qed
qed simp

definition cn_ok :: "('c, 'v) connection \<Rightarrow> bool" where
  "cn_ok c \<longleftrightarrow>
     session_ok (cn_session c) \<and> bt_ok (cn_transport c)
     \<and> (ss_state (cn_session c) = Idle \<longrightarrow> reads (ss_log (cn_session c)) = 0)
     \<and> length (completed (cn_transport c)) + length (parked (cn_transport c)) = reads (ss_log (cn_session c))
     \<and> cn_taken c \<le> length (completed (cn_transport c))
     \<and> (TransportClose \<in> set (ss_log (cn_session c)) \<longrightarrow> bt_closed (cn_transport c))
     \<and> (bt_closed (cn_transport c) \<or> reads (ss_log (cn_session c)) \<le> Suc (cn_taken c))
     \<and> errors_bare (cn_transport c) \<and> reads_issued (cn_transport c) \<le> Suc (cn_arrived c)"

text \<open>The session has a read outstanding from its start on, and the underlying transport is being read.\<close>

definition listening :: "('c, 'v) connection \<Rightarrow> bool" where
  "listening c \<longleftrightarrow> bt_closed (cn_transport c)
     \<or> reads (ss_log (cn_session c)) \<in> {0, Suc (cn_taken c)}
       \<and> link_ok (cn_taken c) (cn_arrived c) (cn_transport c)"

lemma micro_not_idle: "micro vops s s' \<Longrightarrow> ss_state s \<noteq> Idle \<Longrightarrow> ss_state s' \<noteq> Idle"
proof (induction rule: micro.induct)
  case (micro_quiet s s')
  then show ?case
  proof (induction rule: quiet.induct)
    case (quiet_error s ec)
    then show ?case by (cases "is_terminal (ss_state s)") (simp_all add: handle_error_live)
  qed (simp_all add: update_service_def enqueue_write_def do_write_next_def Let_def split: list.split)
qed (auto simp: start_state_timer_def transition_to_def complete_disconnect_def needs_timer_def)

lemma step_not_idle:
  assumes "e = EvStart \<or> ss_state s \<noteq> Idle"
  shows "ss_state (session_step env s (now, e)) \<noteq> Idle"
proof (cases "e = EvWrite None")
  case True
  with assms show ?thesis
    by (simp add: session_step_def on_write_complete_def do_write_next_def Let_def split: list.split)
next
  case False
  obtain s1 where s1: "(micro (env_services env now))\<^sup>*\<^sup>* s s1"
    "(micro (env_services env now))\<^sup>*\<^sup>* (if reads_on e then start_read s1 else s1)
       (session_step env s (now, e))"
    and start: "e = EvStart \<longrightarrow> ss_state s1 = VersionExchange"
    by (rule session_step_shape [OF False, where env = env and s = s and now = now])
  have "ss_state s1 \<noteq> Idle"
    using micro_preserves [OF s1(1), of "\<lambda>s. ss_state s \<noteq> Idle"] micro_not_idle assms start by fastforce
  then have "ss_state (if reads_on e then start_read s1 else s1) \<noteq> Idle"
    by (simp add: start_read_def)
  with micro_preserves [OF s1(2), of "\<lambda>s. ss_state s \<noteq> Idle"] micro_not_idle show ?thesis by blast
qed

text \<open>A session that has ended has closed its transport.\<close>

lemma terminal_closed:
  assumes "session_ok s" and "is_terminal (ss_state s)"
  shows "TransportClose \<in> set (ss_log s)"
proof -
  have "\<exists>c\<in>set log. \<exists>st. c = ToObserverState st \<and> is_terminal st"
    if "is_terminal (foldl observe st log)" "\<not> is_terminal st" for st log
    using that
  proof (induction log arbitrary: st)
    case (Cons c log)
    then show ?case by (cases c) fastforce+
  qed simp
  from this [of Idle "ss_log s"] assms have "0 < entered is_terminal (ss_log s)"
    by (auto simp: session_ok_def observed_state_def entered_def counts_def is_terminal_def
        filter_empty_conv)
  with assms(1) have "0 < transport_closes (ss_log s)" by (simp add: session_ok_def)
  then show ?thesis by (auto simp: transport_closes_def counts_def filter_empty_conv)
qed

lemma cn_ok_open:
  assumes "cn_ok c" and "\<not> bt_closed (cn_transport c)"
  shows "\<not> is_terminal (ss_state (cn_session c))"
  using assms terminal_closed by (auto simp: cn_ok_def)

text \<open>
  The steps of the session. The reads it issues are at most one, and only when none is
  parked; what is left of the invariant is arithmetic.
\<close>

lemma session_runs_ok:
  assumes "session_ok (cn_session c)" and "bt_ok (cn_transport c)" and "session_enabled (cn_session c) (now, e)"
    and "ss_state (session_step env (cn_session c) (now, e)) = Idle \<longrightarrow>
           reads (ss_log (cn_session c)) + reads (new_calls env (cn_session c) (now, e)) = 0"
    and "length (completed (cn_transport c)) + length (parked (cn_transport c)) = reads (ss_log (cn_session c))"
    and "cn_taken c \<le> length (completed (cn_transport c))"
    and "TransportClose \<in> set (ss_log (cn_session c)) \<longrightarrow> bt_closed (cn_transport c)"
    and "errors_bare (cn_transport c)" and "reads_issued (cn_transport c) \<le> Suc (cn_arrived c)"
    and "reads (new_calls env (cn_session c) (now, e)) + length (parked (cn_transport c)) \<le> 1
         \<or> reads (new_calls env (cn_session c) (now, e)) = 0"
    and "\<not> bt_closed (cn_transport (session_runs env (now, e) c)) \<Longrightarrow>
         reads (ss_log (cn_session c)) + reads (new_calls env (cn_session c) (now, e)) \<le> Suc (cn_taken c)"
  shows "cn_ok (session_runs env (now, e) c)"
    and "run_enabled bt_enabled bt_step (cn_transport c)
           (transport_events (new_calls env (cn_session c) (now, e)))"
proof -
  let ?b = "cn_transport c" and ?s = "cn_session c"
  let ?calls = "new_calls env ?s (now, e)"
  let ?b1 = "run_events bt_step ?b (transport_events ?calls)"
  have "length (parked ?b) \<le> 1" by (simp add: parked_def split: option.split prod.split)
  with assms(10) have "reads ?calls + length (parked ?b) \<le> 1" by auto
  then show en: "run_enabled bt_enabled bt_step ?b (transport_events ?calls)" by (rule calls_enabled)
  have "completed ?b1 @ parked ?b1 = completed ?b @ parked ?b @ issued (transport_events ?calls)"
    by (rule completed_run [OF en])
  from arg_cong [OF this, of length] have count:
    "length (completed ?b1) + length (parked ?b1) = reads (ss_log ?s) + reads ?calls"
    using assms(5) by (simp add: issued_calls)
  have grow: "length (completed ?b) \<le> length (completed ?b1)"
    using completions_run [of ?b "transport_events ?calls"]
    by (auto simp flip: completions_completed)
  have close: "TransportClose \<in> set (ss_log ?s @ ?calls) \<Longrightarrow> bt_closed ?b1"
    using assms(7) closed_stays close_closes by auto
  show "cn_ok (session_runs env (now, e) c)"
    using assms(4,6,9,11) count grow close session_step_ok [OF assms(1,3)]
      buffered_machine.run_inv [OF assms(2) en] errors_bare_run [OF assms(8)]
    by (auto simp: cn_ok_def session_step_calls calls_reads_issued)
qed

lemma session_runs_listening:
  assumes "cn_taken c \<le> length (completed (cn_transport c))"
    and "\<not> bt_closed (cn_transport (session_runs env (now, e) c)) \<Longrightarrow>
         reads (ss_log (cn_session c)) + reads (new_calls env (cn_session c) (now, e)) \<in> {0, Suc (cn_taken c)}
         \<and> link_ok (cn_taken c) (cn_arrived c) (cn_transport c)"
  shows "listening (session_runs env (now, e) c)"
proof (cases "bt_closed (cn_transport (session_runs env (now, e) c))")
  case False
  with assms(2) show ?thesis
    using link_ok_calls [of "cn_taken c" "cn_arrived c" "cn_transport c"] assms(1)
    by (simp add: listening_def session_step_calls completions_completed)
qed (simp add: listening_def)

lemma handler_error_closes:
  assumes "\<not> is_terminal (ss_state s)" and "ec \<noteq> ErrAborted"
  shows "TransportClose \<in> set (new_calls env s (now, EvRead (Some ec) data))"
proof -
  have "ss_log (session_step env s (now, EvRead (Some ec) data)) = ss_log s @
      [TimerCancel, ToObserverState SessionError, TimerCancel, TransportClose]
        @ snd (close_each (env_services env now) (ss_services s)) @ [ToObserverError (ErrAap TransportReadError)]"
    using assms by (simp add: session_step_def on_read_complete_def handle_error_live Let_def)
  then show ?thesis by (simp add: new_calls_def)
qed

lemma posted_next:
  assumes "posted_reads c = (ec, data) # rest"
  shows "cn_taken c < length (completed (cn_transport c))" and "(ec, data) \<in> set (completions (cn_transport c))"
    and "drop (Suc (cn_taken c)) (completions (cn_transport c)) = rest"
proof -
  have d: "drop (cn_taken c) (completions (cn_transport c)) = (ec, data) # rest"
    using assms by (simp add: posted_reads_def)
  then show "cn_taken c < length (completed (cn_transport c))"
    by (metis completions_completed drop_eq_Nil list.distinct(1) not_less)
  show "(ec, data) \<in> set (completions (cn_transport c))"
    using d in_set_dropD [of "(ec, data)" "cn_taken c" "completions (cn_transport c)"] by simp
  show "drop (Suc (cn_taken c)) (completions (cn_transport c)) = rest"
    using d by (metis drop_Suc tl_drop list.sel(3))
qed

text \<open>
  If the transport is open after the handler of a read, the session goes on, and the read
  brought data unless it was aborted.
\<close>

lemma handler_open:
  assumes "cn_ok c" and "(ec, data) \<in> set (completions (cn_transport c))"
    and open_after: "\<not> bt_closed (run_events bt_step (cn_transport c)
      (transport_events (new_calls env (cn_session c) (now, EvRead ec data))))"
  shows "\<not> bt_closed (cn_transport c)" and "ec \<in> {None, Some ErrAborted}"
    and "\<not> is_terminal (ss_state (session_step env (cn_session c) (now, EvRead ec data)))"
proof -
  let ?e = "EvRead ec data" and ?s = "cn_session c"
  note ok = assms(1) [unfolded cn_ok_def]
  show b: "\<not> bt_closed (cn_transport c)" using open_after closed_stays by auto
  have no_close: "TransportClose \<notin> set (new_calls env ?s (now, ?e))"
    using open_after close_closes by auto
  have "TransportClose \<notin> set (ss_log (session_step env ?s (now, ?e)))"
    using no_close ok b by (auto simp: session_step_calls)
  moreover have "session_ok (session_step env ?s (now, ?e))"
    by (rule session_step_ok) (use ok in \<open>auto simp: session_enabled_def\<close>)
  ultimately show "\<not> is_terminal (ss_state (session_step env ?s (now, ?e)))"
    using terminal_closed by blast
  show "ec \<in> {None, Some ErrAborted}"
    using handler_error_closes [OF cn_ok_open [OF assms(1) b]] no_close by (cases ec) auto
qed

lemma posted_not_parked:
  assumes "cn_ok c" and "posted_reads c = (ec, data) # rest"
  shows "parked (cn_transport c) = []"
proof (cases "bt_closed (cn_transport c)")
  case True
  with assms(1) have "pending_handler (cn_transport c) = None" unfolding cn_ok_def bt_ok_def by blast
  then show ?thesis by (simp add: parked_def)
next
  case False
  then have "length (completed (cn_transport c)) + length (parked (cn_transport c)) \<le> Suc (cn_taken c)"
    using assms(1) by (auto simp: cn_ok_def)
  with posted_next(1) [OF assms(2)] have "length (parked (cn_transport c)) = 0" by linarith
  then show ?thesis by simp
qed

lemma handler_step:
  assumes "cn_ok c" and "posted_reads c = (ec, data) # rest"
  shows "cn_ok (session_runs env (now, EvRead ec data) (c\<lparr>cn_taken := Suc (cn_taken c)\<rparr>))" (is ?ok)
    and "run_enabled bt_enabled bt_step (cn_transport c)
           (transport_events (new_calls env (cn_session c) (now, EvRead ec data)))" (is ?enabled)
proof -
  let ?e = "EvRead ec data" and ?c1 = "c\<lparr>cn_taken := Suc (cn_taken c)\<rparr>"
  let ?s = "cn_session c" and ?b = "cn_transport c"
  note ok = assms(1) [unfolded cn_ok_def]
  note posted = posted_next [OF assms(2)]
  have before: "session_ok (cn_session ?c1)" "bt_ok (cn_transport ?c1)"
    "length (completed (cn_transport ?c1)) + length (parked (cn_transport ?c1)) = reads (ss_log (cn_session ?c1))"
    "cn_taken ?c1 \<le> length (completed (cn_transport ?c1))"
    "TransportClose \<in> set (ss_log (cn_session ?c1)) \<longrightarrow> bt_closed (cn_transport ?c1)"
    "errors_bare (cn_transport ?c1)" "reads_issued (cn_transport ?c1) \<le> Suc (cn_arrived ?c1)"
    using ok posted(1) by simp_all
  have idle: "ss_state (session_step env (cn_session ?c1) (now, ?e)) = Idle \<longrightarrow>
       reads (ss_log (cn_session ?c1)) + reads (new_calls env (cn_session ?c1) (now, ?e)) = 0"
    using ok posted(1) step_not_idle [of ?e ?s env now] by auto
  have new: "reads (new_calls env ?s (now, ?e)) \<le> 1"
    by (simp add: new_calls_reads split: option.split)
  have one: "reads (new_calls env (cn_session ?c1) (now, ?e)) + length (parked (cn_transport ?c1)) \<le> 1
       \<or> reads (new_calls env (cn_session ?c1) (now, ?e)) = 0"
    using posted_not_parked [OF assms] new by simp
  have bound: "reads (ss_log (cn_session ?c1)) + reads (new_calls env (cn_session ?c1) (now, ?e)) \<le> Suc (cn_taken ?c1)"
    if "\<not> bt_closed (cn_transport (session_runs env (now, ?e) ?c1))"
    using handler_open(1) [OF assms(1) posted(2), of env now] that ok new by auto
  have en: "session_enabled (cn_session ?c1) (now, ?e)" by (simp add: session_enabled_def)
  show ?ok by (rule session_runs_ok(1) [OF before(1,2) en idle before(3-7) one bound])
  show ?enabled using session_runs_ok(2) [OF before(1,2) en idle before(3-7) one bound] by simp
qed

lemma handler_listening:
  assumes "cn_ok c" and "listening c" and "posted_reads c = (ec, data) # rest"
  shows "listening (session_runs env (now, EvRead ec data) (c\<lparr>cn_taken := Suc (cn_taken c)\<rparr>))"
proof (rule session_runs_listening)
  let ?c1 = "c\<lparr>cn_taken := Suc (cn_taken c)\<rparr>"
  note ok = assms(1) [unfolded cn_ok_def]
  note posted = posted_next [OF assms(3)]
  show "cn_taken ?c1 \<le> length (completed (cn_transport ?c1))" using posted(1) by simp
  show "reads (ss_log (cn_session ?c1)) + reads (new_calls env (cn_session ?c1) (now, EvRead ec data)) \<in> {0, Suc (cn_taken ?c1)}
       \<and> link_ok (cn_taken ?c1) (cn_arrived ?c1) (cn_transport ?c1)"
    if "\<not> bt_closed (cn_transport (session_runs env (now, EvRead ec data) ?c1))"
  proof -
    note op = handler_open [OF assms(1) posted(2), of env now]
    have ec: "ec = None"
      using op(1,2) that assms(2) posted(2) by (auto simp: listening_def link_ok_def)
    then have "link_ok (Suc (cn_taken c)) (cn_arrived c) (cn_transport c)"
      using assms(2,3) posted(3) op(1) that by (auto simp: listening_def link_ok_def posted_reads_def)
    then show ?thesis
      using op(1,3) that ok assms(2) posted(1) new_calls_reads [of env "cn_session c" now "EvRead ec data"] ec
      by (auto simp: listening_def)
  qed
qed

lemma session_event_reads:
  assumes "cn_ok c" and "cn_enabled c (CnSession now e)"
  shows "reads (new_calls env (cn_session c) (now, e)) = (if e = EvStart then 1 else 0)"
    and "e = EvStart \<Longrightarrow> reads (ss_log (cn_session c)) = 0"
  using assms by (auto simp: cn_ok_def cn_enabled_def is_read_iff new_calls_reads split: session_event.split)

lemma session_event_step:
  assumes "cn_ok c" and "cn_enabled c (CnSession now e)"
  shows "cn_ok (session_runs env (now, e) c)" (is ?ok)
    and "run_enabled bt_enabled bt_step (cn_transport c)
           (transport_events (new_calls env (cn_session c) (now, e)))" (is ?enabled)
proof -
  let ?s = "cn_session c" and ?b = "cn_transport c"
  note ok = assms(1) [unfolded cn_ok_def]
  have e: "session_enabled ?s (now, e)" using assms(2) by (simp add: cn_enabled_def)
  note n = session_event_reads(1) [OF assms, of env] session_event_reads(2) [OF assms]
  have before: "session_ok ?s" "bt_ok ?b"
    "length (completed ?b) + length (parked ?b) = reads (ss_log ?s)" "cn_taken c \<le> length (completed ?b)"
    "TransportClose \<in> set (ss_log ?s) \<longrightarrow> bt_closed ?b"
    "errors_bare ?b" "reads_issued ?b \<le> Suc (cn_arrived c)"
    using ok by simp_all
  have idle: "ss_state (session_step env ?s (now, e)) = Idle \<longrightarrow>
      reads (ss_log ?s) + reads (new_calls env ?s (now, e)) = 0"
    using ok n step_not_idle [of e ?s env now] by auto
  have one: "reads (new_calls env ?s (now, e)) + length (parked ?b) \<le> 1
      \<or> reads (new_calls env ?s (now, e)) = 0"
    using ok n by auto
  have bound: "reads (ss_log ?s) + reads (new_calls env ?s (now, e)) \<le> Suc (cn_taken c)"
    if "\<not> bt_closed (cn_transport (session_runs env (now, e) c))"
    using that closed_stays ok n by (auto split: if_splits)
  show ?ok by (rule session_runs_ok(1) [OF before(1,2) e idle before(3-7) one bound])
  show ?enabled by (rule session_runs_ok(2) [OF before(1,2) e idle before(3-7) one bound])
qed

lemma session_event_listening:
  assumes "cn_ok c" and "listening c" and "cn_enabled c (CnSession now e)"
  shows "listening (session_runs env (now, e) c)"
  by (rule session_runs_listening)
     (use assms(1,2) closed_stays session_event_reads(1) [OF assms(1,3), of env]
        session_event_reads(2) [OF assms(1,3)] in
       \<open>auto simp: listening_def cn_ok_def split: if_splits\<close>)

lemma link_ok_arrival:
  assumes "link_ok t a b" and "t \<le> length (completions b)" and "a < reads_issued b"
    and "res = Inl ErrAborted \<longrightarrow> bt_closed b"
  shows "link_ok t (Suc a) (bt_step b (BtUnderlying res))"
  using assms
  by (auto simp: link_ok_def bt_step_defs completions_def reads_issued_def split: option.split sum.split)

lemma arrival_step:
  assumes "cn_ok c" and "cn_enabled c (CnArrives res)"
  shows "cn_ok (cn_step env c (CnArrives res))"
proof -
  let ?b = "cn_transport c"
  let ?b1 = "bt_step ?b (BtUnderlying res)"
  note ok = assms(1) [unfolded cn_ok_def]
  have en: "bt_enabled ?b (BtUnderlying res)" by (simp add: bt_enabled_def)
  have "reads_issued ?b1 \<le> Suc (reads_issued ?b)"
    by (auto simp: bt_step_defs reads_issued_def split: option.split sum.split)
  then have "reads_issued ?b1 \<le> Suc (Suc (cn_arrived c))"
    using ok by simp
  moreover have "length (completed ?b1) + length (parked ?b1) = length (completed ?b) + length (parked ?b)"
    using arg_cong [OF completed_step [OF en], of length] by (simp add: issued_def)
  moreover have "length (completed ?b) \<le> length (completed ?b1)"
    using completions_step [of ?b "BtUnderlying res"] by (auto simp flip: completions_completed)
  moreover have "bt_closed ?b1 \<longleftrightarrow> bt_closed ?b"
    by (auto simp: bt_step_defs split: option.split sum.split)
  moreover have "errors_bare ?b1" by (rule errors_bare_step) (use ok in simp)
  moreover have "bt_ok ?b1" by (rule bt_step_ok [OF _ en]) (use ok in simp)
  ultimately show ?thesis using ok by (auto simp: cn_ok_def cn_step_def bt_step_def)
qed

text \<open>The underlying transport reports \<open>operation_aborted\<close> only after it has been closed.\<close>

definition cn_sound :: "('c, 'v) connection \<Rightarrow> cn_event \<Rightarrow> bool" where
  "cn_sound c e \<longleftrightarrow> cn_enabled c e \<and> (e = CnArrives (Inl ErrAborted) \<longrightarrow> bt_closed (cn_transport c))"

lemma listening_step:
  assumes "cn_ok c" and "listening c" and "cn_sound c e"
  shows "listening (cn_step env c e)"
proof (cases e)
  case (CnHandler now)
  with assms(3) obtain ec data rest where p: "posted_reads c = (ec, data) # rest"
    by (cases "posted_reads c") (auto simp: cn_sound_def cn_enabled_def)
  with handler_listening [OF assms(1,2) p] CnHandler show ?thesis by (simp add: cn_step_def)
next
  case (CnArrives res)
  let ?b1 = "bt_step (cn_transport c) (BtUnderlying res)"
  have "bt_closed ?b1 \<longleftrightarrow> bt_closed (cn_transport c)"
    by (auto simp: bt_step_defs split: option.split sum.split)
  moreover have "link_ok (cn_taken c) (Suc (cn_arrived c)) ?b1" if "\<not> bt_closed (cn_transport c)"
    by (rule link_ok_arrival)
       (use assms that CnArrives in \<open>auto simp: cn_ok_def listening_def completions_completed cn_sound_def cn_enabled_def\<close>)
  ultimately show ?thesis
    using assms(2) CnArrives by (auto simp: listening_def cn_step_def bt_step_def)
next
  case (CnSession now ev)
  with session_event_listening assms show ?thesis by (simp add: cn_sound_def cn_step_def)
qed

lemma cn_step_ok:
  assumes "cn_ok c" and "cn_enabled c e"
  shows "cn_ok (cn_step env c e)"
proof (cases e)
  case (CnHandler now)
  with assms(2) obtain ec data rest where p: "posted_reads c = (ec, data) # rest"
    by (cases "posted_reads c") (auto simp: cn_enabled_def)
  with handler_step(1) [OF assms(1) p] CnHandler show ?thesis by (simp add: cn_step_def)
next
  case (CnArrives res)
  with arrival_step assms show ?thesis by blast
next
  case (CnSession now ev)
  with session_event_step(1) assms show ?thesis by (simp add: cn_step_def)
qed

interpretation connection_machine: invariant_machine "cn_step env" cn_enabled cn_ok for env
  by unfold_locales (rule cn_step_ok)

lemma new_connection_ok:
  "cn_ok (new_connection (session_with cfg c svcs))" "listening (new_connection (session_with cfg c svcs))"
proof -
  have "ss_log (foldl (\<lambda>s kv. register_service (fst kv) (snd kv) s) s svcs) = ss_log s"
    "ss_state (foldl (\<lambda>s kv. register_service (fst kv) (snd kv) s) s svcs) = ss_state s"
    for s :: "('a, 'b) session"
    by (induction svcs arbitrary: s) (simp_all add: register_service_def)
  then have "ss_log (session_with cfg c svcs) = []" by (simp add: session_with_def new_session_def)
  moreover have "bt_ok (bt_start new_buffered)" "completed (bt_start new_buffered) = []"
    "parked (bt_start new_buffered) = []" "link_ok 0 0 (bt_start new_buffered)"
    "errors_bare (bt_start new_buffered)" "reads_issued (bt_start new_buffered) \<le> Suc 0"
    by (simp_all add: bt_step_defs new_buffered_def bt_ok_def completed_def parked_def link_ok_def
        completions_def reads_issued_def errors_bare_def)
  ultimately show "cn_ok (new_connection (session_with cfg c svcs))"
    "listening (new_connection (session_with cfg c svcs))"
    by (simp_all add: cn_ok_def listening_def new_connection_def session_with_ok)
qed

lemmas connection_run_ok = connection_machine.run_inv [OF new_connection_ok(1)]

text \<open>In a run of the connection, its session makes a run of its own.\<close>

lemma session_of_step:
  assumes "cn_enabled c e"
  shows "\<exists>tes. run_enabled session_enabled (session_step env) (cn_session c) tes
    \<and> cn_session (cn_step env c e) = run_events (session_step env) (cn_session c) tes"
proof (cases e)
  case (CnHandler now)
  with assms obtain ec data rest where "posted_reads c = (ec, data) # rest"
    by (cases "posted_reads c") (auto simp: cn_enabled_def)
  then show ?thesis
    by (intro exI [where x = "[(now, EvRead ec data)]"]) (simp add: CnHandler cn_step_def session_enabled_def)
next
  case (CnArrives res)
  then show ?thesis by (intro exI [where x = "[]"]) (simp add: cn_step_def)
next
  case (CnSession now ev)
  with assms show ?thesis by (intro exI [where x = "[(now, ev)]"]) (simp add: cn_step_def cn_enabled_def)
qed

lemma session_of_run:
  "run_enabled cn_enabled (cn_step env) c ces \<Longrightarrow>
   \<exists>tes. run_enabled session_enabled (session_step env) (cn_session c) tes
     \<and> cn_session (run_events (cn_step env) c ces) = run_events (session_step env) (cn_session c) tes"
proof (induction ces arbitrary: c)
  case Nil
  then show ?case by (intro exI [where x = "[]"]) simp
next
  case (Cons e ces)
  obtain tes where tes: "run_enabled session_enabled (session_step env) (cn_session c) tes"
    "cn_session (cn_step env c e) = run_events (session_step env) (cn_session c) tes"
    using session_of_step [of c e env] Cons.prems by auto
  obtain tes' where "run_enabled session_enabled (session_step env) (cn_session (cn_step env c e)) tes'"
    "cn_session (run_events (cn_step env) (cn_step env c e) ces) =
      run_events (session_step env) (cn_session (cn_step env c e)) tes'"
    using Cons.IH [of "cn_step env c e"] Cons.prems by auto
  with tes show ?case by (intro exI [where x = "tes @ tes'"]) (simp add: run_enabled_append run_events_append)
qed

section \<open>What the two promise each other\<close>

text \<open>The events of the buffered transport in a run of the connection.\<close>

definition step_trace :: "('c, 'v) session_env \<Rightarrow> ('c, 'v) connection \<Rightarrow> cn_event \<Rightarrow> bt_event list" where
  "step_trace env c e =
     (case e of
        CnHandler now \<Rightarrow>
          (case posted_reads c of
             [] \<Rightarrow> []
           | (ec, data) # _ \<Rightarrow> transport_events (new_calls env (cn_session c) (now, EvRead ec data)))
      | CnArrives res \<Rightarrow> [BtUnderlying res]
      | CnSession now ev \<Rightarrow> transport_events (new_calls env (cn_session c) (now, ev)))"

primrec transport_trace ::
    "('c, 'v) session_env \<Rightarrow> ('c, 'v) connection \<Rightarrow> cn_event list \<Rightarrow> bt_event list" where
  "transport_trace env c [] = []"
| "transport_trace env c (e # es) = step_trace env c e @ transport_trace env (cn_step env c e) es"

lemma step_trace_run: "cn_transport (cn_step env c e) = run_events bt_step (cn_transport c) (step_trace env c e)"
  by (auto simp: cn_step_def step_trace_def bt_step_def split: cn_event.split list.split prod.split)

lemma step_trace_enabled:
  assumes "cn_ok c" and "cn_enabled c e"
  shows "run_enabled bt_enabled bt_step (cn_transport c) (step_trace env c e)"
proof (cases e)
  case (CnHandler now)
  with assms(2) obtain ec data rest where p: "posted_reads c = (ec, data) # rest"
    by (cases "posted_reads c") (auto simp: cn_enabled_def)
  with handler_step(2) [OF assms(1) p] CnHandler show ?thesis by (simp add: step_trace_def)
next
  case (CnArrives res)
  then show ?thesis by (simp add: step_trace_def bt_enabled_def)
next
  case (CnSession now ev)
  with session_event_step(2) assms show ?thesis by (simp add: step_trace_def)
qed

lemma transport_trace_run:
  assumes "cn_ok c" and "run_enabled cn_enabled (cn_step env) c es"
  shows "run_enabled bt_enabled bt_step (cn_transport c) (transport_trace env c es)"
    and "run_events bt_step (cn_transport c) (transport_trace env c es) =
      cn_transport (run_events (cn_step env) c es)"
  using assms
  by (induction es arbitrary: c) (simp_all add: cn_step_ok step_trace_enabled flip: step_trace_run)

text \<open>
  The session uses its transport as the interface asks. In every run, what the buffered
  transport sees is a run that its contract allows: it is never asked to read while a read
  is outstanding. So every property of the buffered transport holds of the one inside a
  connection.
\<close>

theorem connection_refines_buffered:
  assumes "run_enabled cn_enabled (cn_step env) (new_connection (session_with cfg cr svcs)) es"
  defines "c0 \<equiv> new_connection (session_with cfg cr svcs)"
  shows "run_enabled bt_enabled bt_step new_buffered (BtStart # transport_trace env c0 es)
    \<and> cn_transport (run_events (cn_step env) c0 es) =
        run_events bt_step new_buffered (BtStart # transport_trace env c0 es)"
proof -
  have start: "cn_transport c0 = bt_step new_buffered BtStart"
    by (simp add: c0_def new_connection_def bt_step_def)
  show ?thesis
    using transport_trace_run [OF new_connection_ok(1) assms(1)]
    by (simp add: start bt_enabled_def flip: c0_def)
qed

lemma reads_grow: "reads (ss_log (cn_session c)) \<le> reads (ss_log (cn_session (cn_step env c e)))"
  by (auto simp: cn_step_def session_step_calls split: cn_event.split list.split prod.split)

lemma reads_grow_run:
  "reads (ss_log (cn_session c)) \<le> reads (ss_log (cn_session (run_events (cn_step env) c es)))"
proof (induction es arbitrary: c)
  case (Cons e es)
  then show ?case using reads_grow [of c env e] le_trans by fastforce
qed simp

lemma started_reads:
  assumes "CnSession now EvStart \<in> set es"
  shows "0 < reads (ss_log (cn_session (run_events (cn_step env) c es)))"
  using assms
proof (induction es arbitrary: c)
  case (Cons e es)
  show ?case
  proof (cases "e = CnSession now EvStart")
    case True
    then have "0 < reads (ss_log (cn_session (cn_step env c e)))"
      by (simp add: cn_step_def session_step_calls new_calls_reads)
    then show ?thesis using reads_grow_run [of "cn_step env c e" env es] by simp
  qed (use Cons in simp)
qed simp

lemma listening_run:
  assumes "cn_ok c" and "listening c" and "run_enabled cn_sound (cn_step env) c es"
  shows "listening (run_events (cn_step env) c es)"
  using assms
proof (induction es arbitrary: c)
  case (Cons e es)
  then have "cn_enabled c e" "cn_sound c e" by (simp_all add: cn_sound_def)
  with Cons show ?case by (simp add: cn_step_ok listening_step)
qed simp

lemma sound_enabled: "run_enabled cn_sound step c es \<Longrightarrow> run_enabled cn_enabled step c es"
  by (induction es arbitrary: c) (simp_all add: cn_sound_def)

text \<open>Once started, a connection that listens has one read: its handler is posted, or it is parked.\<close>

lemma listening_read:
  assumes "cn_ok c" and "listening c" and "0 < reads (ss_log (cn_session c))" and "\<not> bt_closed (cn_transport c)"
  shows "length (posted_reads c) + length (parked (cn_transport c)) = 1"
    and "parked (cn_transport c) \<noteq> [] \<Longrightarrow> reads_issued (cn_transport c) = Suc (cn_arrived c)"
proof -
  have "reads (ss_log (cn_session c)) = Suc (cn_taken c)"
    using assms(2-4) by (auto simp: listening_def)
  then show one: "length (posted_reads c) + length (parked (cn_transport c)) = 1"
    using assms(1) by (auto simp: cn_ok_def posted_reads_def completions_completed)
  assume parked: "parked (cn_transport c) \<noteq> []"
  then have "posted_reads c = []" using one by (cases "parked (cn_transport c)") auto
  moreover have "deferred_error (cn_transport c) = None"
    using assms(1) parked by (auto simp: cn_ok_def bt_ok_def parked_def split: option.splits)
  ultimately show "reads_issued (cn_transport c) = Suc (cn_arrived c)"
    using assms(2,4) by (auto simp: listening_def link_ok_def posted_reads_def)
qed

text \<open>
  C20. A connection never stops listening. From \<open>start\<close> on, as long as its transport is open, the
  session has not ended, and there is exactly one read of it outstanding: either its handler
  has been posted and can run, or it is parked and the underlying transport is being read,
  so that the next bytes of the phone reach it. (The underlying transport is taken to report
  \<open>operation_aborted\<close> only after it has been closed.)
\<close>

theorem connection_never_stalls:
  assumes "run_enabled cn_sound (cn_step env) (new_connection (session_with cfg cr svcs)) es"
    and "CnSession t EvStart \<in> set es"
  defines "c \<equiv> run_events (cn_step env) (new_connection (session_with cfg cr svcs)) es"
  assumes "\<not> bt_closed (cn_transport c)"
  shows "\<not> is_terminal (ss_state (cn_session c))
    \<and> length (posted_reads c) + length (parked (cn_transport c)) = 1
    \<and> (if parked (cn_transport c) = [] then cn_enabled c (CnHandler now)
       else reads_issued (cn_transport c) = Suc (cn_arrived c) \<and> cn_enabled c (CnArrives (Inr data)))"
proof -
  have ok: "cn_ok c" unfolding c_def by (rule connection_run_ok [OF sound_enabled [OF assms(1)]])
  have lis: "listening c" unfolding c_def by (rule listening_run [OF new_connection_ok assms(1)])
  have "0 < reads (ss_log (cn_session c))" unfolding c_def by (rule started_reads [OF assms(2)])
  from listening_read [OF ok lis this assms(4)] show ?thesis
    using cn_ok_open [OF ok assms(4)] by (auto simp: cn_enabled_def)
qed

section \<open>What is sent\<close>

text \<open>The buffered transport passes the writes of the session on, in order, to the underlying one.\<close>

definition passed_on :: "buffered \<Rightarrow> bytes list" where
  "passed_on b = concat (map (\<lambda>c. case c of UnderlyingWrite h data \<Rightarrow> [data] | _ \<Rightarrow> []) (bt_log b))"

lemma passed_on_step:
  "passed_on (bt_step b e) = passed_on b @ (case e of BtWrite h data \<Rightarrow> [data] | _ \<Rightarrow> [])"
  by (cases e) (auto simp: bt_step_defs passed_on_def split: list.split option.split sum.split)

lemma passed_on_calls:
  "passed_on (run_events bt_step b (transport_events calls)) = passed_on b @ written calls"
proof (induction calls arbitrary: b)
  case (Cons c calls)
  then show ?case by (cases c) (simp_all add: passed_on_step)
qed simp

lemma passed_on_cn_step:
  assumes "passed_on (cn_transport c) = written (ss_log (cn_session c))"
  shows "passed_on (cn_transport (cn_step env c e)) = written (ss_log (cn_session (cn_step env c e)))"
  using assms passed_on_step [of "cn_transport c" "BtUnderlying res" for res]
  by (auto simp: cn_step_def passed_on_calls session_step_calls bt_step_def
      split: cn_event.split list.split prod.split)

lemma passed_on_run:
  "passed_on (cn_transport (run_events (cn_step env) (new_connection (session_with cfg cr svcs)) es)) =
     written (ss_log (cn_session (run_events (cn_step env) (new_connection (session_with cfg cr svcs)) es)))"
proof -
  have "passed_on (cn_transport c) = written (ss_log (cn_session c)) \<Longrightarrow>
      passed_on (cn_transport (run_events (cn_step env) c es)) =
        written (ss_log (cn_session (run_events (cn_step env) c es)))" for c
    by (induction es arbitrary: c) (simp_all add: passed_on_cn_step)
  moreover have "ss_log (foldl (\<lambda>s kv. register_service (fst kv) (snd kv) s) s svcs) = ss_log s"
    for s :: "('a, 'b) session"
    by (induction svcs arbitrary: s) (simp_all add: register_service_def)
  ultimately show ?thesis
    by (simp add: new_connection_def session_with_def new_session_def passed_on_def bt_step_defs new_buffered_def)
qed

section \<open>The byte stream\<close>

text \<open>Nothing but \<open>feed\<close> touches the framer of a session.\<close>

lemma framer_quiet: "(quiet vops)\<^sup>*\<^sup>* s s' \<Longrightarrow> ss_framer s' = ss_framer s"
proof (erule quiet_preserves [where P = "\<lambda>s'. ss_framer s' = ss_framer s"])
  fix s1 s2 :: "('a, 'b) session"
  assume "quiet vops s1 s2" and "ss_framer s1 = ss_framer s"
  then show "ss_framer s2 = ss_framer s"
  proof (induction rule: quiet.induct)
    case (quiet_error s ec)
    then show ?case by (cases "is_terminal (ss_state s)") (simp_all add: handle_error_live)
  qed (simp_all add: update_service_def enqueue_write_def do_write_next_def Let_def split: list.split)
qed simp

lemmas framer_kept = quiet_runs [THEN framer_quiet] quiet_plaintext [THEN framer_quiet]
  quiet_steps(5) [THEN framer_quiet]

lemma framer_hs_actions: "ss_framer (foldl (perform_hs_action ops vops codec) s as) = ss_framer s"
proof (induction as arbitrary: s)
  case (Cons a as)
  have "ss_framer (perform_hs_action ops vops codec s a) = ss_framer s"
    by (cases a) (simp_all add: perform_hs_action_def on_ssl_complete_def transition_to_def framer_kept)
  with Cons show ?case by simp
qed simp

lemma framer_fragment: "ss_framer (on_fragment ops vops codec s f) = ss_framer s"
proof -
  have "ss_framer (run_coordinator ops vops codec g s) = ss_framer s" for g and s :: "('a, 'b) session"
    by (simp add: run_coordinator_def split_beta Let_def framer_hs_actions)
  then have "ss_framer (dispatch_decrypted ops vops codec m s) = ss_framer s" for m and s :: "('a, 'b) session"
    by (simp add: dispatch_decrypted_def handle_handshake_message_def on_version_response_def
        start_state_timer_def transition_to_def framer_kept split: option.split)
  then show ?thesis
    by (simp add: on_fragment_def split_beta Let_def framer_kept split: asm_outcome.split)
qed

lemma framer_fragments: "ss_framer (foldl (on_fragment ops vops codec) s fs) = ss_framer s"
  by (induction fs arbitrary: s) (simp_all add: framer_fragment)

lemma step_framer:
  "ss_framer (session_step env s (now, e)) =
     (case e of EvRead None data \<Rightarrow> fst (framer_feed (ss_framer s) data) | _ \<Rightarrow> ss_framer s)"
proof (cases e)
  case (EvRead ec data)
  have "ss_framer (session_feed ops vops codec data s) = fst (framer_feed (ss_framer s) data)" for ops vops codec
    using framer.feed_nil by (simp add: session_feed_def split_beta Let_def framer_fragments)
  then show ?thesis
    using EvRead by (simp add: session_step_def on_read_complete_def start_read_def framer_kept Let_def
        split: option.split)
qed (simp_all add: session_step_def begin_version_exchange_def send_version_request_def start_read_def
      start_state_timer_def transition_to_def do_stop_def begin_disconnect_def complete_disconnect_def
      on_write_complete_def do_write_next_def on_state_timeout_def framer_kept Let_def
      split: option.split list.split session_state.split)

text \<open>The bytes with which a step feeds the session.\<close>

definition step_bytes :: "('c, 'v) connection \<Rightarrow> cn_event \<Rightarrow> bytes" where
  "step_bytes c e =
     (case e of
        CnHandler now \<Rightarrow> (case posted_reads c of (None, data) # _ \<Rightarrow> data | _ \<Rightarrow> [])
      | _ \<Rightarrow> [])"

primrec fed_bytes :: "('c, 'v) session_env \<Rightarrow> ('c, 'v) connection \<Rightarrow> cn_event list \<Rightarrow> bytes" where
  "fed_bytes env c [] = []"
| "fed_bytes env c (e # es) = step_bytes c e @ fed_bytes env (cn_step env c e) es"

text \<open>
  What the session is to make of a stream, stated without bytes: an input is the fragments that one
  read has completed, each of which goes to \<open>on_fragment\<close> before the next read is issued (the framer
  keeps the rest), or an event that brings no data.
\<close>

datatype session_input =
    Fragments int framer "aap_fragment list"
  | OtherEvent int session_event

fun session_input_step ::
    "('c, 'v) session_env \<Rightarrow> ('c, 'v) session \<Rightarrow> session_input \<Rightarrow> ('c, 'v) session" where
  "session_input_step env s (Fragments now fr fs) =
     start_read (foldl (on_fragment (env_crypto env) (env_services env now) (env_codec env))
       (s\<lparr>ss_framer := fr\<rparr>) fs)"
| "session_input_step env s (OtherEvent now ev) = session_step env s (now, ev)"

definition brings_data :: "session_input \<Rightarrow> bool" where
  "brings_data i \<longleftrightarrow>
     (case i of
        OtherEvent now ev \<Rightarrow> (case ev of EvRead ec data \<Rightarrow> ec = None | _ \<Rightarrow> False)
      | Fragments now fr fs \<Rightarrow> False)"

definition fragments_in :: "session_input list \<Rightarrow> aap_fragment list" where
  "fragments_in is = concat (map (\<lambda>i. case i of Fragments now fr fs \<Rightarrow> fs | _ \<Rightarrow> []) is)"

lemma fragments_in_simps [simp]:
  "fragments_in [] = []" "fragments_in (is @ js) = fragments_in is @ fragments_in js"
  by (simp_all add: fragments_in_def)

definition step_inputs :: "('c, 'v) connection \<Rightarrow> cn_event \<Rightarrow> session_input list" where
  "step_inputs c e =
     (case e of
        CnHandler now \<Rightarrow>
          (case posted_reads c of
             [] \<Rightarrow> []
           | (None, data) # _ \<Rightarrow> [case_prod (Fragments now) (framer_feed (ss_framer (cn_session c)) data)]
           | (Some ec, data) # _ \<Rightarrow> [OtherEvent now (EvRead (Some ec) data)])
      | CnArrives res \<Rightarrow> []
      | CnSession now ev \<Rightarrow> [OtherEvent now ev])"

primrec session_inputs ::
    "('c, 'v) session_env \<Rightarrow> ('c, 'v) connection \<Rightarrow> cn_event list \<Rightarrow> session_input list" where
  "session_inputs env c [] = []"
| "session_inputs env c (e # es) = step_inputs c e @ session_inputs env (cn_step env c e) es"

text \<open>A read of the session is the handling of the fragments it completes.\<close>

lemma read_is_fragments:
  "session_step env s (now, EvRead None data) =
     session_input_step env s (case_prod (Fragments now) (framer_feed (ss_framer s) data))"
  using framer.feed_nil [of "ss_framer s"]
  by (simp add: session_step_def on_read_complete_def session_feed_def split_beta Let_def)

lemma step_inputs_run:
  "cn_session (cn_step env c e) = run_events (session_input_step env) (cn_session c) (step_inputs c e)"
  by (auto simp: cn_step_def step_inputs_def read_is_fragments
      split: cn_event.split list.split prod.split option.split)

lemma step_inputs_fragments:
  "framer_feed (ss_framer (cn_session c)) (step_bytes c e) =
     (fst (framer_feed (ss_framer (cn_session c)) (step_bytes c e)), fragments_in (step_inputs c e))"
  using framer.feed_nil [of "ss_framer (cn_session c)"]
  by (auto simp: step_bytes_def step_inputs_def fragments_in_def prod_eq_iff split_beta
      split: cn_event.split list.split prod.split option.split)

lemma step_inputs_bare:
  assumes "cn_enabled c e"
  shows "\<not> (\<exists>i\<in>set (step_inputs c e). brings_data i)"
proof (cases e)
  case (CnHandler now)
  then show ?thesis
    by (cases "posted_reads c") (auto simp: step_inputs_def brings_data_def split_beta split: option.split)
qed (use assms in \<open>auto simp: step_inputs_def brings_data_def cn_enabled_def is_read_iff split: session_event.split\<close>)

lemma cn_step_framer:
  assumes "cn_enabled c e"
  shows "ss_framer (cn_session (cn_step env c e)) = fst (framer_feed (ss_framer (cn_session c)) (step_bytes c e))"
  using framer.feed_nil assms
  by (auto simp: cn_step_def step_bytes_def step_framer cn_enabled_def is_read_iff
      split: cn_event.split list.split option.split session_event.split)

lemma inputs_run:
  assumes "run_enabled cn_enabled (cn_step env) c es"
  shows "framer_feed (ss_framer (cn_session c)) (fed_bytes env c es) =
      (ss_framer (cn_session (run_events (cn_step env) c es)), fragments_in (session_inputs env c es))"
    and "cn_session (run_events (cn_step env) c es) =
      run_events (session_input_step env) (cn_session c) (session_inputs env c es)"
    and "\<not> (\<exists>i\<in>set (session_inputs env c es). brings_data i)"
proof -
  show "framer_feed (ss_framer (cn_session c)) (fed_bytes env c es) =
      (ss_framer (cn_session (run_events (cn_step env) c es)), fragments_in (session_inputs env c es))"
    using assms
  proof (induction es arbitrary: c)
    case Nil
    then show ?case using framer.feed_nil by simp
  next
    case (Cons e es)
    then have "framer_feed (ss_framer (cn_session c)) (step_bytes c e) =
        (ss_framer (cn_session (cn_step env c e)), fragments_in (step_inputs c e))"
      using cn_step_framer [of c e env] step_inputs_fragments [of c e] by simp
    with Cons show ?case
      using framer.feed_append [of "ss_framer (cn_session c)" "step_bytes c e"] by simp
  qed
  show "cn_session (run_events (cn_step env) c es) =
      run_events (session_input_step env) (cn_session c) (session_inputs env c es)"
    by (induction es arbitrary: c) (simp_all add: step_inputs_run run_events_append)
  show "\<not> (\<exists>i\<in>set (session_inputs env c es). brings_data i)"
    using assms by (induction es arbitrary: c) (auto dest: step_inputs_bare)
qed

text \<open>What has arrived and not been fed: in posted handlers and in the queue of chunks.\<close>

definition waiting_bytes :: "('c, 'v) connection \<Rightarrow> bytes" where
  "waiting_bytes c = concat (map snd (posted_reads c)) @ concat (rx_queue (cn_transport c))"

definition arrived_bytes :: "cn_event list \<Rightarrow> bytes" where
  "arrived_bytes es = concat (map (\<lambda>e. case e of CnArrives (Inr data) \<Rightarrow> data | _ \<Rightarrow> []) es)"

text \<open>A chunk that arrives finds a reader or room in the queue.\<close>

definition cn_roomy :: "('c, 'v) connection \<Rightarrow> cn_event \<Rightarrow> bool" where
  "cn_roomy c e \<longleftrightarrow> cn_enabled c e
     \<and> (case e of
          CnArrives (Inr data) \<Rightarrow>
            pending_handler (cn_transport c) \<noteq> None \<or> length (rx_queue (cn_transport c)) < kMaxQueuedReads
        | _ \<Rightarrow> True)"

lemma roomy_enabled: "run_enabled cn_roomy step c es \<Longrightarrow> run_enabled cn_enabled step c es"
  by (induction es arbitrary: c) (simp_all add: cn_roomy_def)

lemma delivered_completions: "bt_delivered b = concat (map snd (completions b))"
proof -
  have "concat (map (\<lambda>c. case c of Completed h ec data \<Rightarrow> data | _ \<Rightarrow> []) cs) =
      concat (map snd (concat (map (\<lambda>c. case c of Completed h ec data \<Rightarrow> [(ec, data)] | _ \<Rightarrow> []) cs)))" for cs
    by (induction cs) (auto split: bt_call.split)
  then show ?thesis by (simp add: completions_def bt_delivered_def)
qed

lemma stream_split:
  "bt_stream (cn_transport c) =
     concat (map snd (take (cn_taken c) (completions (cn_transport c)))) @ waiting_bytes c"
proof -
  have "concat (map snd (completions b)) =
      concat (map snd (take n (completions b))) @ concat (map snd (drop n (completions b)))" for b n
    by (simp flip: concat_append map_append)
  then show ?thesis
    by (simp add: bt_stream_def delivered_completions waiting_bytes_def posted_reads_def)
qed

lemma calls_received: "bt_received (transport_events calls) = []"
proof (induction calls)
  case (Cons c calls)
  then show ?case by (cases c) (simp_all add: bt_received_def)
qed (simp add: bt_received_def)

lemma calls_roomy:
  "run_enabled bt_enabled bt_step b (transport_events calls) \<Longrightarrow> TransportClose \<notin> set calls \<Longrightarrow>
   run_enabled bt_roomy bt_step b (transport_events calls)"
proof (induction calls arbitrary: b)
  case (Cons c calls)
  then show ?case by (cases c) (simp_all add: bt_roomy_def)
qed simp

lemma calls_stream:
  assumes "cn_ok c" and "run_enabled bt_enabled bt_step (cn_transport c) (transport_events calls)"
    and "\<not> bt_closed (run_events bt_step (cn_transport c) (transport_events calls))"
  shows "bt_stream (run_events bt_step (cn_transport c) (transport_events calls)) = bt_stream (cn_transport c)"
proof -
  have "bt_flowing (cn_transport c)"
    using assms closed_stays by (auto simp: cn_ok_def bt_ok_def bt_flowing_def)
  moreover have "TransportClose \<notin> set calls" using assms(3) close_closes by blast
  ultimately show ?thesis using calls_roomy [OF assms(2)] bt_roomy_run calls_received by fastforce
qed

text \<open>A step that leaves the transport open moves bytes from one end to the other.\<close>

lemma taken_prefix:
  assumes "n \<le> length (completions b)"
  shows "take n (completions (run_events bt_step b es)) = take n (completions b)"
  using completions_run [of b es] assms by auto

lemma waiting_moves:
  assumes "bt_stream (cn_transport c1) = bt_stream (cn_transport c) @ xs"
    and "take (cn_taken c1) (completions (cn_transport c1)) =
      take (cn_taken c) (completions (cn_transport c)) @ ys"
  shows "waiting_bytes c @ xs = concat (map snd ys) @ waiting_bytes c1"
  using assms by (simp add: stream_split)

lemma waiting_handler:
  assumes "cn_ok c" and "cn_roomy c (CnHandler now)"
    and op: "\<not> bt_closed (cn_transport (cn_step env c (CnHandler now)))"
  shows "waiting_bytes c = step_bytes c (CnHandler now) @ waiting_bytes (cn_step env c (CnHandler now))"
proof -
  let ?b = "cn_transport c" and ?c1 = "cn_step env c (CnHandler now)"
  obtain ec data rest where p: "posted_reads c = (ec, data) # rest"
    using assms(2) by (cases "posted_reads c") (auto simp: cn_roomy_def cn_enabled_def)
  note posted = posted_next [OF p]
  have c1: "cn_transport ?c1 = run_events bt_step ?b
      (transport_events (new_calls env (cn_session c) (now, EvRead ec data)))"
    "cn_taken ?c1 = Suc (cn_taken c)"
    using p by (simp_all add: cn_step_def)
  note ec = handler_open(2) [OF assms(1) posted(2) op [unfolded c1]]
  have "drop (cn_taken c) (completions ?b) = (ec, data) # rest" using p by (simp add: posted_reads_def)
  then have "take (Suc (cn_taken c)) (completions ?b) = take (cn_taken c) (completions ?b) @ [(ec, data)]"
    using posted(1) by (simp add: take_Suc_conv_app_nth completions_completed flip: hd_drop_conv_nth)
  then have "take (cn_taken ?c1) (completions (cn_transport ?c1)) =
      take (cn_taken c) (completions ?b) @ [(ec, data)]"
    using posted(1) taken_prefix [of "Suc (cn_taken c)" ?b] by (simp add: c1 completions_completed)
  moreover have "bt_stream (cn_transport ?c1) = bt_stream ?b @ []"
    using calls_stream [OF assms(1) handler_step(2) [OF assms(1) p] op [unfolded c1]] by (simp add: c1)
  ultimately have "waiting_bytes c @ [] = concat (map snd [(ec, data)]) @ waiting_bytes ?c1"
    by (intro waiting_moves)
  moreover have "ec \<noteq> None \<Longrightarrow> data = []" using assms(1) posted(2) by (auto simp: cn_ok_def errors_bare_def)
  ultimately show ?thesis using p ec by (auto simp: step_bytes_def)
qed

lemma waiting_arrival:
  assumes "cn_ok c" and "cn_roomy c (CnArrives res)"
    and "\<not> bt_closed (cn_transport (cn_step env c (CnArrives res)))"
  shows "waiting_bytes c @ arrived_bytes [CnArrives res] = waiting_bytes (cn_step env c (CnArrives res))"
proof -
  let ?b = "cn_transport c" and ?e = "BtUnderlying res" and ?c1 = "cn_step env c (CnArrives res)"
  have c1: "cn_transport ?c1 = bt_step ?b ?e" "cn_taken ?c1 = cn_taken c"
    by (simp_all add: cn_step_def bt_step_def)
  have "bt_flowing ?b"
    using assms(1,3) by (auto simp: cn_ok_def bt_ok_def bt_flowing_def cn_step_def on_underlying_read_def)
  moreover have "bt_roomy ?b ?e"
    using assms(2) by (auto simp: cn_roomy_def bt_roomy_def bt_enabled_def)
  ultimately have "bt_stream (cn_transport ?c1) = bt_stream ?b @ bt_received [?e]"
    using bt_roomy_step(2) by (simp add: c1)
  moreover have "take (cn_taken ?c1) (completions (cn_transport ?c1)) = take (cn_taken c) (completions ?b) @ []"
    using assms(1) taken_prefix [of "cn_taken c" ?b "[?e]"] by (simp add: c1 cn_ok_def completions_completed)
  ultimately have "waiting_bytes c @ bt_received [?e] = waiting_bytes ?c1"
    using waiting_moves [of ?c1 c "bt_received [?e]" "[]"] by simp
  then show ?thesis by (cases res) (simp_all add: bt_received_def arrived_bytes_def)
qed

lemma waiting_session:
  assumes "cn_ok c" and "cn_roomy c (CnSession now ev)"
    and op: "\<not> bt_closed (cn_transport (cn_step env c (CnSession now ev)))"
  shows "waiting_bytes c = waiting_bytes (cn_step env c (CnSession now ev))"
proof -
  let ?b = "cn_transport c" and ?c1 = "cn_step env c (CnSession now ev)"
  have c1: "cn_transport ?c1 =
      run_events bt_step ?b (transport_events (new_calls env (cn_session c) (now, ev)))"
    "cn_taken ?c1 = cn_taken c"
    by (simp_all add: cn_step_def)
  have "cn_enabled c (CnSession now ev)" using assms(2) by (simp add: cn_roomy_def)
  note en = session_event_step(2) [OF assms(1) this, of env]
  have "bt_stream (cn_transport ?c1) = bt_stream ?b @ []"
    using calls_stream [OF assms(1) en op [unfolded c1]] by (simp add: c1)
  moreover have "take (cn_taken ?c1) (completions (cn_transport ?c1)) = take (cn_taken c) (completions ?b) @ []"
    using assms(1) taken_prefix [of "cn_taken c" ?b] by (simp add: c1 cn_ok_def completions_completed)
  ultimately show ?thesis using waiting_moves [of ?c1 c "[]" "[]"] by simp
qed

lemma waiting_step:
  assumes "cn_ok c" and "cn_roomy c e" and "\<not> bt_closed (cn_transport (cn_step env c e))"
  shows "waiting_bytes c @ arrived_bytes [e] = step_bytes c e @ waiting_bytes (cn_step env c e)"
  using assms waiting_handler waiting_arrival waiting_session
  by (cases e) (auto simp: arrived_bytes_def step_bytes_def)

lemma waiting_run:
  assumes "cn_ok c" and "run_enabled cn_roomy (cn_step env) c es"
    and "\<not> bt_closed (cn_transport (run_events (cn_step env) c es))"
  shows "waiting_bytes c @ arrived_bytes es =
    fed_bytes env c es @ waiting_bytes (run_events (cn_step env) c es)"
  using assms
proof (induction es arbitrary: c)
  case (Cons e es)
  let ?c1 = "cn_step env c e"
  have en: "cn_roomy c e" "cn_enabled c e" using Cons.prems(2) by (simp_all add: cn_roomy_def)
  have ok: "cn_ok ?c1" by (rule cn_step_ok [OF Cons.prems(1) en(2)])
  have "bt_closed (cn_transport c) \<Longrightarrow> bt_closed (cn_transport (run_events (cn_step env) c es))" for c
    by (induction es arbitrary: c) (simp_all add: step_trace_run closed_stays)
  then have op: "\<not> bt_closed (cn_transport ?c1)" using Cons.prems(3) by auto
  have arrived: "arrived_bytes (e # es) = arrived_bytes [e] @ arrived_bytes es"
    by (simp add: arrived_bytes_def)
  have "waiting_bytes c @ arrived_bytes (e # es) = (waiting_bytes c @ arrived_bytes [e]) @ arrived_bytes es"
    by (simp add: arrived)
  also have "\<dots> = step_bytes c e @ (waiting_bytes ?c1 @ arrived_bytes es)"
    by (simp add: waiting_step [OF Cons.prems(1) en(1) op])
  finally show ?case using Cons.IH [OF ok] Cons.prems by simp
qed (simp add: arrived_bytes_def)

lemma connection_stream:
  assumes "run_enabled cn_roomy (cn_step env) (new_connection (session_with cfg cr svcs)) es"
    and "\<not> bt_closed (cn_transport (run_events (cn_step env) (new_connection (session_with cfg cr svcs)) es))"
  shows "arrived_bytes es = fed_bytes env (new_connection (session_with cfg cr svcs)) es
      @ waiting_bytes (run_events (cn_step env) (new_connection (session_with cfg cr svcs)) es)"
    and "framer_feed new_framer (fed_bytes env (new_connection (session_with cfg cr svcs)) es) =
      (ss_framer (cn_session (run_events (cn_step env) (new_connection (session_with cfg cr svcs)) es)),
       fragments_in (session_inputs env (new_connection (session_with cfg cr svcs)) es))"
    and "cn_session (run_events (cn_step env) (new_connection (session_with cfg cr svcs)) es) =
      run_events (session_input_step env) (session_with cfg cr svcs)
        (session_inputs env (new_connection (session_with cfg cr svcs)) es)"
    and "\<not> (\<exists>i\<in>set (session_inputs env (new_connection (session_with cfg cr svcs)) es). brings_data i)"
proof -
  let ?c0 = "new_connection (session_with cfg cr svcs)"
  have ok: "cn_ok ?c0" by (rule new_connection_ok(1))
  have "waiting_bytes ?c0 = []"
    by (simp add: new_connection_def waiting_bytes_def posted_reads_def completions_def
        bt_step_defs new_buffered_def)
  with waiting_run [OF ok assms] show "arrived_bytes es = fed_bytes env ?c0 es
      @ waiting_bytes (run_events (cn_step env) ?c0 es)" by simp
  have "ss_framer (foldl (\<lambda>s kv. register_service (fst kv) (snd kv) s) s svcs) = ss_framer s"
    for s :: "('a, 'b) session"
    by (induction svcs arbitrary: s) (simp_all add: register_service_def)
  then have "ss_framer (cn_session ?c0) = new_framer"
    by (simp add: new_connection_def session_with_def new_session_def)
  moreover have "cn_session ?c0 = session_with cfg cr svcs" by (simp add: new_connection_def)
  moreover note inputs_run [OF roomy_enabled [OF assms(1)]]
  ultimately show "framer_feed new_framer (fed_bytes env ?c0 es) =
      (ss_framer (cn_session (run_events (cn_step env) ?c0 es)), fragments_in (session_inputs env ?c0 es))"
    "cn_session (run_events (cn_step env) ?c0 es) =
      run_events (session_input_step env) (session_with cfg cr svcs) (session_inputs env ?c0 es)"
    "\<not> (\<exists>i\<in>set (session_inputs env ?c0 es). brings_data i)"
    by simp_all
qed

text \<open>
  C21. What the session makes of the stream is what it makes of the fragments the phone sent. In a
  run in which every chunk finds a reader or room in the queue, and at whose end the transport is
  open, the bytes that arrived are the bytes fed to the session, followed by those that wait; and
  the session, with its state, its crypto, its services and its calls, is the one that is handed the
  fragments of the fed bytes in one piece, every fragment once and in order, between the
  events that bring no data, and never a byte: how the stream was cut into chunks does not matter.
\<close>

theorem connection_parses_the_stream:
  assumes "run_enabled cn_roomy (cn_step env) (new_connection (session_with cfg cr svcs)) es"
  defines "c0 \<equiv> new_connection (session_with cfg cr svcs)"
  defines "c \<equiv> run_events (cn_step env) c0 es"
  assumes "\<not> bt_closed (cn_transport c)"
  shows "arrived_bytes es = fed_bytes env c0 es @ waiting_bytes c
    \<and> framer_feed new_framer (fed_bytes env c0 es) =
        (ss_framer (cn_session c), fragments_in (session_inputs env c0 es))
    \<and> cn_session c =
        run_events (session_input_step env) (session_with cfg cr svcs) (session_inputs env c0 es)
    \<and> \<not> (\<exists>i\<in>set (session_inputs env c0 es). brings_data i)"
  using connection_stream [OF assms(1)] assms(4) by (simp add: c_def c0_def)

text \<open>A run: the version request goes out, and two pieces of a frame arrive; the first one is read.\<close>

definition demo_connection :: "(mock_crypto, service) connection" where
  "demo_connection = new_connection demo_session"

definition demo_pieces :: "cn_event list" where
  "demo_pieces = [CnSession 0 EvStart, CnArrives (Inr [0, 3, 0]), CnArrives (Inr [6]), CnHandler 2]"

lemma demo_start:
  "ss_state (session_step demo_env demo_session (0, EvStart)) = VersionExchange"
  "\<exists>w. new_calls demo_env demo_session (0, EvStart) =
     [TimerCancel, ToObserverState VersionExchange, TimerArm 5000, TransportRead, TransportWrite w]"
  by (simp_all add: new_calls_def session_eval demo_eval)

text \<open>A read of less than a frame is followed by the next read, and nothing else.\<close>

lemma read_part:
  assumes "\<not> is_terminal (ss_state s)" and "snd (framer_feed (ss_framer s) data) = []" and "data \<noteq> []"
  shows "new_calls env s (now, EvRead None data) = [TransportRead]"
  using assms
  by (simp add: new_calls_def session_step_def on_read_complete_def session_feed_def start_read_def
      split_beta Let_def)

lemma demo_part: "framer_feed new_framer [0, 3, 0] = (\<lparr>recv_buffer = [0, 3, 0]\<rparr>, [])"
  by code_simp

lemma demo_pieces_run:
  "run_enabled cn_roomy (cn_step demo_env) demo_connection demo_pieces"
  "run_enabled cn_sound (cn_step demo_env) demo_connection demo_pieces"
  "\<not> bt_closed (cn_transport (run_events (cn_step demo_env) demo_connection demo_pieces))"
  "fed_bytes demo_env demo_connection demo_pieces = [0, 3, 0]"
  "posted_reads (run_events (cn_step demo_env) demo_connection demo_pieces) = [(None, [6])]"
  "rx_queue (cn_transport (run_events (cn_step demo_env) demo_connection demo_pieces)) = []"
proof -
  obtain w where w: "new_calls demo_env demo_session (0, EvStart) =
      [TimerCancel, ToObserverState VersionExchange, TimerArm 5000, TransportRead, TransportWrite w]"
    using demo_start(2) by blast
  have "ss_framer demo_session = new_framer"
    by (simp add: demo_session_def session_with_def new_session_def register_service_def)
  then have fr: "ss_framer (session_step demo_env demo_session (0, EvStart)) = new_framer"
    by (simp add: step_framer)
  have read: "new_calls demo_env (session_step demo_env demo_session (0, EvStart)) (2, EvRead None [0, 3, 0]) =
      [TransportRead]"
    by (rule read_part) (simp_all add: demo_start(1) is_terminal_def fr demo_part)
  note eval = demo_connection_def demo_pieces_def new_connection_def bt_step_defs new_buffered_def
    cn_step_def cn_enabled_def cn_roomy_def posted_reads_def completions_def kReadBufferSize_def
    reads_issued_def w read is_read_def session_enabled_def demo_session_def [symmetric] step_bytes_def
    rx_push_def kMaxQueuedReads_def
  have idle: "ss_state demo_session = Idle"
    by (simp add: demo_session_def session_with_def new_session_def register_service_def)
  show "run_enabled cn_roomy (cn_step demo_env) demo_connection demo_pieces"
    "run_enabled cn_sound (cn_step demo_env) demo_connection demo_pieces"
    by (simp_all add: eval idle cn_sound_def)
  show "\<not> bt_closed (cn_transport (run_events (cn_step demo_env) demo_connection demo_pieces))"
    "fed_bytes demo_env demo_connection demo_pieces = [0, 3, 0]"
    "posted_reads (run_events (cn_step demo_env) demo_connection demo_pieces) = [(None, [6])]"
    "rx_queue (cn_transport (run_events (cn_step demo_env) demo_connection demo_pieces)) = []"
    by (simp_all add: eval)
qed

theorem connection_parses_the_stream_witness:
  "framer_feed new_framer [0, 3, 0] =
     (ss_framer (cn_session (run_events (cn_step demo_env) demo_connection demo_pieces)),
      fragments_in (session_inputs demo_env demo_connection demo_pieces))
   \<and> cn_session (run_events (cn_step demo_env) demo_connection demo_pieces) =
      run_events (session_input_step demo_env) demo_session (session_inputs demo_env demo_connection demo_pieces)"
  using connection_parses_the_stream
    [OF demo_pieces_run(1) [unfolded demo_connection_def demo_session_def]
        demo_pieces_run(3) [unfolded demo_connection_def demo_session_def]]
  by (simp add: demo_pieces_run(4) flip: demo_connection_def demo_session_def)

theorem connection_never_stalls_witness:
  "length (posted_reads (run_events (cn_step demo_env) demo_connection demo_pieces))
    + length (parked (cn_transport (run_events (cn_step demo_env) demo_connection demo_pieces))) = 1"
proof -
  have "CnSession 0 EvStart \<in> set demo_pieces" by (simp add: demo_pieces_def)
  from connection_never_stalls
    [OF demo_pieces_run(2) [unfolded demo_connection_def demo_session_def] this
        demo_pieces_run(3) [unfolded demo_connection_def demo_session_def]]
  show ?thesis by (simp flip: demo_connection_def demo_session_def)
qed

text \<open>
  The session does write to a transport it has closed, against the comment in
  \<open>ITransport.hpp\<close>: a frame that still waits is handed over when the write before it completes.
\<close>

lemma session_writes_after_close:
  "written (dropWhile (\<lambda>c. c \<noteq> TransportClose) (ss_log (run_events (session_step demo_env) demo_session
     [(0, EvStart), (1, EvSend 3 32772 [8, 0]), (5000, EvTimeout), (5001, EvWrite None)]))) \<noteq> []"
  by (simp add: session_eval demo_eval)

end
