(* ===== verification/Threads.thy ===== *)
theory Threads
  imports AA_Prelude "HOL-Library.Multiset" "HOL-Library.Sublist"
begin

text \<open>
  What the two native transports of \<open>impl/android/transport\<close> share. Both run a read thread and
  a write thread next to the caller. A thread is a program counter; an event is one atomic
  step of one thread, a system call that returns, or a call of the transport's interface, and
  a step function gives \<open>None\<close> for an event that is not possible. \<open>reach\<close> relates a
  state to the sequences of events that lead to it.

  \<^item> Waiting on a condition variable takes three steps: the predicate is evaluated with the
    mutex held (\<open>Checking\<close>), found false (\<open>Deciding\<close>, the mutex is still held), and the thread
    sleeps (\<open>Asleep\<close>, the mutex is free). A notification wakes a thread that sleeps and is
    lost on a thread that does not yet. Threads may also wake up spuriously.
  \<^item> \<open>handler_accounting\<close> is the contract of a transport towards the completion handlers
    it is given.
\<close>

section \<open>Runs\<close>

inductive reach ::
    "'s \<Rightarrow> ('s \<Rightarrow> 'e \<Rightarrow> bool) \<Rightarrow> ('s \<Rightarrow> 'e \<Rightarrow> 's option) \<Rightarrow> 'e list \<Rightarrow> 's \<Rightarrow> bool"
  for init ok step where
  reach_start: "reach init ok step [] init"
| reach_step: "reach init ok step es s \<Longrightarrow> ok s e \<Longrightarrow> step s e = Some s' \<Longrightarrow>
    reach init ok step (es @ [e]) s'"

primrec run_option ::
    "('s \<Rightarrow> 'e \<Rightarrow> bool) \<Rightarrow> ('s \<Rightarrow> 'e \<Rightarrow> 's option) \<Rightarrow> 's \<Rightarrow> 'e list \<Rightarrow> 's option" where
  "run_option ok step s [] = Some s"
| "run_option ok step s (e # es) =
     (if ok s e then (case step s e of None \<Rightarrow> None | Some s1 \<Rightarrow> run_option ok step s1 es) else None)"

lemma reach_run:
  "reach init ok step es s \<Longrightarrow> run_option ok step s fs = Some t \<Longrightarrow> reach init ok step (es @ fs) t"
proof (induction fs arbitrary: es s)
  case (Cons e fs)
  then obtain s1 where "ok s e" "step s e = Some s1" "run_option ok step s1 fs = Some t"
    by (auto split: if_splits option.splits)
  with Cons.IH [OF reach_step [OF Cons.prems(1)]] show ?case by fastforce
qed simp

lemma run_reach: "run_option ok step init es = Some s \<Longrightarrow> reach init ok step es s"
  using reach_run [OF reach_start, of ok step init es s] by simp

lemma reach_keeps:
  assumes "reach init ok step es s" and "P init"
    and "\<And>s e s'. P s \<Longrightarrow> ok s e \<Longrightarrow> step s e = Some s' \<Longrightarrow> P s'"
  shows "P s"
  using assms(1) by (induction rule: reach.induct) (auto intro: assms(2,3))

lemma run_keeps:
  assumes "run_option ok step s es = Some t" and "P s"
    and "\<And>s e s'. P s \<Longrightarrow> ok s e \<Longrightarrow> step s e = Some s' \<Longrightarrow> P s'"
  shows "P t"
  using assms(1,2) by (induction es arbitrary: s) (auto split: if_splits option.splits intro: assms(3))

section \<open>Program counters\<close>

text \<open>\<open>Working\<close>: past the wait, holding what the loop body has moved out.\<close>

datatype 'w thread = Top | Checking | Deciding | Asleep | Working 'w | Exited

definition notify :: "'w thread \<Rightarrow> 'w thread" where
  "notify t = (case t of Asleep \<Rightarrow> Checking | _ \<Rightarrow> t)"

lemma notify_simps [simp]:
  "notify t = Working w \<longleftrightarrow> t = Working w" "notify t = Exited \<longleftrightarrow> t = Exited"
  "notify t = Deciding \<longleftrightarrow> t = Deciding"
  by (cases t; auto simp: notify_def)+

lemma notify_awake [simp]: "t \<noteq> Asleep \<Longrightarrow> notify t = t"
  by (cases t) (simp_all add: notify_def)

text \<open>The thread inside \<open>close\<close>.\<close>

datatype closer = CloserIdle | CloseFd | NotifyThreads | JoinRead | JoinWrite | FirePending

datatype fate = Alive | Destroyed | Terminated

section \<open>Completions\<close>

datatype token = ReadToken nat | WriteToken nat

datatype transport_error = OperationAborted | EndOfFile | IoError | Errno int

text \<open>What was posted to the executor: a handler, an error, and the bytes read or the count.\<close>

datatype completion =
    ReadDone nat "transport_error option" bytes
  | WriteDone nat "transport_error option" nat

primrec token_of :: "completion \<Rightarrow> token" where
  "token_of (ReadDone h ec data) = ReadToken h"
| "token_of (WriteDone h ec n) = WriteToken h"

definition tokens :: "completion list \<Rightarrow> token multiset" where
  "tokens cs = mset (map token_of cs)"

lemma tokens_simps [simp]:
  "tokens [] = {#}" "tokens (xs @ ys) = tokens xs + tokens ys"
  "tokens (c # cs) = add_mset (token_of c) (tokens cs)"
  by (simp_all add: tokens_def)

definition read_held :: "(nat \<times> 'a) option \<Rightarrow> token multiset" where
  "read_held p = (case p of None \<Rightarrow> {#} | Some (h, x) \<Rightarrow> {#ReadToken h#})"

definition write_held :: "(nat \<times> 'a) option \<Rightarrow> token multiset" where
  "write_held p = (case p of None \<Rightarrow> {#} | Some (h, x) \<Rightarrow> {#WriteToken h#})"

lemma held_simps [simp]:
  "read_held None = {#}" "read_held (Some (h, x)) = {#ReadToken h#}"
  "write_held None = {#}" "write_held (Some (h, y)) = {#WriteToken h#}"
  by (simp_all add: read_held_def write_held_def)

definition all_issued :: "('e \<Rightarrow> token multiset) \<Rightarrow> 'e list \<Rightarrow> token multiset" where
  "all_issued issued es = \<Sum>\<^sub># (mset (map issued es))"

lemma all_issued_simps [simp]:
  "all_issued issued [] = {#}" "all_issued issued (es @ fs) = all_issued issued es + all_issued issued fs"
  "all_issued issued (e # es) = issued e + all_issued issued es"
  by (simp_all add: all_issued_def)

primrec thread_holds :: "('w \<Rightarrow> token multiset) \<Rightarrow> 'w thread \<Rightarrow> token multiset" where
  "thread_holds f Top = {#}"
| "thread_holds f Checking = {#}"
| "thread_holds f Deciding = {#}"
| "thread_holds f Asleep = {#}"
| "thread_holds f (Working w) = f w"
| "thread_holds f Exited = {#}"

lemma thread_holds_notify [simp]: "thread_holds f (notify t) = thread_holds f t"
  by (cases t) (simp_all add: notify_def)

locale handler_accounting =
  fixes init :: 's
    and ok :: "'s \<Rightarrow> 'e \<Rightarrow> bool"
    and step :: "'s \<Rightarrow> 'e \<Rightarrow> 's option"
    and completed :: "'s \<Rightarrow> token multiset"
    and held :: "'s \<Rightarrow> token multiset"
    and lost :: "'s \<Rightarrow> 'e \<Rightarrow> token multiset"
    and issued :: "'e \<Rightarrow> token multiset"
  assumes fresh: "completed init = {#}" "held init = {#}"
    and balance: "ok s e \<Longrightarrow> step s e = Some s' \<Longrightarrow>
      completed s' + held s' + lost s e = completed s + held s + issued e"
begin

lemma at_most_once:
  "reach init ok step es s \<Longrightarrow> completed s + held s \<subseteq># all_issued issued es"
proof (induction rule: reach.induct)
  case reach_start
  then show ?case by (simp add: fresh)
next
  case (reach_step es s e s')
  have "completed s' + held s' \<subseteq># completed s + held s + issued e"
    using balance [OF reach_step(2,3)] by (metis mset_subset_eq_add_left)
  also have "\<dots> \<subseteq># all_issued issued es + issued e"
    using reach_step.IH by (simp add: subset_mset.add_right_mono)
  finally show ?case by (simp add: add.commute)
qed

lemma exactly_once:
  assumes "reach init ok step es s"
    and "\<And>fs s e. reach init ok step fs s \<Longrightarrow> ok s e \<Longrightarrow> lost s e = {#}"
  shows "completed s + held s = all_issued issued es"
  using assms(1)
proof (induction rule: reach.induct)
  case reach_start
  then show ?case by (simp add: fresh)
next
  case (reach_step es s e s')
  then show ?case
    using balance [OF reach_step(2,3)] assms(2) [OF reach_step(1,2)] by simp
qed

end

end
