(* ===== verification/Stack.thy ===== *)
theory Stack
  imports Connection Threads
begin

text \<open>
  The whole of a connection to a phone: a session, its \<open>BufferedTransport\<close> and a native
  transport below it, as \<open>AndroidTransportFactory::create\<close> stacks them
  (\<open>impl/android/main/main.cpp\<close>). \<open>Connection\<close> leaves the underlying transport open; here its
  completions are those that the native transport has posted, and the calls made to it are
  calls of the native transport.

  One io thread makes the calls and runs the posted handlers; the two threads of the
  transport interleave with it at every step, also between two calls of one handler.

  The native transport is a parameter, the record \<open>underlying\<close> of its step function and of
  what can be seen of its state; the locales \<open>underlying_transport\<close> and \<open>heard_transport\<close> say what
  \<open>BufferedTransport\<close> relies on. \<open>Tcp_Stack\<close> and \<open>Usb_Stack\<close> interpret them.
\<close>

section \<open>What a native transport offers\<close>

text \<open>
  The calls that \<open>BufferedTransport\<close> makes are events of it, by \<open>ul_request\<close>; \<open>ul_thread\<close> are the
  events of its own threads. \<open>ul_posted\<close> are the completions it has posted, \<open>ul_held\<close> the
  handlers it still has, \<open>ul_free\<close> tells that no call blocks the io thread. \<open>ul_reporting\<close>: the
  read thread is about to report an error; \<open>ul_failing\<close>: so is the write thread.
\<close>

record ('e, 't) underlying =
  ul_new :: 't
  ul_client :: "'t \<Rightarrow> 'e \<Rightarrow> bool"
  ul_step :: "'t \<Rightarrow> 'e \<Rightarrow> 't option"
  ul_request :: "bt_call \<Rightarrow> 'e list"
  ul_thread :: "'e \<Rightarrow> bool"
  ul_issued :: "'e \<Rightarrow> token multiset"
  ul_posted :: "'t \<Rightarrow> completion list"
  ul_held :: "'t \<Rightarrow> token multiset"
  ul_free :: "'t \<Rightarrow> bool"
  ul_open :: "'t \<Rightarrow> bool"
  ul_reporting :: "'t \<Rightarrow> bool"
  ul_failing :: "'t \<Rightarrow> bool"

abbreviation ul_reach :: "('e, 't) underlying \<Rightarrow> 'e list \<Rightarrow> 't \<Rightarrow> bool" where
  "ul_reach ul \<equiv> reach (ul_new ul) (ul_client ul) (ul_step ul)"

text \<open>The buffer of an underlying read; the handlers need no distinction, as in \<open>Connection\<close>.\<close>

definition kUnderlyingReadSize :: nat where "kUnderlyingReadSize = 16384"

section \<open>State and steps\<close>

text \<open>
  \<open>st_called\<close> counts the calls that have been made to the native transport, \<open>st_run\<close> the
  completions it has posted that have run.
\<close>

record ('c, 'v, 't) stack =
  st_conn :: "('c, 'v) connection"
  st_native :: 't
  st_called :: nat
  st_run :: nat

definition requested :: "('e, 't) underlying \<Rightarrow> buffered \<Rightarrow> 'e list" where
  "requested ul b = concat (map (ul_request ul) (bt_log b))"

definition pending_calls :: "('e, 't) underlying \<Rightarrow> ('c, 'v, 't) stack \<Rightarrow> 'e list" where
  "pending_calls ul st = drop (st_called st) (requested ul (cn_transport (st_conn st)))"

definition unrun :: "('e, 't) underlying \<Rightarrow> ('c, 'v, 't) stack \<Rightarrow> completion list" where
  "unrun ul st = drop (st_run st) (ul_posted ul (st_native st))"

primrec error_of :: "transport_error \<Rightarrow> error_code" where
  "error_of OperationAborted = ErrAborted"
| "error_of EndOfFile = ErrSystem 2"
| "error_of IoError = ErrSystem 5"
| "error_of (Errno n) = ErrSystem n"

lemma error_of_aborted [simp]: "error_of err = ErrAborted \<longleftrightarrow> err = OperationAborted"
  by (cases err) auto

text \<open>
  A completed read goes to the handler of \<open>issue_underlying_read\<close>, a completed write to the
  handler that \<open>BufferedTransport::async_write\<close> has passed through.
\<close>

primrec completion_event :: "int \<Rightarrow> completion \<Rightarrow> cn_event" where
  "completion_event now (ReadDone h ec data) =
     CnArrives (case ec of None \<Rightarrow> Inr data | Some err \<Rightarrow> Inl (error_of err))"
| "completion_event now (WriteDone h ec n) = CnSession now (EvWrite (map_option error_of ec))"

definition new_stack :: "('e, 't) underlying \<Rightarrow> ('c, 'v) session \<Rightarrow> ('c, 'v, 't) stack" where
  "new_stack ul s = \<lparr>st_conn = new_connection s, st_native = ul_new ul, st_called = 0, st_run = 0\<rparr>"

text \<open>
  The steps: a thread of the transport moves; the io thread makes the next call, runs the
  next posted completion, or handles another event of the connection. It is free for the last
  two when all calls have been made and none of them blocks it.
\<close>

datatype 'e stack_event =
    StThread 'e
  | StCall
  | StPosted int
  | StIo cn_event

definition io_free :: "('e, 't) underlying \<Rightarrow> ('c, 'v, 't) stack \<Rightarrow> bool" where
  "io_free ul st \<longleftrightarrow> pending_calls ul st = [] \<and> ul_free ul (st_native st)"

definition own_event :: "cn_event \<Rightarrow> bool" where
  "own_event e \<longleftrightarrow>
     (case e of
        CnHandler now \<Rightarrow> True
      | CnArrives res \<Rightarrow> False
      | CnSession now ev \<Rightarrow> (case ev of EvWrite ec \<Rightarrow> False | _ \<Rightarrow> True))"

definition stack_step ::
    "('e, 't) underlying \<Rightarrow> ('c, 'v) session_env \<Rightarrow> ('c, 'v, 't) stack \<Rightarrow> 'e stack_event \<Rightarrow>
     ('c, 'v, 't) stack option" where
  "stack_step ul env st e =
     (case e of
        StThread te \<Rightarrow>
          (if ul_thread ul te
           then map_option (\<lambda>t. st\<lparr>st_native := t\<rparr>) (ul_step ul (st_native st) te) else None)
      | StCall \<Rightarrow>
          (case pending_calls ul st of
             [] \<Rightarrow> None
           | te # _ \<Rightarrow>
               map_option (\<lambda>t. st\<lparr>st_native := t, st_called := Suc (st_called st)\<rparr>)
                 (ul_step ul (st_native st) te))
      | StPosted now \<Rightarrow>
          (case unrun ul st of
             [] \<Rightarrow> None
           | c # _ \<Rightarrow>
               if io_free ul st
               then Some (st\<lparr>st_conn := cn_step env (st_conn st) (completion_event now c),
                             st_run := Suc (st_run st)\<rparr>)
               else None)
      | StIo ce \<Rightarrow>
          if io_free ul st \<and> own_event ce \<and> cn_enabled (st_conn st) ce
          then Some (st\<lparr>st_conn := cn_step env (st_conn st) ce\<rparr>) else None)"

abbreviation stack_reach ::
    "('e, 't) underlying \<Rightarrow> ('c, 'v) session_env \<Rightarrow> ('c, 'v) session \<Rightarrow> 'e stack_event list \<Rightarrow>
     ('c, 'v, 't) stack \<Rightarrow> bool" where
  "stack_reach ul env s \<equiv> reach (new_stack ul s) (\<lambda>_ _. True) (stack_step ul env)"

lemma stack_step_cases:
  assumes "stack_step ul env st e = Some st1"
  obtains te t1 where "e = StThread te" "ul_thread ul te" "ul_step ul (st_native st) te = Some t1"
      "st1 = st\<lparr>st_native := t1\<rparr>"
  | te rest t1 where "e = StCall" "pending_calls ul st = te # rest" "ul_step ul (st_native st) te = Some t1"
      "st1 = st\<lparr>st_native := t1, st_called := Suc (st_called st)\<rparr>"
  | now c rest where "e = StPosted now" "unrun ul st = c # rest" "io_free ul st"
      "st1 = st\<lparr>st_conn := cn_step env (st_conn st) (completion_event now c), st_run := Suc (st_run st)\<rparr>"
  | ce where "e = StIo ce" "own_event ce" "cn_enabled (st_conn st) ce" "io_free ul st"
      "st1 = st\<lparr>st_conn := cn_step env (st_conn st) ce\<rparr>"
  using assms that
  by (cases e) (auto simp: stack_step_def split: if_splits list.splits)

section \<open>Counting calls and completions\<close>

definition is_read_token :: "token \<Rightarrow> bool" where
  "is_read_token k = (case k of ReadToken h \<Rightarrow> True | WriteToken h \<Rightarrow> False)"

lemma is_read_token_simps [simp]: "is_read_token (ReadToken h)" "\<not> is_read_token (WriteToken h)"
  by (simp_all add: is_read_token_def)

definition reads_in :: "token multiset \<Rightarrow> nat" where
  "reads_in m = size (filter_mset is_read_token m)"

definition writes_in :: "token multiset \<Rightarrow> nat" where
  "writes_in m = size (filter_mset (\<lambda>k. \<not> is_read_token k) m)"

lemma tokens_in_simps [simp]:
  "reads_in {#} = 0" "writes_in {#} = 0"
  "reads_in (m + m') = reads_in m + reads_in m'" "writes_in (m + m') = writes_in m + writes_in m'"
  "reads_in (add_mset k m) = (if is_read_token k then 1 else 0) + reads_in m"
  "writes_in (add_mset k m) = (if is_read_token k then 0 else 1) + writes_in m"
  by (simp_all add: reads_in_def writes_in_def)

lemma tokens_in_mono: "m \<subseteq># m' \<Longrightarrow> reads_in m \<le> reads_in m'" "m \<subseteq># m' \<Longrightarrow> writes_in m \<le> writes_in m'"
  unfolding reads_in_def writes_in_def by (intro size_mset_mono multiset_filter_mono; assumption)+

definition read_requests :: "('e, 't) underlying \<Rightarrow> 'e list \<Rightarrow> nat" where
  "read_requests ul es = reads_in (all_issued (ul_issued ul) es)"

definition write_requests :: "('e, 't) underlying \<Rightarrow> 'e list \<Rightarrow> nat" where
  "write_requests ul es = writes_in (all_issued (ul_issued ul) es)"

definition read_posts :: "completion list \<Rightarrow> nat" where
  "read_posts cs = reads_in (tokens cs)"

definition write_posts :: "completion list \<Rightarrow> nat" where
  "write_posts cs = writes_in (tokens cs)"

lemmas count_defs = read_requests_def write_requests_def read_posts_def write_posts_def

lemma count_simps [simp]:
  "read_requests ul [] = 0" "write_requests ul [] = 0" "read_posts [] = 0" "write_posts [] = 0"
  "read_requests ul (e # es) = reads_in (ul_issued ul e) + read_requests ul es"
  "write_requests ul (e # es) = writes_in (ul_issued ul e) + write_requests ul es"
  "read_posts (c # cs) = (case c of ReadDone h ec data \<Rightarrow> 1 | _ \<Rightarrow> 0) + read_posts cs"
  "write_posts (c # cs) = (case c of WriteDone h ec n \<Rightarrow> 1 | _ \<Rightarrow> 0) + write_posts cs"
  "read_requests ul (es @ fs) = read_requests ul es + read_requests ul fs"
  "write_requests ul (es @ fs) = write_requests ul es + write_requests ul fs"
  "read_posts (cs @ ds) = read_posts cs + read_posts ds"
  "write_posts (cs @ ds) = write_posts cs + write_posts ds"
  by (simp_all add: count_defs split: completion.split)

text \<open>A count of a part of a list is at most the count of the list.\<close>

lemma count_take:
  "read_requests ul (take n es) \<le> read_requests ul es" "write_requests ul (take n es) \<le> write_requests ul es"
  "read_posts (take n cs) \<le> read_posts cs" "write_posts (take n cs) \<le> write_posts cs"
  using append_take_drop_id [of n es] append_take_drop_id [of n cs] count_simps(9-12) le_add1
  by metis+

definition calls_of :: "('e, 't) underlying \<Rightarrow> 'e list \<Rightarrow> 'e list" where
  "calls_of ul es = filter (\<lambda>e. \<not> ul_thread ul e) es"

section \<open>What the connection asks for\<close>

lemma bt_log_step: "\<exists>new. bt_log (bt_step b e) = bt_log b @ new"
  by (cases e) (auto simp: bt_step_defs split: list.split option.split sum.split)

lemma bt_log_run: "\<exists>new. bt_log (run_events bt_step b es) = bt_log b @ new"
proof (induction es arbitrary: b)
  case (Cons e es)
  show ?case using bt_log_step [of b e] Cons.IH [of "bt_step b e"] by (metis append.assoc run_events.simps(2))
qed simp

lemma requested_grows:
  "\<exists>new. requested ul (cn_transport (cn_step env c e)) = requested ul (cn_transport c) @ new"
  using bt_log_run [of "cn_transport c" "step_trace env c e"]
  by (auto simp: step_trace_run requested_def)

text \<open>A step of the connection completes at most one write of the session.\<close>

lemma cn_step_balanced:
  assumes "writes_balanced n (cn_session c)" and "cn_enabled c e"
  shows "writes_balanced (n + (case e of CnSession now ev \<Rightarrow> if ev = EvWrite None then 1 else 0 | _ \<Rightarrow> 0))
    (cn_session (cn_step env c e))"
proof (cases e)
  case (CnHandler now)
  with assms step_balanced [of n "cn_session c" "(now, EvRead ec data)" env for ec data] show ?thesis
    by (auto simp: cn_step_def cn_enabled_def session_enabled_def split: list.split)
next
  case (CnArrives res)
  with assms show ?thesis by (simp add: cn_step_def)
next
  case (CnSession now ev)
  with assms step_balanced [of n "cn_session c" "(now, ev)" env] show ?thesis
    by (simp add: cn_step_def cn_enabled_def)
qed

section \<open>Each side keeps the other's contract\<close>

text \<open>
  What holds in every reachable state: the connection has made a run that its contract
  allows, and so has the native transport; its calls are those the connection asked for, in
  order.
\<close>

definition stack_ok ::
    "('e, 't) underlying \<Rightarrow> ('c, 'v) session_env \<Rightarrow> ('c, 'v) session \<Rightarrow> ('c, 'v, 't) stack \<Rightarrow> bool" where
  "stack_ok ul env s st \<longleftrightarrow>
     (\<exists>ces. run_enabled cn_enabled (cn_step env) (new_connection s) ces
        \<and> st_conn st = run_events (cn_step env) (new_connection s) ces)
     \<and> (\<exists>tes. ul_reach ul tes (st_native st)
        \<and> calls_of ul tes = take (st_called st) (requested ul (cn_transport (st_conn st))))
     \<and> cn_ok (st_conn st)
     \<and> passed_on (cn_transport (st_conn st)) = written (ss_log (cn_session (st_conn st)))
     \<and> (\<exists>n\<le>write_posts (take (st_run st) (ul_posted ul (st_native st))). writes_balanced n (cn_session (st_conn st)))
     \<and> cn_arrived (st_conn st) = read_posts (take (st_run st) (ul_posted ul (st_native st)))
     \<and> st_called st \<le> length (requested ul (cn_transport (st_conn st)))
     \<and> st_run st \<le> length (ul_posted ul (st_native st))"

text \<open>What the io thread is about to run has been posted, and nothing of it has run.\<close>

lemma unrun_next:
  assumes "unrun ul st = c # rest"
  shows "st_run st < length (ul_posted ul (st_native st))" and "c \<in> set (ul_posted ul (st_native st))"
    and "take (Suc (st_run st)) (ul_posted ul (st_native st)) = take (st_run st) (ul_posted ul (st_native st)) @ [c]"
proof -
  have d: "drop (st_run st) (ul_posted ul (st_native st)) = c # rest" using assms by (simp add: unrun_def)
  then show len: "st_run st < length (ul_posted ul (st_native st))"
    by (metis drop_eq_Nil list.distinct(1) not_less)
  from d len show "take (Suc (st_run st)) (ul_posted ul (st_native st)) = take (st_run st) (ul_posted ul (st_native st)) @ [c]"
    by (simp add: take_Suc_conv_app_nth flip: hd_drop_conv_nth)
  show "c \<in> set (ul_posted ul (st_native st))" using d by (metis in_set_dropD list.set_intros(1))
qed

lemma connection_moves:
  assumes "stack_ok ul env s st" and "cn_enabled (st_conn st) e"
    and "st1 = st\<lparr>st_conn := cn_step env (st_conn st) e, st_run := m\<rparr>" and "m \<le> length (ul_posted ul (st_native st))"
    and "cn_arrived (st_conn st1) = read_posts (take m (ul_posted ul (st_native st)))"
    and "write_posts (take (st_run st) (ul_posted ul (st_native st)))
        + (case e of CnSession now ev \<Rightarrow> if ev = EvWrite None then 1 else 0 | _ \<Rightarrow> 0)
      \<le> write_posts (take m (ul_posted ul (st_native st)))"
  shows "stack_ok ul env s st1"
proof -
  let ?c = "st_conn st" and ?c1 = "cn_step env (st_conn st) e"
  note ok = assms(1) [unfolded stack_ok_def]
  obtain ces where ces: "run_enabled cn_enabled (cn_step env) (new_connection s) ces"
    "?c = run_events (cn_step env) (new_connection s) ces"
    using ok by blast
  have "\<exists>ces. run_enabled cn_enabled (cn_step env) (new_connection s) ces
      \<and> ?c1 = run_events (cn_step env) (new_connection s) ces"
    by (rule exI [of _ "ces @ [e]"]) (use ces assms(2) in simp)
  moreover obtain new where new: "requested ul (cn_transport ?c1) = requested ul (cn_transport ?c) @ new"
    using requested_grows by blast
  have "take (st_called st) (requested ul (cn_transport ?c1)) = take (st_called st) (requested ul (cn_transport ?c))"
    "st_called st \<le> length (requested ul (cn_transport ?c1))"
    using ok by (simp_all add: new)
  moreover obtain n where n: "n \<le> write_posts (take (st_run st) (ul_posted ul (st_native st)))"
    "writes_balanced n (cn_session ?c)"
    using ok by blast
  have "\<exists>n\<le>write_posts (take m (ul_posted ul (st_native st))). writes_balanced n (cn_session ?c1)"
    by (rule exI, rule conjI [OF _ cn_step_balanced [OF n(2) assms(2)]]) (use n(1) assms(6) in linarith)
  moreover have "passed_on (cn_transport ?c1) = written (ss_log (cn_session ?c1))"
    using ok passed_on_cn_step by blast
  moreover have "cn_ok ?c1" using ok assms(2) cn_step_ok by blast
  moreover have "cn_arrived ?c1 = read_posts (take m (ul_posted ul (st_native st)))" using assms(3,5) by simp
  ultimately show ?thesis
    using ok assms(4) unfolding stack_ok_def assms(3) by simp
qed

text \<open>
  What \<open>BufferedTransport\<close> relies on. The transport never completes more handlers than it was
  given; its threads need no permission; a call is allowed when nothing of its kind is
  outstanding.
\<close>

locale underlying_transport =
  fixes ul :: "('e, 't) underlying"
  assumes at_most_once:
      "ul_reach ul es t \<Longrightarrow> tokens (ul_posted ul t) + ul_held ul t \<subseteq># all_issued (ul_issued ul) es"
    and posted_new: "ul_posted ul (ul_new ul) = []"
    and posted_grows: "ul_step ul t e = Some t1 \<Longrightarrow> \<exists>new. ul_posted ul t1 = ul_posted ul t @ new"
    and thread_client: "ul_thread ul e \<Longrightarrow> ul_client ul t e"
    and thread_issues: "ul_thread ul e \<Longrightarrow> ul_issued ul e = {#}"
    and request_calls: "e \<in> set (ul_request ul c) \<Longrightarrow> \<not> ul_thread ul e"
    and request_issues: "all_issued (ul_issued ul) (ul_request ul c) =
      (case c of UnderlyingRead \<Rightarrow> {#ReadToken 0#} | UnderlyingWrite h data \<Rightarrow> {#WriteToken h#} | _ \<Rightarrow> {#})"
    and request_client: "e \<in> set (ul_request ul c) \<Longrightarrow>
      (0 < reads_in (ul_issued ul e) \<Longrightarrow> reads_in (ul_held ul t) = 0) \<Longrightarrow>
      (0 < writes_in (ul_issued ul e) \<Longrightarrow> writes_in (ul_held ul t) = 0) \<Longrightarrow> ul_client ul t e"
begin

lemma calls_requests:
  "read_requests ul (calls_of ul es) = read_requests ul es" "write_requests ul (calls_of ul es) = write_requests ul es"
  by (induction es) (auto simp: calls_of_def thread_issues)

text \<open>Completed and held, there are never more handlers than were passed in.\<close>

lemma at_most_requested:
  assumes "ul_reach ul es t"
  shows "read_posts (ul_posted ul t) + reads_in (ul_held ul t) \<le> read_requests ul (calls_of ul es)"
    and "write_posts (ul_posted ul t) + writes_in (ul_held ul t) \<le> write_requests ul (calls_of ul es)"
  using tokens_in_mono [OF at_most_once [OF assms]]
  by (simp_all add: read_posts_def write_posts_def calls_requests)
     (simp_all add: read_requests_def write_requests_def)

lemma requested_counts:
  "read_requests ul (requested ul b) = reads_issued b"
  "write_requests ul (requested ul b) = length (passed_on b)"
proof -
  have "read_requests ul (concat (map (ul_request ul) cs)) = length (filter (\<lambda>c. c = UnderlyingRead) cs)
    \<and> write_requests ul (concat (map (ul_request ul) cs)) =
        length (concat (map (\<lambda>c. case c of UnderlyingWrite h data \<Rightarrow> [data] | _ \<Rightarrow> []) cs))" for cs
  proof (induction cs)
    case (Cons c cs)
    have "read_requests ul (ul_request ul c) = (if c = UnderlyingRead then 1 else 0)"
      "write_requests ul (ul_request ul c) = (case c of UnderlyingWrite h data \<Rightarrow> 1 | _ \<Rightarrow> 0)"
      by (cases c; simp add: read_requests_def write_requests_def request_issues)+
    with Cons show ?case by (simp split: bt_call.split)
  qed simp
  then show "read_requests ul (requested ul b) = reads_issued b"
    "write_requests ul (requested ul b) = length (passed_on b)"
    by (simp_all add: requested_def reads_issued_def passed_on_def)
qed

lemma pending_next:
  assumes "pending_calls ul st = te # rest"
  shows "st_called st < length (requested ul (cn_transport (st_conn st)))"
    and "take (Suc (st_called st)) (requested ul (cn_transport (st_conn st))) =
      take (st_called st) (requested ul (cn_transport (st_conn st))) @ [te]"
    and "\<exists>c\<in>set (bt_log (cn_transport (st_conn st))). te \<in> set (ul_request ul c)"
proof -
  let ?r = "requested ul (cn_transport (st_conn st))"
  have d: "drop (st_called st) ?r = te # rest" using assms by (simp add: pending_calls_def)
  then show len: "st_called st < length ?r" by (metis drop_eq_Nil list.distinct(1) not_less)
  with d have te: "?r ! st_called st = te" by (metis hd_drop_conv_nth list.sel(1))
  with len show "take (Suc (st_called st)) ?r = take (st_called st) ?r @ [te]"
    by (simp add: take_Suc_conv_app_nth)
  from te len have "te \<in> set ?r" by auto
  then show "\<exists>c\<in>set (bt_log (cn_transport (st_conn st))). te \<in> set (ul_request ul c)"
    by (auto simp: requested_def)
qed

text \<open>The connection calls the transport as its interface asks: one read and one write at a time.\<close>

lemma call_allowed:
  assumes "stack_ok ul env s st" and "pending_calls ul st = te # rest"
  shows "ul_client ul (st_native st) te"
proof -
  let ?r = "requested ul (cn_transport (st_conn st))" and ?t = "st_native st" and ?c = "st_conn st"
  obtain tes where r: "ul_reach ul tes ?t" "calls_of ul tes = take (st_called st) ?r"
    using assms(1) by (auto simp: stack_ok_def)
  note bound = at_most_requested [OF r(1), unfolded r(2)]
  note nx = pending_next [OF assms(2)]
  note posts = count_take(3,4) [where n = "st_run st" and cs = "ul_posted ul ?t"]
  have "reads_in (ul_held ul ?t) = 0" if "0 < reads_in (ul_issued ul te)"
  proof -
    have "Suc (read_requests ul (take (st_called st) ?r)) \<le> reads_issued (cn_transport ?c)"
      using count_take(1) [of ul "Suc (st_called st)" ?r] that by (simp add: nx(2) requested_counts)
    moreover have "reads_issued (cn_transport ?c) \<le> Suc (read_posts (ul_posted ul ?t))"
      using assms(1) posts(1) by (auto simp: stack_ok_def cn_ok_def)
    ultimately show ?thesis using bound(1) by linarith
  qed
  moreover have "writes_in (ul_held ul ?t) = 0" if "0 < writes_in (ul_issued ul te)"
  proof -
    obtain n where n: "n \<le> write_posts (take (st_run st) (ul_posted ul ?t))" "writes_balanced n (cn_session ?c)"
      using assms(1) by (auto simp: stack_ok_def)
    have "Suc (write_requests ul (take (st_called st) ?r)) \<le> length (passed_on (cn_transport ?c))"
      using count_take(2) [of ul "Suc (st_called st)" ?r] that by (simp add: nx(2) requested_counts)
    moreover have "length (passed_on (cn_transport ?c)) \<le> Suc (write_posts (ul_posted ul ?t))"
      using assms(1) n posts(2) by (auto simp: stack_ok_def writes_balanced_def)
    ultimately show ?thesis using bound(2) by linarith
  qed
  moreover obtain c where "te \<in> set (ul_request ul c)" using nx(3) by blast
  ultimately show ?thesis by (metis request_client)
qed

text \<open>A completion is an event that the connection can handle.\<close>

lemma completion_enabled:
  assumes "stack_ok ul env s st" and "unrun ul st = c # rest"
  shows "cn_enabled (st_conn st) (completion_event now c)"
proof -
  let ?r = "requested ul (cn_transport (st_conn st))" and ?t = "st_native st" and ?c = "st_conn st"
  obtain tes where r: "ul_reach ul tes ?t" "calls_of ul tes = take (st_called st) ?r"
    using assms(1) by (auto simp: stack_ok_def)
  note bound = at_most_requested [OF r(1), unfolded r(2)]
  note nx = unrun_next(3) [OF assms(2)]
  show ?thesis
  proof (cases c)
    case (ReadDone h ec data)
    have "Suc (cn_arrived ?c) \<le> read_posts (ul_posted ul ?t)"
      using count_take(3) [of "Suc (st_run st)" "ul_posted ul ?t"] assms(1) ReadDone
      by (simp add: nx stack_ok_def)
    also have "\<dots> \<le> reads_issued (cn_transport ?c)"
      using bound(1) count_take(1) [of ul "st_called st" ?r] by (simp add: requested_counts)
    finally show ?thesis using ReadDone by (simp add: cn_enabled_def)
  next
    case (WriteDone h ec m)
    obtain n where n: "n \<le> write_posts (take (st_run st) (ul_posted ul ?t))" "writes_balanced n (cn_session ?c)"
      using assms(1) by (auto simp: stack_ok_def)
    have "Suc n \<le> write_posts (ul_posted ul ?t)"
      using count_take(4) [of "Suc (st_run st)" "ul_posted ul ?t"] n(1) WriteDone by (simp add: nx)
    also have "\<dots> \<le> length (written (ss_log (cn_session ?c)))"
      using bound(2) count_take(2) [of ul "st_called st" ?r] assms(1)
      by (simp add: requested_counts stack_ok_def)
    finally have "ss_write_in_progress (cn_session ?c)"
      using n(2) by (auto simp: writes_balanced_def split: if_splits)
    with WriteDone show ?thesis by (simp add: cn_enabled_def session_enabled_def is_read_def)
  qed
qed

lemma transport_moves:
  assumes "stack_ok ul env s st" and "ul_step ul (st_native st) te = Some t1" and "ul_client ul (st_native st) te"
    and "st1 = st\<lparr>st_native := t1, st_called := m\<rparr>" and "m \<le> length (requested ul (cn_transport (st_conn st)))"
    and "take m (requested ul (cn_transport (st_conn st))) =
      take (st_called st) (requested ul (cn_transport (st_conn st))) @ calls_of ul [te]"
  shows "stack_ok ul env s st1"
proof -
  note ok = assms(1) [unfolded stack_ok_def]
  obtain tes where r: "ul_reach ul tes (st_native st)"
    "calls_of ul tes = take (st_called st) (requested ul (cn_transport (st_conn st)))"
    using ok by blast
  have "ul_reach ul (tes @ [te]) t1" by (rule reach_step [OF r(1) assms(3,2)])
  moreover have "calls_of ul (tes @ [te]) = take m (requested ul (cn_transport (st_conn st)))"
    using r(2) assms(6) by (simp add: calls_of_def)
  moreover obtain new where "ul_posted ul t1 = ul_posted ul (st_native st) @ new"
    using posted_grows [OF assms(2)] by blast
  ultimately show ?thesis
    using ok assms(4,5) by (auto simp: stack_ok_def)
qed

lemma stack_ok_step:
  assumes "stack_ok ul env s st" and "stack_step ul env st e = Some st1"
  shows "stack_ok ul env s st1"
  using assms(2)
proof (cases rule: stack_step_cases)
  case (1 te t1)
  then have "ul_client ul (st_native st) te" by (simp add: thread_client)
  moreover have "st1 = st\<lparr>st_native := t1, st_called := st_called st\<rparr>" using 1(4) by simp
  ultimately show ?thesis
    by (rule transport_moves [OF assms(1) 1(3)])
       (use 1(2) assms(1) in \<open>auto simp: calls_of_def stack_ok_def\<close>)
next
  case (2 te rest t1)
  note nx = pending_next [OF 2(2)]
  then have "\<not> ul_thread ul te" using request_calls by blast
  with nx show ?thesis
    by (intro transport_moves [OF assms(1) 2(3) call_allowed [OF assms(1) 2(2)] 2(4)])
       (auto simp: calls_of_def)
next
  case (3 now c rest)
  note nx = unrun_next [OF 3(2)]
  show ?thesis
    by (rule connection_moves [OF assms(1) completion_enabled [OF assms(1) 3(2)] 3(4)])
       (use nx assms(1) 3(4) in \<open>auto simp: stack_ok_def cn_step_def split: completion.split\<close>)
next
  case (4 ce)
  have st1: "st1 = st\<lparr>st_conn := cn_step env (st_conn st) ce, st_run := st_run st\<rparr>" using 4(5) by simp
  have own: "cn_arrived (cn_step env (st_conn st) ce) = cn_arrived (st_conn st)"
    "(case ce of CnSession now ev \<Rightarrow> if ev = EvWrite None then 1 else 0 | _ \<Rightarrow> 0) = (0::nat)"
    using 4(2) by (auto simp: own_event_def cn_step_def split: cn_event.splits list.split session_event.splits)
  show ?thesis
    by (rule connection_moves [OF assms(1) 4(3) st1])
       (use assms(1) own st1 in \<open>auto simp: stack_ok_def\<close>)
qed

lemma new_stack_ok: "stack_ok ul env (session_with cfg cr svcs) (new_stack ul (session_with cfg cr svcs))"
proof -
  let ?s = "session_with cfg cr svcs" and ?c = "new_connection (session_with cfg cr svcs)"
  have "cn_ok ?c" by (rule new_connection_ok(1))
  moreover have "passed_on (cn_transport ?c) = written (ss_log (cn_session ?c))"
    using passed_on_run [of env cfg cr svcs "[]"] by simp
  moreover have "writes_balanced 0 (cn_session ?c)"
    by (simp add: new_connection_def writes_balanced_def session_with_ok session_with_log)
  moreover have "run_enabled cn_enabled (cn_step env) ?c [] \<and> ?c = run_events (cn_step env) ?c []" by simp
  ultimately show ?thesis
    using reach_start [of "ul_new ul" "ul_client ul" "ul_step ul"]
    unfolding stack_ok_def new_stack_def
    by (intro conjI exI [of _ "[]"]) (auto simp: calls_of_def posted_new new_connection_def)
qed

lemma stack_reach_ok:
  "stack_reach ul env (session_with cfg cr svcs) es st \<Longrightarrow> stack_ok ul env (session_with cfg cr svcs) st"
  by (erule reach_keeps) (rule new_stack_ok, rule stack_ok_step)

text \<open>
  Each layer is a good client of the one below, and gets what that promises: the connection
  makes a run that its contract allows; in it the session makes a run of its own and
  \<open>BufferedTransport\<close> one that its contract allows; the native transport makes a run that its
  contract allows, and what it is called with is, in order, what \<open>BufferedTransport\<close> asked for.
\<close>

lemma refines_its_parts:
  fixes cfg cr svcs
  assumes "stack_reach ul env (session_with cfg cr svcs) es st"
  defines "s \<equiv> session_with cfg cr svcs"
  shows "(\<exists>ces. run_enabled cn_enabled (cn_step env) (new_connection s) ces
      \<and> st_conn st = run_events (cn_step env) (new_connection s) ces
      \<and> run_enabled bt_enabled bt_step new_buffered (BtStart # transport_trace env (new_connection s) ces)
      \<and> cn_transport (st_conn st) =
          run_events bt_step new_buffered (BtStart # transport_trace env (new_connection s) ces))
    \<and> (\<exists>ses. run_enabled session_enabled (session_step env) s ses
      \<and> cn_session (st_conn st) = run_events (session_step env) s ses)
    \<and> (\<exists>tes. ul_reach ul tes (st_native st)
      \<and> calls_of ul tes = take (st_called st) (requested ul (cn_transport (st_conn st))))"
proof -
  note ok = stack_reach_ok [OF assms(1), folded s_def, unfolded stack_ok_def]
  obtain ces where ces: "run_enabled cn_enabled (cn_step env) (new_connection s) ces"
    "st_conn st = run_events (cn_step env) (new_connection s) ces"
    using ok by blast
  have "cn_session (new_connection s) = s" by (simp add: new_connection_def)
  with session_of_run [OF ces(1)] have "\<exists>ses. run_enabled session_enabled (session_step env) s ses
      \<and> cn_session (st_conn st) = run_events (session_step env) s ses"
    by (simp add: ces(2))
  moreover have "run_enabled bt_enabled bt_step new_buffered (BtStart # transport_trace env (new_connection s) ces)
      \<and> cn_transport (st_conn st) =
          run_events bt_step new_buffered (BtStart # transport_trace env (new_connection s) ces)"
    using connection_refines_buffered [OF ces(1) [unfolded s_def]] by (simp only: ces(2) s_def)
  ultimately show ?thesis using ok ces by blast
qed

end

section \<open>The phone is always heard\<close>

definition results :: "completion list \<Rightarrow> (transport_error option \<times> bytes) list" where
  "results cs = concat (map (\<lambda>c. case c of ReadDone h ec data \<Rightarrow> [(ec, data)] | _ \<Rightarrow> []) cs)"

lemma results_simps [simp]:
  "results [] = []" "results (cs @ ds) = results cs @ results ds"
  "results (c # cs) = (case c of ReadDone h ec data \<Rightarrow> [(ec, data)] | _ \<Rightarrow> []) @ results cs"
  by (simp_all add: results_def)

lemma length_results: "length (results cs) = read_posts cs"
  by (induction cs) (simp_all split: completion.split)

text \<open>
  Of \<open>n\<close> reads that were passed in, none is lost or aborted; and the transport is open, or
  the read thread is about to report why not, or has reported it as its last result.
\<close>

definition hearing :: "('e, 't) underlying \<Rightarrow> nat \<Rightarrow> 't \<Rightarrow> bool" where
  "hearing ul n t \<longleftrightarrow>
     length (results (ul_posted ul t)) + reads_in (ul_held ul t) = n
     \<and> (\<forall>x\<in>set (results (ul_posted ul t)). fst x \<noteq> Some OperationAborted)
     \<and> (ul_open ul t \<or> ul_reporting ul t
        \<or> reads_in (ul_held ul t) = 0 \<and> results (ul_posted ul t) \<noteq> []
          \<and> fst (last (results (ul_posted ul t))) \<noteq> None)"

text \<open>The write thread has failed, and the error has not been handled yet.\<close>

definition write_error :: "completion \<Rightarrow> bool" where
  "write_error c \<longleftrightarrow> (\<exists>h err n. c = WriteDone h (Some err) n \<and> err \<noteq> OperationAborted)"

definition write_errors :: "completion list \<Rightarrow> bool" where
  "write_errors cs \<longleftrightarrow> (\<exists>c\<in>set cs. write_error c)"

lemma write_errors_simps [simp]:
  "\<not> write_errors []" "write_errors (cs @ ds) \<longleftrightarrow> write_errors cs \<or> write_errors ds"
  "write_errors (c # cs) \<longleftrightarrow> write_error c \<or> write_errors cs"
  by (auto simp: write_errors_def)

definition write_failing :: "('e, 't) underlying \<Rightarrow> ('c, 'v, 't) stack \<Rightarrow> bool" where
  "write_failing ul st \<longleftrightarrow> ul_failing ul (st_native st) \<or> write_errors (unrun ul st)"

text \<open>
  The invariant. While the transport of the session is open, either a failed write is about to
  end the session, or the connection listens, no read of the native transport has been lost, and
  none is asked for any more once the transport has failed. Only a close by the session starts
  the closing of the transport.
\<close>

definition called_reads :: "('e, 't) underlying \<Rightarrow> ('c, 'v, 't) stack \<Rightarrow> nat" where
  "called_reads ul st = read_requests ul (take (st_called st) (requested ul (cn_transport (st_conn st))))"

definition attentive :: "('e, 't) underlying \<Rightarrow> ('c, 'v, 't) stack \<Rightarrow> bool" where
  "attentive ul st \<longleftrightarrow> listening (st_conn st) \<and> hearing ul (called_reads ul st) (st_native st)
     \<and> (ul_open ul (st_native st) \<or> called_reads ul st = reads_issued (cn_transport (st_conn st)))"

definition stack_hears :: "('e, 't) underlying \<Rightarrow> ('c, 'v, 't) stack \<Rightarrow> bool" where
  "stack_hears ul st \<longleftrightarrow> bt_closed (cn_transport (st_conn st))
     \<or> ul_free ul (st_native st) \<and> UnderlyingClose \<notin> set (bt_log (cn_transport (st_conn st)))
       \<and> (write_failing ul st \<or> attentive ul st)"

text \<open>A step of a transport that nobody has asked to close.\<close>

definition ul_works :: "('e, 't) underlying \<Rightarrow> 'e \<Rightarrow> bool" where
  "ul_works ul e \<longleftrightarrow> ul_thread ul e \<or> (\<exists>c. c \<noteq> UnderlyingClose \<and> e \<in> set (ul_request ul c))"

lemma close_asked_once:
  "UnderlyingClose \<notin> set (bt_log b) \<or> bt_closed b \<Longrightarrow>
   UnderlyingClose \<notin> set (bt_log (run_events bt_step b es)) \<or> bt_closed (run_events bt_step b es)"
proof (induction es arbitrary: b)
  case (Cons e es)
  have "UnderlyingClose \<notin> set (bt_log (bt_step b e)) \<or> bt_closed (bt_step b e)"
    using Cons.prems by (cases e) (auto simp: bt_step_defs split: list.split option.split sum.split)
  then show ?case using Cons.IH by simp
qed simp

lemma cn_reads_issued:
  assumes "\<And>data. e \<noteq> CnArrives (Inr data)"
  shows "reads_issued (cn_transport (cn_step env c e)) = reads_issued (cn_transport c)"
proof (cases e)
  case (CnArrives res)
  with assms obtain ec where "res = Inl ec" by (cases res) auto
  with CnArrives show ?thesis
    by (simp add: cn_step_def on_underlying_read_def invoke_handler_def bt_emit_def reads_issued_def
        split: option.split prod.split)
qed (auto simp: cn_step_def calls_reads_issued split: list.split)

text \<open>A failed write ends the session.\<close>

lemma failed_write_closes:
  assumes "cn_ok c" and "ec \<noteq> ErrAborted"
  shows "bt_closed (cn_transport (cn_step env c (CnSession now (EvWrite (Some ec)))))"
proof (cases "is_terminal (ss_state (cn_session c))")
  case True
  with assms(1) have "bt_closed (cn_transport c)" using cn_ok_open by blast
  then show ?thesis by (simp add: cn_step_def closed_stays)
next
  case False
  have "ss_log (session_step env (cn_session c) (now, EvWrite (Some ec))) = ss_log (cn_session c) @
      [TimerCancel, ToObserverState SessionError, TimerCancel, TransportClose]
        @ snd (close_each (env_services env now) (ss_services (cn_session c)))
        @ [ToObserverError (ErrAap TransportWriteError)]"
    using False assms(2) by (simp add: session_step_def on_write_complete_def handle_error_live Let_def)
  then have "TransportClose \<in> set (new_calls env (cn_session c) (now, EvWrite (Some ec)))"
    by (simp add: new_calls_def)
  then show ?thesis by (simp add: cn_step_def close_closes)
qed

text \<open>
  What the session relies on to be told of everything: as long as nobody closes it, no read is
  lost, and when the transport fails one of its threads says so.
\<close>

locale heard_transport = underlying_transport ul for ul :: "('e, 't) underlying" +
  assumes new_hears: "ul_free ul (ul_new ul)" "hearing ul 0 (ul_new ul)"
    and reporting_holds: "ul_reporting ul t \<Longrightarrow> 0 < reads_in (ul_held ul t)"
    and stays_free: "ul_free ul t \<Longrightarrow> ul_works ul e \<Longrightarrow> ul_step ul t e = Some t1 \<Longrightarrow> ul_free ul t1"
    and stays_failing: "ul_failing ul t \<Longrightarrow> ul_step ul t e = Some t1 \<Longrightarrow> ul_failing ul t1
      \<or> (\<exists>new. ul_posted ul t1 = ul_posted ul t @ new \<and> write_errors new)"
    and keeps_hearing: "ul_reach ul es t \<Longrightarrow> ul_client ul t e \<Longrightarrow> ul_works ul e \<Longrightarrow> ul_free ul t \<Longrightarrow>
      hearing ul n t \<Longrightarrow> ul_step ul t e = Some t1 \<Longrightarrow> (0 < reads_in (ul_issued ul e) \<Longrightarrow> ul_open ul t) \<Longrightarrow>
      reads_in (ul_held ul t) \<le> 1 \<Longrightarrow>
      ul_failing ul t1 \<or> hearing ul (n + reads_in (ul_issued ul e)) t1
        \<and> (ul_open ul t \<longrightarrow> ul_open ul t1 \<or> 0 < reads_in (ul_held ul t1))"
begin

text \<open>The numbers of reads in a stack: asked for, called, completed, delivered.\<close>

lemma read_numbers:
  assumes "stack_ok ul env s st"
  shows "called_reads ul st \<le> reads_issued (cn_transport (st_conn st))"
    and "reads_issued (cn_transport (st_conn st)) \<le> Suc (read_posts (take (st_run st) (ul_posted ul (st_native st))))"
    and "read_posts (take (st_run st) (ul_posted ul (st_native st))) \<le> read_posts (ul_posted ul (st_native st))"
    and "read_posts (ul_posted ul (st_native st)) + reads_in (ul_held ul (st_native st)) \<le> called_reads ul st"
proof -
  let ?r = "requested ul (cn_transport (st_conn st))"
  obtain tes where tes: "ul_reach ul tes (st_native st)" "calls_of ul tes = take (st_called st) ?r"
    using assms by (auto simp: stack_ok_def)
  show "read_posts (ul_posted ul (st_native st)) + reads_in (ul_held ul (st_native st)) \<le> called_reads ul st"
    using at_most_requested(1) [OF tes(1)] by (simp add: tes(2) called_reads_def)
  show "called_reads ul st \<le> reads_issued (cn_transport (st_conn st))"
    using count_take(1) [of ul "st_called st" ?r] by (simp add: called_reads_def requested_counts)
  show "reads_issued (cn_transport (st_conn st)) \<le> Suc (read_posts (take (st_run st) (ul_posted ul (st_native st))))"
    using assms by (auto simp: stack_ok_def cn_ok_def)
qed (rule count_take(3))

lemma failing_step:
  assumes "write_failing ul st" and "ul_step ul (st_native st) e = Some t1"
    and "st_run st \<le> length (ul_posted ul (st_native st))"
    and "st_native st1 = t1" and "st_run st1 = st_run st"
  shows "write_failing ul st1"
proof -
  obtain new where new: "ul_posted ul t1 = ul_posted ul (st_native st) @ new"
    using posted_grows [OF assms(2)] by blast
  then have "unrun ul st1 = unrun ul st @ new" using assms(3-5) by (simp add: unrun_def)
  then show ?thesis
    using assms(1,4) stays_failing [OF _ assms(2)] new by (auto simp: write_failing_def)
qed

text \<open>A step of the native transport, by its threads or by a call.\<close>

lemma transport_hears:
  assumes "stack_ok ul env s st" and "stack_hears ul st" and "ul_step ul (st_native st) te = Some t1"
    and "ul_client ul (st_native st) te"
    and "UnderlyingClose \<notin> set (bt_log (cn_transport (st_conn st))) \<Longrightarrow> ul_works ul te"
    and "st1 = st\<lparr>st_native := t1, st_called := m\<rparr>"
    and "called_reads ul st1 = called_reads ul st + reads_in (ul_issued ul te)"
    and "called_reads ul st1 \<le> reads_issued (cn_transport (st_conn st))"
  shows "stack_hears ul st1"
proof (cases "bt_closed (cn_transport (st_conn st))")
  case True
  then show ?thesis using assms(6) by (simp add: stack_hears_def)
next
  case False
  then have free: "ul_free ul (st_native st)" and works: "ul_works ul te"
    and no_close: "UnderlyingClose \<notin> set (bt_log (cn_transport (st_conn st1)))"
    using assms(2,5,6) by (auto simp: stack_hears_def)
  have run: "st_run st \<le> length (ul_posted ul (st_native st))" using assms(1) by (simp add: stack_ok_def)
  obtain tes where tes: "ul_reach ul tes (st_native st)" using assms(1) by (auto simp: stack_ok_def)
  note numbers = read_numbers [OF assms(1)]
  have "write_failing ul st1 \<or> attentive ul st1" if main: "attentive ul st"
  proof -
    have "ul_open ul (st_native st)" if "0 < reads_in (ul_issued ul te)"
      using main that assms(7,8) by (auto simp: attentive_def)
    moreover have "reads_in (ul_held ul (st_native st)) \<le> 1" using numbers by linarith
    ultimately have "ul_failing ul t1 \<or> hearing ul (called_reads ul st1) t1
        \<and> (ul_open ul (st_native st) \<longrightarrow> ul_open ul t1 \<or> 0 < reads_in (ul_held ul t1))"
      using keeps_hearing [OF tes assms(4) works free _ assms(3)] main assms(7)
      by (auto simp: attentive_def)
    moreover have "called_reads ul st1 = reads_issued (cn_transport (st_conn st))"
      if "hearing ul (called_reads ul st1) t1" "0 < reads_in (ul_held ul t1)"
    proof -
      obtain new where "ul_posted ul t1 = ul_posted ul (st_native st) @ new" using posted_grows [OF assms(3)] by blast
      then show ?thesis using that numbers assms(8) by (auto simp: hearing_def length_results)
    qed
    moreover have "called_reads ul st1 = reads_issued (cn_transport (st_conn st))" if "\<not> ul_open ul (st_native st)"
      using that main assms(7,8) by (auto simp: attentive_def)
    ultimately show ?thesis
      using main assms(6) by (auto simp: attentive_def write_failing_def)
  qed
  then show ?thesis
    using assms(2,6) False failing_step [OF _ assms(3) run, of st1] stays_free [OF free works assms(3)] no_close
    by (auto simp: stack_hears_def)
qed

text \<open>A step of the connection.\<close>

lemma connection_hears:
  assumes "stack_ok ul env s st" and "stack_hears ul st" and "cn_enabled (st_conn st) e"
    and "st1 = st\<lparr>st_conn := cn_step env (st_conn st) e, st_run := m\<rparr>"
    and "attentive ul st \<Longrightarrow> e \<noteq> CnArrives (Inl ErrAborted)"
    and "attentive ul st \<Longrightarrow> \<not> ul_open ul (st_native st) \<Longrightarrow>
      reads_issued (cn_transport (st_conn st1)) = reads_issued (cn_transport (st_conn st))"
    and "write_failing ul st \<Longrightarrow> \<not> bt_closed (cn_transport (st_conn st1)) \<Longrightarrow> write_failing ul st1"
  shows "stack_hears ul st1"
proof (cases "bt_closed (cn_transport (st_conn st1))")
  case True
  then show ?thesis by (simp add: stack_hears_def)
next
  case False
  have run: "cn_transport (st_conn st1) = run_events bt_step (cn_transport (st_conn st)) (step_trace env (st_conn st) e)"
    by (simp add: assms(4) step_trace_run)
  with False have before: "\<not> bt_closed (cn_transport (st_conn st))" using closed_stays by auto
  then have no_close: "UnderlyingClose \<notin> set (bt_log (cn_transport (st_conn st1)))"
    using assms(2) False close_asked_once [of "cn_transport (st_conn st)" "step_trace env (st_conn st) e"]
    by (auto simp: stack_hears_def run)
  obtain new where
    "requested ul (cn_transport (st_conn st1)) = requested ul (cn_transport (st_conn st)) @ new"
    using requested_grows [of ul env "st_conn st" e] by (auto simp: assms(4))
  then have "called_reads ul st1 = called_reads ul st"
    using assms(1) by (simp add: called_reads_def stack_ok_def assms(4))
  moreover have "listening (st_conn st1)" if "attentive ul st"
    using listening_step [of "st_conn st" e env] assms(1,3,4,5) that
    by (simp add: cn_sound_def attentive_def stack_ok_def)
  ultimately have "attentive ul st1" if "attentive ul st"
    using assms(6) that by (cases "ul_open ul (st_native st)") (auto simp: attentive_def assms(4))
  then show ?thesis
    using assms(2,7) before False no_close by (auto simp: stack_hears_def assms(4))
qed

text \<open>A transport that is no longer open has no further data to deliver.\<close>

lemma closed_delivers_error:
  assumes "stack_ok ul env s st" and "attentive ul st" and "\<not> ul_open ul (st_native st)"
    and "unrun ul st = ReadDone h ec data # rest"
  shows "ec \<noteq> None"
proof -
  let ?t = "st_native st" and ?before = "take (st_run st) (ul_posted ul (st_native st))"
  note numbers = read_numbers [OF assms(1)]
  have split: "ul_posted ul ?t = ?before @ ReadDone h ec data # rest"
    using assms(4) append_take_drop_id [of "st_run st" "ul_posted ul ?t"] by (simp add: unrun_def)
  have called: "called_reads ul st = reads_issued (cn_transport (st_conn st))"
    and h: "hearing ul (called_reads ul st) ?t"
    using assms(2,3) by (auto simp: attentive_def)
  have posts: "read_posts (ul_posted ul ?t) = Suc (read_posts ?before + read_posts rest)"
    by (subst split) simp
  with numbers called have none: "reads_in (ul_held ul ?t) = 0" "read_posts rest = 0" by linarith+
  then have "\<not> ul_reporting ul ?t" using reporting_holds by fastforce
  with h assms(3) have "fst (last (results (ul_posted ul ?t))) \<noteq> None" by (auto simp: hearing_def)
  moreover have "results (ul_posted ul ?t) = results ?before @ [(ec, data)]"
  proof -
    have "results rest = []" using none(2) length_results [of rest] by simp
    then show ?thesis by (subst split) simp
  qed
  ultimately show ?thesis by simp
qed

lemma posted_hears:
  assumes "stack_ok ul env s st" and "stack_hears ul st" and "unrun ul st = c # rest"
    and "st1 = st\<lparr>st_conn := cn_step env (st_conn st) (completion_event now c), st_run := Suc (st_run st)\<rparr>"
  shows "stack_hears ul st1"
proof (rule connection_hears [OF assms(1,2) completion_enabled [OF assms(1,3)] assms(4)])
  show "completion_event now c \<noteq> CnArrives (Inl ErrAborted)" if "attentive ul st"
  proof (cases c)
    case (ReadDone h ec data)
    have "(ec, data) \<in> set (results (ul_posted ul (st_native st)))"
      using unrun_next(2) [OF assms(3)] unfolding ReadDone results_def by force
    then have "ec \<noteq> Some OperationAborted" using that by (auto simp: attentive_def hearing_def)
    then show ?thesis using ReadDone by (cases ec) auto
  qed simp
  show "reads_issued (cn_transport (st_conn st1)) = reads_issued (cn_transport (st_conn st))"
    if "attentive ul st" "\<not> ul_open ul (st_native st)"
  proof -
    have "completion_event now c \<noteq> CnArrives (Inr data)" for data
      using closed_delivers_error [OF assms(1) that] assms(3) by (cases c) (auto split: option.split)
    then show ?thesis by (simp add: assms(4) cn_reads_issued)
  qed
  show "write_failing ul st1"
    if failing: "write_failing ul st" and op: "\<not> bt_closed (cn_transport (st_conn st1))"
  proof -
    have rest: "unrun ul st1 = rest"
      using assms(3) by (simp add: unrun_def assms(4)) (metis drop_Suc list.sel(3) tl_drop)
    have "\<not> write_error c"
    proof
      assume "write_error c"
      then obtain h err n where c: "c = WriteDone h (Some err) n" "err \<noteq> OperationAborted"
        by (auto simp: write_error_def)
      moreover have "cn_ok (st_conn st)" using assms(1) by (simp add: stack_ok_def)
      ultimately have "bt_closed (cn_transport (st_conn st1))"
        by (simp add: assms(4) failed_write_closes)
      with op show False ..
    qed
    then show ?thesis
      using failing rest assms(3,4) by (auto simp: write_failing_def)
  qed
qed

lemma stack_hears_step:
  assumes "stack_ok ul env s st" and "stack_hears ul st" and "stack_step ul env st e = Some st1"
  shows "stack_hears ul st1"
  using assms(3)
proof (cases rule: stack_step_cases)
  case (1 te t1)
  have st1: "st1 = st\<lparr>st_native := t1, st_called := st_called st\<rparr>" using 1(4) by simp
  moreover have "called_reads ul st1 = called_reads ul st" using 1(4) by (simp add: called_reads_def)
  ultimately show ?thesis
    using transport_hears [OF assms(1,2) 1(3) thread_client [OF 1(2)] _ st1] read_numbers(1) [OF assms(1)]
      1(2) thread_issues by (simp add: ul_works_def)
next
  case (2 te rest t1)
  note nx = pending_next [OF 2(2)]
  have called: "called_reads ul st1 = called_reads ul st + reads_in (ul_issued ul te)"
    using nx(2) 2(4) by (simp add: called_reads_def)
  have "called_reads ul st1 \<le> reads_issued (cn_transport (st_conn st))"
    using count_take(1) [of ul "Suc (st_called st)" "requested ul (cn_transport (st_conn st))"] 2(4)
    by (simp add: called_reads_def requested_counts)
  moreover have "ul_works ul te" if no_close: "UnderlyingClose \<notin> set (bt_log (cn_transport (st_conn st)))"
  proof -
    obtain c where c: "c \<in> set (bt_log (cn_transport (st_conn st)))" "te \<in> set (ul_request ul c)"
      using nx(3) by blast
    with no_close have "c \<noteq> UnderlyingClose" by auto
    with c(2) show ?thesis by (metis ul_works_def)
  qed
  ultimately show ?thesis
    by (rule transport_hears [OF assms(1,2) 2(3) call_allowed [OF assms(1) 2(2)] _ 2(4) called, rotated])
next
  case (3 now c rest)
  with posted_hears [OF assms(1,2)] show ?thesis by blast
next
  case (4 ce)
  have st1: "st1 = st\<lparr>st_conn := cn_step env (st_conn st) ce, st_run := st_run st\<rparr>" using 4(5) by simp
  have "ce \<noteq> CnArrives res" for res using 4(2) by (auto simp: own_event_def)
  with connection_hears [OF assms(1,2) 4(3) st1] cn_reads_issued [of ce env "st_conn st"] st1
  show ?thesis by (simp add: write_failing_def unrun_def)
qed

lemma stack_reach_hears:
  assumes "stack_reach ul env (session_with cfg cr svcs) es st"
  shows "stack_hears ul st"
proof -
  let ?s = "session_with cfg cr svcs"
  have "stack_ok ul env ?s st \<and> stack_hears ul st"
    using assms
  proof (rule reach_keeps)
    have "listening (new_connection ?s)" by (rule new_connection_ok(2))
    moreover have "reads_issued (cn_transport (new_connection ?s)) = 1"
      by (simp add: new_connection_def bt_step_defs new_buffered_def reads_issued_def)
    ultimately have "attentive ul (new_stack ul ?s)" if "ul_open ul (ul_new ul)"
      using new_hears that by (simp add: attentive_def new_stack_def called_reads_def)
    moreover have "ul_open ul (ul_new ul)"
      using new_hears(2) reporting_holds [of "ul_new ul"] by (auto simp: hearing_def posted_new)
    ultimately show "stack_ok ul env ?s (new_stack ul ?s) \<and> stack_hears ul (new_stack ul ?s)"
      using new_stack_ok [of env cfg cr svcs] new_hears(1)
      by (simp add: stack_hears_def new_stack_def new_connection_def bt_step_defs new_buffered_def)
  qed (use stack_ok_step stack_hears_step in blast)
  then show ?thesis ..
qed

lemma stack_reads_grow:
  assumes "stack_step ul env st e = Some st1"
  shows "reads (ss_log (cn_session (st_conn st))) \<le> reads (ss_log (cn_session (st_conn st1)))"
  using assms by (cases rule: stack_step_cases) (simp_all add: reads_grow)

lemma stack_started:
  "stack_reach ul env s es st \<Longrightarrow> StIo (CnSession t EvStart) \<in> set es \<Longrightarrow>
   0 < reads (ss_log (cn_session (st_conn st)))"
proof (induction rule: reach.induct)
  case (reach_step es st e st1)
  show ?case
  proof (cases "StIo (CnSession t EvStart) \<in> set es")
    case True
    with reach_step.IH stack_reads_grow [OF reach_step(3)] show ?thesis by simp
  next
    case False
    with reach_step.prems have "e = StIo (CnSession t EvStart)" by simp
    with reach_step(3) have "st_conn st1 = cn_step env (st_conn st) (CnSession t EvStart)"
      by (auto simp: stack_step_def split: if_splits)
    then show ?thesis using started_reads [of t "[CnSession t EvStart]" env "st_conn st"] by simp
  qed
qed simp

text \<open>
  Once started, a stack whose session has not closed its transport has the next bytes of the
  phone on their way to the session, unless a write has failed and ends the session.
\<close>

lemma never_goes_deaf:
  assumes "stack_reach ul env (session_with cfg cr svcs) es st"
    and "StIo (CnSession t EvStart) \<in> set es" and "\<not> bt_closed (cn_transport (st_conn st))"
  shows "\<not> is_terminal (ss_state (cn_session (st_conn st)))
    \<and> (posted_reads (st_conn st) \<noteq> []
      \<or> results (unrun ul st) \<noteq> []
      \<or> 0 < read_requests ul (pending_calls ul st)
      \<or> 0 < reads_in (ul_held ul (st_native st)) \<and> (ul_open ul (st_native st) \<or> ul_reporting ul (st_native st))
      \<or> write_failing ul st)"
proof -
  let ?c = "st_conn st" and ?t = "st_native st"
  have ok: "stack_ok ul env (session_with cfg cr svcs) st" by (rule stack_reach_ok [OF assms(1)])
  then have cn: "cn_ok ?c" by (simp add: stack_ok_def)
  have "0 < reads_in (ul_held ul ?t) \<and> (ul_open ul ?t \<or> ul_reporting ul ?t)"
    if att: "attentive ul st" and none: "posted_reads ?c = []" "results (unrun ul st) = []"
      "read_requests ul (pending_calls ul st) = 0"
  proof -
    have lis: "listening ?c" using att by (simp add: attentive_def)
    note one = listening_read [OF cn lis stack_started [OF assms(1,2)] assms(3)]
    have "parked (cn_transport ?c) \<noteq> []" using one(1) none(1) by auto
    then have issued: "reads_issued (cn_transport ?c) = Suc (cn_arrived ?c)" by (rule one(2))
    have "read_posts (ul_posted ul ?t) = read_posts (take (st_run st) (ul_posted ul ?t)) + read_posts (unrun ul st)"
      by (simp add: unrun_def flip: count_simps(11))
    moreover have "read_posts (unrun ul st) = 0" using none(2) length_results [of "unrun ul st"] by simp
    moreover have "reads_issued (cn_transport ?c) = called_reads ul st + read_requests ul (pending_calls ul st)"
      by (simp add: called_reads_def pending_calls_def flip: count_simps(9) requested_counts(1))
    ultimately have "reads_in (ul_held ul ?t) = 1"
      using att issued ok none(3) by (simp add: attentive_def hearing_def length_results stack_ok_def)
    with att show ?thesis by (auto simp: attentive_def hearing_def)
  qed
  then show ?thesis
    using stack_reach_hears [OF assms(1)] assms(3) cn_ok_open [OF cn assms(3)]
    by (auto simp: stack_hears_def)
qed

end

section \<open>The start of a session, for the runs\<close>

lemma demo_first_write:
  obtains w where "w \<noteq> []" "new_calls demo_env demo_session (0, EvStart) =
    [TimerCancel, ToObserverState VersionExchange, TimerArm 5000, TransportRead, TransportWrite w]"
proof -
  have "\<exists>w. w \<noteq> [] \<and> new_calls demo_env demo_session (0, EvStart) =
      [TimerCancel, ToObserverState VersionExchange, TimerArm 5000, TransportRead, TransportWrite w]"
    by (simp add: new_calls_def session_eval demo_eval)
  then show ?thesis using that by blast
qed

lemma demo_waiting: "waiting (session_step demo_env demo_session (0, EvStart)) = []"
  by (simp add: waiting_def session_eval demo_eval)

lemma demo_log: "ss_log demo_session = []"
  by (simp add: demo_session_def session_with_def new_session_def register_service_def)

lemma demo_idle: "ss_state demo_session = Idle"
  by (simp add: demo_session_def session_with_def new_session_def register_service_def)

lemmas demo_start_eval = demo_connection_def new_connection_def bt_step_defs new_buffered_def cn_step_def
  cn_enabled_def is_read_def session_enabled_def

lemma demo_open: "\<not> bt_closed (cn_transport (cn_step demo_env demo_connection (CnSession 0 EvStart)))"
proof -
  obtain w where "new_calls demo_env demo_session (0, EvStart) =
      [TimerCancel, ToObserverState VersionExchange, TimerArm 5000, TransportRead, TransportWrite w]"
    by (rule demo_first_write)
  then show ?thesis by (simp add: demo_start_eval)
qed

end
