(* ===== verification/Receiving.thy ===== *)
theory Receiving
  imports Stack
begin

text \<open>
  The receiving direction of a whole connection, for any native transport that keeps the contract of
  \<open>Stack\<close>: the data of the reads that the transport has completed is what the session has been fed,
  followed by what waits on the way, as long as no chunk finds the queue of \<open>BufferedTransport\<close> full.
\<close>

section \<open>Room for what arrives\<close>

text \<open>A chunk whose completion runs finds a reader or room in the queue.\<close>

definition stack_roomy :: "('e, 't) underlying \<Rightarrow> ('c, 'v, 't) stack \<Rightarrow> 'e stack_event \<Rightarrow> bool" where
  "stack_roomy ul st e \<longleftrightarrow>
     (case e of
        StPosted now \<Rightarrow>
          (case unrun ul st of
             ReadDone h None data # _ \<Rightarrow>
               pending_handler (cn_transport (st_conn st)) \<noteq> None
               \<or> length (rx_queue (cn_transport (st_conn st))) < kMaxQueuedReads
           | _ \<Rightarrow> True)
      | _ \<Rightarrow> True)"

abbreviation roomy_reach ::
    "('e, 't) underlying \<Rightarrow> ('c, 'v) session_env \<Rightarrow> ('c, 'v) session \<Rightarrow> 'e stack_event list \<Rightarrow>
     ('c, 'v, 't) stack \<Rightarrow> bool" where
  "roomy_reach ul env s \<equiv> reach (new_stack ul s) (stack_roomy ul) (stack_step ul env)"

lemma roomy_stack_reach: "roomy_reach ul env s es st \<Longrightarrow> stack_reach ul env s es st"
  by (induction rule: reach.induct) (auto intro: reach.intros)

text \<open>The data of the reads that have completed without an error.\<close>

definition read_data :: "completion list \<Rightarrow> bytes" where
  "read_data cs = concat (map (\<lambda>c. case c of ReadDone h None data \<Rightarrow> data | _ \<Rightarrow> []) cs)"

lemma read_data_simps [simp]:
  "read_data [] = []" "read_data (cs @ ds) = read_data cs @ read_data ds"
  "read_data (c # cs) = (case c of ReadDone h None data \<Rightarrow> data | _ \<Rightarrow> []) @ read_data cs"
  by (simp_all add: read_data_def)

lemma arrived_simps [simp]:
  "arrived_bytes [] = []" "arrived_bytes (es @ fs) = arrived_bytes es @ arrived_bytes fs"
  "arrived_bytes [completion_event now c] = read_data [c]"
  "own_event ce \<Longrightarrow> arrived_bytes [ce] = []"
  by (auto simp: arrived_bytes_def own_event_def split: completion.split option.split cn_event.splits)

section \<open>What the connection has been given\<close>

definition given :: "('e, 't) underlying \<Rightarrow> ('c, 'v) session_env \<Rightarrow> ('c, 'v) session \<Rightarrow> ('c, 'v, 't) stack \<Rightarrow> bool" where
  "given ul env s st \<longleftrightarrow>
     (\<exists>ces. run_enabled cn_roomy (cn_step env) (new_connection s) ces
        \<and> st_conn st = run_events (cn_step env) (new_connection s) ces
        \<and> arrived_bytes ces = read_data (take (st_run st) (ul_posted ul (st_native st))))"

lemma given_step:
  assumes "given ul env s st" and "cn_roomy (st_conn st) e" and "st_conn st1 = cn_step env (st_conn st) e"
    and "read_data (take (st_run st1) (ul_posted ul (st_native st1))) =
      read_data (take (st_run st) (ul_posted ul (st_native st))) @ arrived_bytes [e]"
  shows "given ul env s st1"
proof -
  obtain ces where "run_enabled cn_roomy (cn_step env) (new_connection s) ces"
    "st_conn st = run_events (cn_step env) (new_connection s) ces"
    "arrived_bytes ces = read_data (take (st_run st) (ul_posted ul (st_native st)))"
    using assms(1) by (auto simp: given_def)
  with assms(2-4) show ?thesis
    unfolding given_def by (intro exI [where x = "ces @ [e]"]) simp
qed

context underlying_transport
begin

lemma given_stack_step:
  assumes "stack_ok ul env s st" and "given ul env s st" and "stack_roomy ul st e" and "stack_step ul env st e = Some st1"
  shows "given ul env s st1"
  using assms(4)
proof (cases rule: stack_step_cases)
  case (1 te t1)
  obtain new where "ul_posted ul t1 = ul_posted ul (st_native st) @ new" using posted_grows [OF 1(3)] by blast
  with 1(4) assms(1,2) show ?thesis by (simp add: given_def stack_ok_def)
next
  case (2 te rest t1)
  obtain new where "ul_posted ul t1 = ul_posted ul (st_native st) @ new" using posted_grows [OF 2(3)] by blast
  with 2(4) assms(1,2) show ?thesis by (simp add: given_def stack_ok_def)
next
  case (3 now c rest)
  have "cn_roomy (st_conn st) (completion_event now c)"
    using completion_enabled [OF assms(1) 3(2)] assms(3) 3(1,2)
    by (cases c) (auto simp: cn_roomy_def stack_roomy_def split: option.splits)
  then show ?thesis
    by (rule given_step [OF assms(2)]) (use 3(4) unrun_next(3) [OF 3(2)] in simp_all)
next
  case (4 ce)
  have "cn_roomy (st_conn st) ce"
    using 4(2,3) by (auto simp: cn_roomy_def own_event_def split: cn_event.split)
  then show ?thesis
    by (rule given_step [OF assms(2)]) (use 4(2,5) in simp_all)
qed

lemma roomy_given:
  assumes "roomy_reach ul env (session_with cfg cr svcs) es st"
  shows "given ul env (session_with cfg cr svcs) st"
proof -
  let ?s = "session_with cfg cr svcs"
  have "stack_ok ul env ?s st \<and> given ul env ?s st"
    using assms
  proof (rule reach_keeps)
    show "stack_ok ul env ?s (new_stack ul ?s) \<and> given ul env ?s (new_stack ul ?s)"
      using new_stack_ok [of env cfg cr svcs]
      by (auto simp: given_def new_stack_def intro!: exI [where x = "[]"])
  qed (use stack_ok_step given_stack_step in blast)
  then show ?thesis ..
qed

text \<open>
  What the session is made of is what the transport has read: the data of its completed reads is
  what the session was fed, then what waits in the connection, then what waits to be run; and the
  session is the one that is handed the fragments of the fed bytes, between its other events.
\<close>

lemma parses_the_stream:
  assumes "roomy_reach ul env (session_with cfg cr svcs) es st" and "\<not> bt_closed (cn_transport (st_conn st))"
  shows "\<exists>fed inputs.
    read_data (ul_posted ul (st_native st)) = fed @ waiting_bytes (st_conn st) @ read_data (unrun ul st)
    \<and> framer_feed new_framer fed = (ss_framer (cn_session (st_conn st)), fragments_in inputs)
    \<and> cn_session (st_conn st) = run_events (session_input_step env) (session_with cfg cr svcs) inputs
    \<and> \<not> (\<exists>i\<in>set inputs. brings_data i)"
proof -
  let ?c0 = "new_connection (session_with cfg cr svcs)"
  obtain ces where ces: "run_enabled cn_roomy (cn_step env) ?c0 ces" "st_conn st = run_events (cn_step env) ?c0 ces"
    "arrived_bytes ces = read_data (take (st_run st) (ul_posted ul (st_native st)))"
    using roomy_given [OF assms(1)] by (auto simp: given_def)
  note stream = connection_stream [OF ces(1) assms(2) [unfolded ces(2)], folded ces(2)]
  have "read_data (ul_posted ul (st_native st)) =
      read_data (take (st_run st) (ul_posted ul (st_native st))) @ read_data (unrun ul st)"
    by (simp add: unrun_def flip: read_data_simps(2))
  with ces stream show ?thesis
    by (intro exI [where x = "fed_bytes env ?c0 ces"] exI [where x = "session_inputs env ?c0 ces"]) simp
qed

end

end
