(* ===== verification/Tcp_Transport.thy ===== *)
theory Tcp_Transport
  imports Threads
begin

text \<open>
  \<open>AndroidTcpTransport\<close> (\<open>impl/android/transport/AndroidTcpTransport.cpp\<close>): a connected
  socket with a read and a write thread. The calls of the interface come from the engine's
  io context, one at a time; \<open>close\<close> blocks that thread while it joins the others.

  \<open>tcp_sent\<close> is what the kernel has accepted for sending. Reading the peer's address for a log
  line and \<open>TCP_NODELAY\<close> have no effect on the state.
\<close>

section \<open>State\<close>

datatype read_work =
    InRecv nat nat   \<comment> \<open>the handler, the size of its buffer\<close>
  | RecvFailed nat
  | RecvStop nat
  | RecvReport nat transport_error   \<comment> \<open>\<open>open_\<close> is false, the handler not posted yet\<close>

datatype write_work =
    SendLoop nat bytes nat   \<comment> \<open>handler, data, bytes sent: at the head of the inner loop\<close>
  | InSend nat bytes nat
  | SendFailed nat
  | SendReport nat

record tcp_transport =
  tcp_open :: bool
  tcp_fd :: bool   \<comment> \<open>the descriptor is open\<close>
  read_thread :: "read_work thread"
  pending_read :: "(nat \<times> nat) option"
  read_requested :: bool
  write_thread :: "write_work thread"
  pending_write :: "(nat \<times> bytes) option"
  write_requested :: bool
  tcp_closer :: closer
  tcp_joined :: bool
  tcp_fate :: fate
  tcp_sent :: bytes
  tcp_posted :: "completion list"

definition new_tcp :: tcp_transport where
  "new_tcp =
     \<lparr>tcp_open = True, tcp_fd = True, read_thread = Top, pending_read = None, read_requested = False,
      write_thread = Top, pending_write = None, write_requested = False, tcp_closer = CloserIdle,
      tcp_joined = False, tcp_fate = Alive, tcp_sent = [], tcp_posted = []\<rparr>"

definition tcp_post :: "completion \<Rightarrow> tcp_transport \<Rightarrow> tcp_transport" where
  "tcp_post c t = t\<lparr>tcp_posted := tcp_posted t @ [c]\<rparr>"

section \<open>The interface\<close>

text \<open>\<open>None\<close>: the mutex is held by the thread.\<close>

definition tcp_async_read :: "nat \<Rightarrow> nat \<Rightarrow> tcp_transport \<Rightarrow> tcp_transport option" where
  "tcp_async_read h cap t =
     (if read_thread t = Deciding then None
      else if \<not> tcp_open t then Some (tcp_post (ReadDone h (Some OperationAborted) []) t)
      else Some (t\<lparr>pending_read := Some (h, cap), read_requested := True,
                   read_thread := notify (read_thread t)\<rparr>))"

definition tcp_async_write :: "nat \<Rightarrow> bytes \<Rightarrow> tcp_transport \<Rightarrow> tcp_transport option" where
  "tcp_async_write h data t =
     (if write_thread t = Deciding then None
      else if \<not> tcp_open t then Some (tcp_post (WriteDone h (Some OperationAborted) 0) t)
      else Some (t\<lparr>pending_write := Some (h, data), write_requested := True,
                   write_thread := notify (write_thread t)\<rparr>))"

text \<open>
  \<open>close\<close>: the compare-and-exchange, then its remaining steps one by one. A transport that a
  thread has marked as not open is left as it is.
\<close>

definition tcp_close :: "tcp_transport \<Rightarrow> tcp_transport" where
  "tcp_close t = (if tcp_open t then t\<lparr>tcp_open := False, tcp_closer := CloseFd\<rparr> else t)"

definition tcp_fire_pending :: "tcp_transport \<Rightarrow> tcp_transport" where
  "tcp_fire_pending t =
     (let t1 = (case pending_read t of
          None \<Rightarrow> t
        | Some (h, cap) \<Rightarrow> tcp_post (ReadDone h (Some OperationAborted) []) (t\<lparr>pending_read := None\<rparr>))
      in case pending_write t1 of
           None \<Rightarrow> t1
         | Some (h, data) \<Rightarrow> tcp_post (WriteDone h (Some OperationAborted) 0) (t1\<lparr>pending_write := None\<rparr>))"

definition tcp_close_step :: "tcp_transport \<Rightarrow> tcp_transport option" where
  "tcp_close_step t =
     (case tcp_closer t of
        CloserIdle \<Rightarrow> None
      | CloseFd \<Rightarrow> Some (t\<lparr>tcp_fd := False, tcp_closer := NotifyThreads\<rparr>)
      | NotifyThreads \<Rightarrow>
          Some (t\<lparr>read_thread := notify (read_thread t), write_thread := notify (write_thread t),
                  tcp_closer := JoinRead\<rparr>)
      | JoinRead \<Rightarrow> (if read_thread t = Exited then Some (t\<lparr>tcp_closer := JoinWrite\<rparr>) else None)
      | JoinWrite \<Rightarrow>
          (if write_thread t = Exited then Some (t\<lparr>tcp_joined := True, tcp_closer := FirePending\<rparr>) else None)
      | FirePending \<Rightarrow> Some (tcp_fire_pending (t\<lparr>tcp_closer := CloserIdle\<rparr>)))"

text \<open>
  The destructor after its call of \<open>close\<close>: destroying a \<open>std::thread\<close> that has not been joined
  terminates the process.
\<close>

definition tcp_destroy :: "tcp_transport \<Rightarrow> tcp_transport" where
  "tcp_destroy t = t\<lparr>tcp_fate := (if tcp_joined t then Destroyed else Terminated)\<rparr>"

section \<open>The read thread\<close>

datatype recv_result = Received bytes | RecvEof | RecvError

definition tcp_read_step :: "tcp_transport \<Rightarrow> tcp_transport option" where
  "tcp_read_step t =
     (case read_thread t of
        Top \<Rightarrow> Some (t\<lparr>read_thread := if tcp_open t then Checking else Exited\<rparr>)
      | Checking \<Rightarrow>
          (if \<not> tcp_open t then Some (t\<lparr>read_thread := Exited\<rparr>)
           else if read_requested t
           then (case pending_read t of
                   None \<Rightarrow> None
                 | Some (h, cap) \<Rightarrow>
                     Some (t\<lparr>read_thread := Working (InRecv h cap), pending_read := None,
                             read_requested := False\<rparr>))
           else Some (t\<lparr>read_thread := Deciding\<rparr>))
      | Deciding \<Rightarrow> Some (t\<lparr>read_thread := Asleep\<rparr>)
      | Asleep \<Rightarrow> None
      | Working (InRecv h cap) \<Rightarrow> None
      | Working (RecvFailed h) \<Rightarrow>
          Some (t\<lparr>read_thread := if tcp_open t then Working (RecvStop h) else Exited\<rparr>)
      | Working (RecvStop h) \<Rightarrow>
          Some (t\<lparr>tcp_open := False, read_thread := Working (RecvReport h IoError)\<rparr>)
      | Working (RecvReport h err) \<Rightarrow>
          Some (tcp_post (ReadDone h (Some err) []) (t\<lparr>read_thread := Top\<rparr>))
      | Exited \<Rightarrow> None)"

definition tcp_recv_returns :: "recv_result \<Rightarrow> tcp_transport \<Rightarrow> tcp_transport option" where
  "tcp_recv_returns res t =
     (case read_thread t of
        Working (InRecv h cap) \<Rightarrow>
          (case res of
             Received data \<Rightarrow>
               (if data \<noteq> [] \<and> length data \<le> cap
                then Some (tcp_post (ReadDone h None data) (t\<lparr>read_thread := Top\<rparr>)) else None)
           | RecvEof \<Rightarrow>
               Some (t\<lparr>tcp_open := False, read_thread := Working (RecvReport h EndOfFile)\<rparr>)
           | RecvError \<Rightarrow> Some (t\<lparr>read_thread := Working (RecvFailed h)\<rparr>))
      | _ \<Rightarrow> None)"

section \<open>The write thread\<close>

datatype send_result = Sent nat | SentNothing | SendInterrupted | SendError

definition tcp_write_step :: "tcp_transport \<Rightarrow> tcp_transport option" where
  "tcp_write_step t =
     (case write_thread t of
        Top \<Rightarrow> Some (t\<lparr>write_thread := if tcp_open t then Checking else Exited\<rparr>)
      | Checking \<Rightarrow>
          (if \<not> tcp_open t then Some (t\<lparr>write_thread := Exited\<rparr>)
           else if write_requested t
           then (case pending_write t of
                   None \<Rightarrow> None
                 | Some (h, data) \<Rightarrow>
                     Some (t\<lparr>write_thread := Working (SendLoop h data 0), pending_write := None,
                             write_requested := False\<rparr>))
           else Some (t\<lparr>write_thread := Deciding\<rparr>))
      | Deciding \<Rightarrow> Some (t\<lparr>write_thread := Asleep\<rparr>)
      | Asleep \<Rightarrow> None
      | Working (SendLoop h data n) \<Rightarrow>
          (if n < length data \<and> tcp_open t then Some (t\<lparr>write_thread := Working (InSend h data n)\<rparr>)
           else Some (tcp_post (WriteDone h None (length data)) (t\<lparr>write_thread := Top\<rparr>)))
      | Working (InSend h data n) \<Rightarrow> None
      | Working (SendFailed h) \<Rightarrow>
          Some (t\<lparr>tcp_open := False, write_thread := Working (SendReport h)\<rparr>)
      | Working (SendReport h) \<Rightarrow>
          Some (tcp_post (WriteDone h (Some IoError) 0) (t\<lparr>write_thread := Top\<rparr>))
      | Exited \<Rightarrow> None)"

definition tcp_send_returns :: "send_result \<Rightarrow> tcp_transport \<Rightarrow> tcp_transport option" where
  "tcp_send_returns res t =
     (case write_thread t of
        Working (InSend h data n) \<Rightarrow>
          (case res of
             Sent k \<Rightarrow>
               (if 0 < k \<and> n + k \<le> length data
                then Some (t\<lparr>write_thread := Working (SendLoop h data (n + k)),
                             tcp_sent := tcp_sent t @ take k (drop n data)\<rparr>) else None)
           | SentNothing \<Rightarrow> Some (t\<lparr>write_thread := Working (SendFailed h)\<rparr>)
           | SendInterrupted \<Rightarrow> Some (t\<lparr>write_thread := Working (SendLoop h data n)\<rparr>)
           | SendError \<Rightarrow> Some (t\<lparr>write_thread := Working (SendFailed h)\<rparr>))
      | _ \<Rightarrow> None)"

section \<open>Events\<close>

datatype tcp_event =
    TcpRead nat nat
  | TcpWrite nat bytes
  | TcpClose
  | TcpCloser
  | TcpDestroy
  | TcpReader
  | TcpRecv recv_result
  | TcpWriter
  | TcpSend send_result
  | TcpWakeReader
  | TcpWakeWriter

definition caller_free :: "tcp_transport \<Rightarrow> bool" where
  "caller_free t \<longleftrightarrow> tcp_closer t = CloserIdle"

definition tcp_step :: "tcp_transport \<Rightarrow> tcp_event \<Rightarrow> tcp_transport option" where
  "tcp_step t e =
     (if tcp_fate t \<noteq> Alive then None
      else case e of
        TcpRead h cap \<Rightarrow> (if caller_free t then tcp_async_read h cap t else None)
      | TcpWrite h data \<Rightarrow> (if caller_free t then tcp_async_write h data t else None)
      | TcpClose \<Rightarrow> (if caller_free t then Some (tcp_close t) else None)
      | TcpCloser \<Rightarrow> tcp_close_step t
      | TcpDestroy \<Rightarrow> (if caller_free t \<and> \<not> tcp_open t then Some (tcp_destroy t) else None)
      | TcpReader \<Rightarrow> tcp_read_step t
      | TcpRecv res \<Rightarrow> tcp_recv_returns res t
      | TcpWriter \<Rightarrow> tcp_write_step t
      | TcpSend res \<Rightarrow> tcp_send_returns res t
      | TcpWakeReader \<Rightarrow>
          (if read_thread t = Asleep then Some (t\<lparr>read_thread := Checking\<rparr>) else None)
      | TcpWakeWriter \<Rightarrow>
          (if write_thread t = Asleep then Some (t\<lparr>write_thread := Checking\<rparr>) else None))"

section \<open>Handlers\<close>

text \<open>
  The caller's side of the interface (\<open>ITransport.hpp\<close>): one outstanding read and one
  outstanding write.
\<close>

primrec read_work_token :: "read_work \<Rightarrow> token multiset" where
  "read_work_token (InRecv h cap) = {#ReadToken h#}"
| "read_work_token (RecvFailed h) = {#ReadToken h#}"
| "read_work_token (RecvStop h) = {#ReadToken h#}"
| "read_work_token (RecvReport h err) = {#ReadToken h#}"

primrec write_work_token :: "write_work \<Rightarrow> token multiset" where
  "write_work_token (SendLoop h data n) = {#WriteToken h#}"
| "write_work_token (InSend h data n) = {#WriteToken h#}"
| "write_work_token (SendFailed h) = {#WriteToken h#}"
| "write_work_token (SendReport h) = {#WriteToken h#}"

definition tcp_reads :: "tcp_transport \<Rightarrow> token multiset" where
  "tcp_reads t = read_held (pending_read t) + thread_holds read_work_token (read_thread t)"

definition tcp_writes :: "tcp_transport \<Rightarrow> token multiset" where
  "tcp_writes t = write_held (pending_write t) + thread_holds write_work_token (write_thread t)"

definition tcp_held :: "tcp_transport \<Rightarrow> token multiset" where
  "tcp_held t = tcp_reads t + tcp_writes t"

definition tcp_completed :: "tcp_transport \<Rightarrow> token multiset" where
  "tcp_completed t = tokens (tcp_posted t)"

definition tcp_client :: "tcp_transport \<Rightarrow> tcp_event \<Rightarrow> bool" where
  "tcp_client t e =
     (case e of
        TcpRead h cap \<Rightarrow> tcp_reads t = {#}
      | TcpWrite h data \<Rightarrow> tcp_writes t = {#}
      | _ \<Rightarrow> True)"

definition tcp_issued :: "tcp_event \<Rightarrow> token multiset" where
  "tcp_issued e =
     (case e of TcpRead h cap \<Rightarrow> {#ReadToken h#} | TcpWrite h data \<Rightarrow> {#WriteToken h#} | _ \<Rightarrow> {#})"

text \<open>The one way to lose a handler: \<open>recv\<close> fails on a transport that is no longer open.\<close>

primrec recv_failed_token :: "read_work \<Rightarrow> token multiset" where
  "recv_failed_token (InRecv h cap) = {#}"
| "recv_failed_token (RecvFailed h) = {#ReadToken h#}"
| "recv_failed_token (RecvStop h) = {#}"
| "recv_failed_token (RecvReport h err) = {#}"

definition tcp_lost :: "tcp_transport \<Rightarrow> tcp_event \<Rightarrow> token multiset" where
  "tcp_lost t e =
     (if e = TcpReader \<and> \<not> tcp_open t then thread_holds recv_failed_token (read_thread t) else {#})"

lemma read_held_empty [simp]: "read_held p = {#} \<longleftrightarrow> p = None"
  by (simp add: read_held_def split: option.split prod.split)

lemma write_held_empty [simp]: "write_held p = {#} \<longleftrightarrow> p = None"
  by (simp add: write_held_def split: option.split prod.split)

lemmas tcp_calls = tcp_async_read_def tcp_async_write_def tcp_close_def tcp_destroy_def tcp_post_def
lemmas tcp_closing = tcp_close_step_def tcp_fire_pending_def tcp_post_def Let_def
lemmas tcp_reading = tcp_read_step_def tcp_recv_returns_def tcp_post_def
lemmas tcp_writing = tcp_write_step_def tcp_send_returns_def tcp_post_def
lemmas tcp_sums = tcp_completed_def tcp_held_def tcp_reads_def tcp_writes_def

lemmas tcp_splits = if_splits option.splits thread.splits closer.splits read_work.splits
  write_work.splits recv_result.splits send_result.splits

text \<open>What an event can be, as a case distinction.\<close>

lemma tcp_step_cases:
  assumes "tcp_step t e = Some t1"
  obtains h cap where "e = TcpRead h cap" "tcp_async_read h cap t = Some t1" "tcp_closer t = CloserIdle"
  | h data where "e = TcpWrite h data" "tcp_async_write h data t = Some t1" "tcp_closer t = CloserIdle"
  | "e = TcpClose" "t1 = tcp_close t" "tcp_closer t = CloserIdle"
  | "e = TcpCloser" "tcp_close_step t = Some t1"
  | "e = TcpDestroy" "t1 = tcp_destroy t" "\<not> tcp_open t" "tcp_closer t = CloserIdle"
  | "e = TcpReader" "tcp_read_step t = Some t1"
  | res where "e = TcpRecv res" "tcp_recv_returns res t = Some t1"
  | "e = TcpWriter" "tcp_write_step t = Some t1"
  | res where "e = TcpSend res" "tcp_send_returns res t = Some t1"
  | "e = TcpWakeReader" "read_thread t = Asleep" "t1 = t\<lparr>read_thread := Checking\<rparr>"
  | "e = TcpWakeWriter" "write_thread t = Asleep" "t1 = t\<lparr>write_thread := Checking\<rparr>"
  using assms that by (cases e) (auto simp: tcp_step_def caller_free_def split: if_splits)

lemma tcp_balance:
  assumes "tcp_client t e" and "tcp_step t e = Some t1"
  shows "tcp_completed t1 + tcp_held t1 + tcp_lost t e = tcp_completed t + tcp_held t + tcp_issued e"
  using assms(2)
proof (cases rule: tcp_step_cases)
  case (1 h cap)
  then show ?thesis
    using assms(1) by (auto simp: tcp_calls tcp_sums tcp_lost_def tcp_issued_def tcp_client_def split: if_splits)
next
  case (2 h data)
  then show ?thesis
    using assms(1) by (auto simp: tcp_calls tcp_sums tcp_lost_def tcp_issued_def tcp_client_def split: if_splits)
next
  case 4
  then show ?thesis
    by (auto simp: tcp_closing tcp_sums tcp_lost_def tcp_issued_def split: closer.splits if_splits option.splits)
next
  case 6
  then show ?thesis
    by (auto simp: tcp_reading tcp_sums tcp_lost_def tcp_issued_def
        split: thread.splits if_splits option.splits read_work.splits)
next
  case 7
  then show ?thesis
    by (auto simp: tcp_reading tcp_sums tcp_lost_def tcp_issued_def
        split: thread.splits if_splits read_work.splits recv_result.splits)
next
  case 8
  then show ?thesis
    by (auto simp: tcp_writing tcp_sums tcp_lost_def tcp_issued_def
        split: thread.splits if_splits option.splits write_work.splits)
next
  case 9
  then show ?thesis
    by (auto simp: tcp_writing tcp_sums tcp_lost_def tcp_issued_def
        split: thread.splits if_splits write_work.splits send_result.splits)
qed (auto simp: tcp_calls tcp_sums tcp_lost_def tcp_issued_def)

interpretation tcp_handlers: handler_accounting new_tcp tcp_client tcp_step tcp_completed tcp_held tcp_lost tcp_issued
  by unfold_locales (simp_all only: tcp_balance, simp_all add: new_tcp_def tcp_sums)

text \<open>
  No handler of the TCP transport is called twice. However the two threads, the socket,
  the caller and \<open>close\<close> interleave, the completions posted so far together with the
  handlers still held are among the handlers that were passed in, counted with multiplicity.
\<close>

theorem tcp_completes_at_most_once:
  assumes "reach new_tcp tcp_client tcp_step es t"
  shows "tcp_completed t + tcp_held t \<subseteq># all_issued tcp_issued es"
  by (rule tcp_handlers.at_most_once [OF assms])

section \<open>The invariant\<close>

definition close_ok :: "tcp_transport \<Rightarrow> bool" where
  "close_ok t \<longleftrightarrow>
     (case tcp_closer t of
        CloserIdle \<Rightarrow>
          (if tcp_joined t
           then \<not> tcp_open t \<and> \<not> tcp_fd t \<and> read_thread t = Exited \<and> write_thread t = Exited
                \<and> pending_read t = None \<and> pending_write t = None
           else tcp_fd t)
      | CloseFd \<Rightarrow> \<not> tcp_open t \<and> \<not> tcp_joined t
      | NotifyThreads \<Rightarrow> \<not> tcp_open t \<and> \<not> tcp_fd t \<and> \<not> tcp_joined t
      | JoinRead \<Rightarrow> \<not> tcp_open t \<and> \<not> tcp_fd t \<and> \<not> tcp_joined t
      | JoinWrite \<Rightarrow> \<not> tcp_open t \<and> \<not> tcp_fd t \<and> \<not> tcp_joined t \<and> read_thread t = Exited
      | FirePending \<Rightarrow> \<not> tcp_open t \<and> \<not> tcp_fd t \<and> tcp_joined t
          \<and> read_thread t = Exited \<and> write_thread t = Exited)"

text \<open>What a step of the read thread, or of the write thread, leaves alone.\<close>

definition read_frame :: "tcp_transport \<Rightarrow> tcp_transport \<Rightarrow> bool" where
  "read_frame t t1 \<longleftrightarrow> read_thread t \<noteq> Exited \<and> (tcp_open t1 \<longrightarrow> tcp_open t)
     \<and> tcp_fd t1 = tcp_fd t \<and> tcp_closer t1 = tcp_closer t \<and> tcp_joined t1 = tcp_joined t
     \<and> tcp_fate t1 = tcp_fate t \<and> tcp_sent t1 = tcp_sent t \<and> write_thread t1 = write_thread t
     \<and> pending_write t1 = pending_write t \<and> write_requested t1 = write_requested t"

definition write_frame :: "tcp_transport \<Rightarrow> tcp_transport \<Rightarrow> bool" where
  "write_frame t t1 \<longleftrightarrow> write_thread t \<noteq> Exited \<and> (tcp_open t1 \<longrightarrow> tcp_open t)
     \<and> tcp_fd t1 = tcp_fd t \<and> tcp_closer t1 = tcp_closer t \<and> tcp_joined t1 = tcp_joined t
     \<and> tcp_fate t1 = tcp_fate t \<and> read_thread t1 = read_thread t
     \<and> pending_read t1 = pending_read t \<and> read_requested t1 = read_requested t"

lemma read_thread_frame:
  "tcp_read_step t = Some t1 \<Longrightarrow> read_frame t t1" "tcp_recv_returns res t = Some t1 \<Longrightarrow> read_frame t t1"
  by (auto simp: tcp_reading read_frame_def
      split: thread.splits if_splits option.splits read_work.splits recv_result.splits)

lemma write_thread_frame:
  "tcp_write_step t = Some t1 \<Longrightarrow> write_frame t t1" "tcp_send_returns res t = Some t1 \<Longrightarrow> write_frame t t1"
  by (auto simp: tcp_writing write_frame_def
      split: thread.splits if_splits option.splits write_work.splits send_result.splits)

lemma frame_close_ok:
  "read_frame t t1 \<Longrightarrow> close_ok t \<Longrightarrow> close_ok t1" "write_frame t t1 \<Longrightarrow> close_ok t \<Longrightarrow> close_ok t1"
  by (cases "tcp_closer t"; auto simp: read_frame_def write_frame_def close_ok_def split: if_splits)+

lemma close_ok_step:
  assumes ok: "close_ok t" and step: "tcp_step t e = Some t1"
  shows "close_ok t1"
  using step
proof (cases rule: tcp_step_cases)
  case 4
  with ok show ?thesis
    by (auto simp: tcp_closing close_ok_def split: closer.splits if_splits option.splits)
next
  case 10
  with ok show ?thesis by (cases "tcp_closer t") (auto simp: close_ok_def split: if_splits)
next
  case 11
  with ok show ?thesis by (cases "tcp_closer t") (auto simp: close_ok_def split: if_splits)
next
  case 6
  with ok show ?thesis by (blast intro: frame_close_ok read_thread_frame)
next
  case 7
  with ok show ?thesis by (blast intro: frame_close_ok read_thread_frame)
next
  case 8
  with ok show ?thesis by (blast intro: frame_close_ok write_thread_frame)
next
  case 9
  with ok show ?thesis by (blast intro: frame_close_ok write_thread_frame)
qed (use ok in \<open>auto simp: tcp_calls close_ok_def split: if_splits\<close>)

lemma tcp_reach_close_ok: "reach new_tcp tcp_client tcp_step es t \<Longrightarrow> close_ok t"
  by (erule reach_keeps) (simp add: close_ok_def new_tcp_def, rule close_ok_step)

text \<open>
  A thread that finds a request finds its handler: the branch of \<open>tcp_read_step\<close> and
  \<open>tcp_write_step\<close> for an empty handler is never reached.
\<close>

definition requests_ok :: "tcp_transport \<Rightarrow> bool" where
  "requests_ok t \<longleftrightarrow>
     (read_thread t \<noteq> Exited \<longrightarrow> read_requested t = (pending_read t \<noteq> None))
     \<and> (write_thread t \<noteq> Exited \<longrightarrow> write_requested t = (pending_write t \<noteq> None))"

lemma requests_ok_step:
  assumes ok: "close_ok t" "requests_ok t" and step: "tcp_step t e = Some t1"
  shows "requests_ok t1"
  using step
proof (cases rule: tcp_step_cases)
  case 4
  with ok show ?thesis
    by (auto simp: tcp_closing close_ok_def requests_ok_def split: closer.splits if_splits option.splits)
next
  case 6
  with ok(2) show ?thesis
    by (auto simp: tcp_reading requests_ok_def split: thread.splits if_splits option.splits read_work.splits)
next
  case 7
  with ok(2) show ?thesis
    by (auto simp: tcp_reading requests_ok_def split: thread.splits if_splits read_work.splits recv_result.splits)
next
  case 8
  with ok(2) show ?thesis
    by (auto simp: tcp_writing requests_ok_def split: thread.splits if_splits option.splits write_work.splits)
next
  case 9
  with ok(2) show ?thesis
    by (auto simp: tcp_writing requests_ok_def split: thread.splits if_splits write_work.splits send_result.splits)
qed (use ok(2) in \<open>auto simp: tcp_calls requests_ok_def split: if_splits\<close>)

lemma tcp_reach_requests_ok:
  assumes "reach new_tcp tcp_client tcp_step es t"
  shows "requests_ok t"
proof -
  have "close_ok t \<and> requests_ok t"
    using assms
  proof (rule reach_keeps)
    show "close_ok new_tcp \<and> requests_ok new_tcp"
      by (simp add: new_tcp_def close_ok_def requests_ok_def)
  qed (use close_ok_step requests_ok_step in blast)
  then show ?thesis ..
qed

text \<open>
  No wake-up is lost while the transport is open: the read thread does not sleep, nor is it about to,
  when a handler waits for it, and it ends only when the transport is not open any more.
\<close>

definition awake_ok :: "tcp_transport \<Rightarrow> bool" where
  "awake_ok t \<longleftrightarrow>
     (tcp_open t \<longrightarrow> tcp_fate t = Alive \<and> read_thread t \<noteq> Exited
        \<and> (pending_read t \<noteq> None \<longrightarrow> read_thread t \<noteq> Deciding \<and> read_thread t \<noteq> Asleep))"

lemma awake_ok_step:
  assumes ok: "close_ok t" "requests_ok t" "awake_ok t" and step: "tcp_step t e = Some t1"
  shows "awake_ok t1"
  using step
proof (cases rule: tcp_step_cases)
  case (1 h cap)
  with ok(3) show ?thesis
    by (cases "read_thread t") (auto simp: tcp_calls awake_ok_def notify_def split: if_splits)
next
  case 4
  with ok show ?thesis
    by (auto simp: tcp_closing close_ok_def awake_ok_def split: closer.splits if_splits option.splits)
next
  case 6
  with ok(2,3) show ?thesis
    by (auto simp: tcp_reading awake_ok_def requests_ok_def
        split: thread.splits if_splits option.splits read_work.splits)
next
  case 7
  with ok(3) show ?thesis
    by (auto simp: tcp_reading awake_ok_def split: thread.splits if_splits read_work.splits recv_result.splits)
next
  case 8
  with ok(3) show ?thesis
    by (auto simp: tcp_writing awake_ok_def split: thread.splits if_splits option.splits write_work.splits)
next
  case 9
  with ok(3) show ?thesis
    by (auto simp: tcp_writing awake_ok_def split: thread.splits if_splits write_work.splits send_result.splits)
qed (use ok(3) in \<open>auto simp: tcp_calls awake_ok_def split: if_splits\<close>)

lemma tcp_reach_awake_ok:
  assumes "reach new_tcp tcp_client tcp_step es t"
  shows "awake_ok t"
proof -
  have "(close_ok t \<and> requests_ok t) \<and> awake_ok t"
    using assms
  proof (rule reach_keeps)
    show "(close_ok new_tcp \<and> requests_ok new_tcp) \<and> awake_ok new_tcp"
      by (simp add: new_tcp_def close_ok_def requests_ok_def awake_ok_def)
  qed (use close_ok_step requests_ok_step awake_ok_step in blast)
  then show ?thesis ..
qed

text \<open>
  The read thread attends to the outstanding read: it has the handler in \<open>recv\<close> or in the branch after
  it, or it is about to evaluate its predicate and will find the request, so that at most two of its own
  steps, which nothing blocks, take it into \<open>recv\<close>.
\<close>

definition tcp_attending :: "tcp_transport \<Rightarrow> bool" where
  "tcp_attending t \<longleftrightarrow> tcp_fate t = Alive
     \<and> (case read_thread t of
          Working w \<Rightarrow> True
        | Top \<Rightarrow> read_requested t \<and> pending_read t \<noteq> None
        | Checking \<Rightarrow> read_requested t \<and> pending_read t \<noteq> None
        | _ \<Rightarrow> False)"

lemma attending_receives:
  assumes "tcp_attending t" and "tcp_open t"
  shows "\<exists>k\<le>2. \<exists>t1 w. run_option (\<lambda>_ _. True) tcp_step t (replicate k TcpReader) = Some t1
    \<and> read_thread t1 = Working w"
proof (cases "read_thread t")
  case (Working w)
  then show ?thesis by (intro exI [of _ 0]) simp
next
  case Top
  with assms show ?thesis
    by (intro exI [of _ 2]) (auto simp: tcp_attending_def tcp_step_def tcp_read_step_def numeral_2_eq_2)
next
  case Checking
  with assms show ?thesis
    by (intro exI [of _ 1]) (auto simp: tcp_attending_def tcp_step_def tcp_read_step_def)
qed (use assms in \<open>simp_all add: tcp_attending_def\<close>)

lemma open_read_attended:
  assumes "reach new_tcp tcp_client tcp_step es t" and "tcp_open t" and "tcp_reads t \<noteq> {#}"
  shows "tcp_attending t"
  using tcp_reach_awake_ok [OF assms(1)] tcp_reach_requests_ok [OF assms(1)] assms(2,3)
  by (cases "read_thread t") (auto simp: awake_ok_def requests_ok_def tcp_attending_def tcp_reads_def)

text \<open>A thread that is about to report an error has marked the transport as not open.\<close>

definition reports_ok :: "tcp_transport \<Rightarrow> bool" where
  "reports_ok t \<longleftrightarrow>
     (tcp_open t \<longrightarrow> (\<forall>h err. read_thread t \<noteq> Working (RecvReport h err))
        \<and> (\<forall>h. write_thread t \<noteq> Working (SendReport h)))"

lemma reports_ok_step:
  assumes ok: "reports_ok t" and step: "tcp_step t e = Some t1"
  shows "reports_ok t1"
  using step
proof (cases rule: tcp_step_cases)
  case 4
  with ok show ?thesis
    by (auto simp: tcp_closing reports_ok_def split: closer.splits if_splits option.splits)
next
  case 6
  with ok show ?thesis
    by (auto simp: tcp_reading reports_ok_def split: thread.splits if_splits option.splits read_work.splits)
next
  case 7
  with ok show ?thesis
    by (auto simp: tcp_reading reports_ok_def split: thread.splits if_splits read_work.splits recv_result.splits)
next
  case 8
  with ok show ?thesis
    by (auto simp: tcp_writing reports_ok_def split: thread.splits if_splits option.splits write_work.splits)
next
  case 9
  with ok show ?thesis
    by (auto simp: tcp_writing reports_ok_def split: thread.splits if_splits write_work.splits send_result.splits)
qed (use ok in \<open>auto simp: tcp_calls reports_ok_def split: if_splits\<close>)

lemma tcp_reach_reports_ok: "reach new_tcp tcp_client tcp_step es t \<Longrightarrow> reports_ok t"
  by (erule reach_keeps) (simp add: reports_ok_def new_tcp_def, rule reports_ok_step)

text \<open>
  When \<open>close\<close> returns, everything is over. A \<open>close\<close> that found the transport open has
  joined both threads and closed the descriptor when it returns, and no handler is left
  behind: each one that was passed in has been posted, or was lost to a failing \<open>recv\<close>.
\<close>

theorem tcp_close_completes:
  assumes "reach new_tcp tcp_client tcp_step es t" and "tcp_joined t" and "caller_free t"
  shows "tcp_held t = {#} \<and> \<not> tcp_fd t \<and> read_thread t = Exited \<and> write_thread t = Exited"
  using tcp_reach_close_ok [OF assms(1)] assms(2,3)
  by (auto simp: close_ok_def caller_free_def tcp_held_def tcp_reads_def tcp_writes_def)

section \<open>A connection that the peer closes\<close>

text \<open>No longer open, but \<open>close\<close> was not the one that changed that.\<close>

definition abandoned :: "tcp_transport \<Rightarrow> bool" where
  "abandoned t \<longleftrightarrow> \<not> tcp_open t \<and> tcp_closer t = CloserIdle \<and> tcp_fd t \<and> \<not> tcp_joined t
     \<and> tcp_fate t \<noteq> Destroyed"

lemma abandoned_step:
  assumes "abandoned t" and "tcp_step t e = Some t1"
  shows "abandoned t1"
  using assms(2)
  by (cases rule: tcp_step_cases)
     (use assms(1) in \<open>auto simp: abandoned_def tcp_calls tcp_close_step_def read_frame_def write_frame_def
        dest!: read_thread_frame write_thread_frame split: if_splits\<close>)

text \<open>
  C29. A connection that the peer closes cannot be shut down any more. After \<open>recv\<close> has
  reported the end of the stream, no later call of \<open>close\<close> has any effect: the descriptor
  stays open and the threads are never joined, whatever happens next, and the destructor of
  the transport terminates the process.
\<close>

theorem peer_close_is_fatal:
  assumes "reach new_tcp tcp_client tcp_step es t" and "tcp_open t"
    and "tcp_step t (TcpRecv RecvEof) = Some t1" and "run_option tcp_client tcp_step t1 fs = Some t2"
  shows "tcp_fd t2 \<and> \<not> tcp_joined t2
    \<and> (if tcp_fate t2 = Alive then tcp_step t2 TcpDestroy = Some (t2\<lparr>tcp_fate := Terminated\<rparr>)
       else tcp_fate t2 = Terminated)"
proof -
  have "close_ok t" by (rule tcp_reach_close_ok [OF assms(1)])
  then have "abandoned t1"
    using assms(2,3)
    by (auto simp: tcp_step_def tcp_recv_returns_def tcp_post_def close_ok_def abandoned_def
        split: if_splits thread.splits read_work.splits closer.splits)
  from run_keeps [OF assms(4), of abandoned, OF this] have "abandoned t2"
    using abandoned_step by blast
  then show ?thesis
    by (cases "tcp_fate t2")
       (auto simp: abandoned_def tcp_step_def caller_free_def tcp_destroy_def)
qed

section \<open>What is sent\<close>

fun unsent :: "write_work thread \<Rightarrow> bytes" where
  "unsent (Working (SendLoop h data n)) = drop n data"
| "unsent (Working (InSend h data n)) = drop n data"
| "unsent _ = []"

fun send_failed :: "write_work thread \<Rightarrow> bool" where
  "send_failed (Working (SendFailed h)) = True"
| "send_failed (Working (SendReport h)) = True"
| "send_failed _ = False"

definition pending_data :: "tcp_transport \<Rightarrow> bytes" where
  "pending_data t = (case pending_write t of None \<Rightarrow> [] | Some (h, data) \<Rightarrow> data)"

definition tcp_written :: "tcp_event list \<Rightarrow> bytes" where
  "tcp_written es = concat (map (\<lambda>e. case e of TcpWrite h data \<Rightarrow> data | _ \<Rightarrow> []) es)"

lemma tcp_written_snoc: "tcp_written (es @ [e]) = tcp_written es @ (case e of TcpWrite h data \<Rightarrow> data | _ \<Rightarrow> [])"
  by (simp add: tcp_written_def)

lemma unsent_notify [simp]: "unsent (notify w) = unsent w" "send_failed (notify w) = send_failed w"
  by (cases w; simp add: notify_def)+

lemma idle_writer:
  assumes "thread_holds write_work_token w = {#}"
  shows "unsent w = [] \<and> \<not> send_failed w"
proof (cases w)
  case (Working x)
  with assms show ?thesis by (cases x) simp_all
qed simp_all

definition in_order :: "bytes \<Rightarrow> tcp_transport \<Rightarrow> bool" where
  "in_order ws t \<longleftrightarrow>
     (\<exists>rest. tcp_sent t @ unsent (write_thread t) @ rest = ws
        \<and> (tcp_open t \<and> \<not> send_failed (write_thread t) \<longrightarrow> rest = pending_data t))"

lemma in_order_sent:
  assumes "in_order ws t" and "tcp_sent t1 = tcp_sent t @ x"
    and "unsent (write_thread t) = x @ unsent (write_thread t1)"
    and "tcp_open t1 \<and> \<not> send_failed (write_thread t1) \<longrightarrow>
      tcp_open t \<and> \<not> send_failed (write_thread t) \<and> pending_data t1 = pending_data t"
  shows "in_order ws t1"
  using assms by (auto simp: in_order_def)

lemmas in_order_idle = in_order_sent [where x = "[]", simplified]

lemma write_step_in_order:
  assumes "tcp_write_step t = Some t1" and "in_order ws t" and "reports_ok t"
  shows "in_order ws t1"
  using assms
  by (auto simp: tcp_writing in_order_def pending_data_def reports_ok_def
      split: thread.splits if_splits option.splits write_work.splits)

lemma send_in_order:
  assumes "tcp_send_returns res t = Some t1" and "in_order ws t"
  shows "in_order ws t1"
proof (cases "\<exists>k. res = Sent k")
  case True
  then obtain k where k: "res = Sent k" by blast
  have "drop n d = take k (drop n d) @ drop (n + k) d" for n and d :: bytes
    by (metis add.commute append_take_drop_id drop_drop)
  then show ?thesis
    using assms(1) k in_order_sent [OF assms(2), of t1 "take k (unsent (write_thread t))"]
    by (auto simp: tcp_writing pending_data_def split: thread.splits if_splits write_work.splits)
next
  case False
  with assms show ?thesis
    by (auto simp: tcp_writing in_order_def pending_data_def
        split: thread.splits write_work.splits send_result.splits)
qed

lemma in_order_step:
  assumes ok: "close_ok t" "reports_ok t" and client: "tcp_client t e" and step: "tcp_step t e = Some t1"
    and order: "in_order ws t"
  shows "in_order (ws @ (case e of TcpWrite h data \<Rightarrow> data | _ \<Rightarrow> [])) t1"
  using step
proof (cases rule: tcp_step_cases)
  case (1 h cap)
  with in_order_idle [OF order, of t1] show ?thesis
    by (auto simp: tcp_calls pending_data_def split: if_splits)
next
  case (2 h data)
  with client have idle: "pending_write t = None" "unsent (write_thread t) = []" "\<not> send_failed (write_thread t)"
    using idle_writer by (auto simp: tcp_client_def tcp_writes_def)
  with 2 order show ?thesis
    by (auto simp: tcp_calls in_order_def pending_data_def split: if_splits)
next
  case 4
  with ok(1) have "\<not> tcp_open t1" "tcp_sent t1 = tcp_sent t" "unsent (write_thread t1) = unsent (write_thread t)"
    by (auto simp: tcp_closing close_ok_def split: closer.splits if_splits option.splits)
  with 4 in_order_idle [OF order] show ?thesis by simp
next
  case 6
  then show ?thesis
    using in_order_idle [OF order, of t1] read_thread_frame(1) [of t t1]
    by (auto simp: read_frame_def pending_data_def)
next
  case (7 res)
  then show ?thesis
    using in_order_idle [OF order, of t1] read_thread_frame(2) [of res t t1]
    by (auto simp: read_frame_def pending_data_def)
next
  case 8
  then show ?thesis using write_step_in_order order ok(2) by simp
next
  case 9
  then show ?thesis using send_in_order order by simp
next
  case 3
  then have "in_order ws t1" by (intro in_order_idle [OF order]) (auto simp: tcp_close_def pending_data_def)
  with 3 show ?thesis by simp
next
  case 5
  then have "in_order ws t1" by (intro in_order_idle [OF order]) (auto simp: tcp_destroy_def pending_data_def)
  with 5 show ?thesis by simp
next
  case 10
  then have "in_order ws t1" by (intro in_order_idle [OF order]) (auto simp: pending_data_def)
  with 10 show ?thesis by simp
next
  case 11
  then have "in_order ws t1" by (intro in_order_idle [OF order]) (auto simp: pending_data_def)
  with 11 show ?thesis by simp
qed

lemma tcp_reach_in_order: "reach new_tcp tcp_client tcp_step es t \<Longrightarrow> in_order (tcp_written es) t"
proof (induction rule: reach.induct)
  case reach_start
  then show ?case by (simp add: in_order_def new_tcp_def tcp_written_def pending_data_def)
next
  case (reach_step es t e t1)
  then show ?case
    using in_order_step [OF tcp_reach_close_ok [OF reach_step(1)] tcp_reach_reports_ok [OF reach_step(1)]] by (simp add: tcp_written_snoc)
qed

lemma in_order_prefix:
  assumes "in_order ws t"
  shows "prefix (tcp_sent t) ws" and "tcp_open t \<Longrightarrow> tcp_writes t = {#} \<Longrightarrow> tcp_sent t = ws"
proof -
  obtain rest where r: "tcp_sent t @ unsent (write_thread t) @ rest = ws"
      "tcp_open t \<and> \<not> send_failed (write_thread t) \<longrightarrow> rest = pending_data t"
    using assms by (auto simp: in_order_def)
  then show "prefix (tcp_sent t) ws" by (metis prefixI)
  assume "tcp_open t" and "tcp_writes t = {#}"
  with r(2) have "rest = [] \<and> unsent (write_thread t) = []"
    using idle_writer [of "write_thread t"] by (auto simp: tcp_writes_def pending_data_def)
  with r(1) show "tcp_sent t = ws" by simp
qed

text \<open>
  C37. The peer receives what was written, in order. At any moment, what the socket has
  accepted is a prefix of the concatenation of all buffers passed to \<open>async_write\<close>; and
  while the transport is open with no write outstanding, it is all of it, however the
  kernel splits the buffers and interrupts the calls.
\<close>

theorem tcp_sends_in_order:
  assumes "reach new_tcp tcp_client tcp_step es t"
  shows "prefix (tcp_sent t) (tcp_written es)
    \<and> (tcp_open t \<and> tcp_writes t = {#} \<longrightarrow> tcp_sent t = tcp_written es)"
  using in_order_prefix [OF tcp_reach_in_order [OF assms]] by blast

section \<open>Runs\<close>

definition tcp_run :: "tcp_event list \<Rightarrow> tcp_transport option" where
  "tcp_run es = run_option tcp_client tcp_step new_tcp es"

lemmas tcp_eval = tcp_run_def tcp_step_def tcp_client_def caller_free_def tcp_calls tcp_closing tcp_reading
  tcp_writing tcp_reads_def tcp_writes_def new_tcp_def notify_def

lemma tcp_run_reach: "tcp_run es = Some t \<Longrightarrow> reach new_tcp tcp_client tcp_step es t"
  by (simp add: tcp_run_def run_reach)

text \<open>A write that the kernel takes in two parts; then the peer closes.\<close>

definition two_part_write :: "tcp_event list" where
  "two_part_write =
     [TcpWrite 1 [5, 6], TcpWriter, TcpWriter, TcpWriter, TcpSend (Sent 1), TcpWriter, TcpSend (Sent 1),
      TcpWriter, TcpRead 2 10, TcpReader, TcpReader]"

definition two_part_state :: tcp_transport where
  "two_part_state = new_tcp\<lparr>read_thread := Working (InRecv 2 10), tcp_sent := [5, 6],
     tcp_posted := [WriteDone 1 None 2]\<rparr>"

lemma two_part_run: "tcp_run two_part_write = Some two_part_state"
  by (simp add: two_part_write_def two_part_state_def tcp_eval)

definition orderly_close :: "tcp_event list" where
  "orderly_close =
     [TcpRead 7 10, TcpReader, TcpReader, TcpClose, TcpCloser, TcpCloser, TcpRecv RecvEof, TcpReader, TcpReader,
      TcpWriter, TcpCloser, TcpCloser, TcpCloser]"

definition closed_state :: tcp_transport where
  "closed_state = new_tcp\<lparr>tcp_open := False, tcp_fd := False, read_thread := Exited,
     write_thread := Exited, tcp_joined := True, tcp_posted := [ReadDone 7 (Some EndOfFile) []]\<rparr>"

lemma orderly_run: "tcp_run orderly_close = Some closed_state"
  by (simp add: orderly_close_def closed_state_def tcp_eval)

theorem tcp_completes_at_most_once_witness:
  "tcp_completed two_part_state + tcp_held two_part_state \<subseteq># all_issued tcp_issued two_part_write"
  using tcp_completes_at_most_once [OF tcp_run_reach [OF two_part_run]] .

theorem tcp_close_completes_witness:
  "tcp_held closed_state = {#} \<and> \<not> tcp_fd closed_state \<and> tcp_completed closed_state = {#ReadToken 7#}"
  using tcp_close_completes [OF tcp_run_reach [OF orderly_run]]
  by (simp add: closed_state_def caller_free_def new_tcp_def tcp_completed_def)

theorem tcp_sends_in_order_witness:
  "tcp_sent two_part_state = [5, 6] \<and> prefix (tcp_sent two_part_state) (tcp_written two_part_write)"
  using tcp_sends_in_order [OF tcp_run_reach [OF two_part_run]]
  by (simp add: two_part_state_def)

definition peer_closed_state :: tcp_transport where
  "peer_closed_state = two_part_state\<lparr>tcp_open := False,
     read_thread := Working (RecvReport 2 EndOfFile)\<rparr>"

definition abandoned_state :: tcp_transport where
  "abandoned_state = peer_closed_state\<lparr>read_thread := Exited,
     tcp_posted := [WriteDone 1 None 2, ReadDone 2 (Some EndOfFile) []]\<rparr>"

lemma peer_closes: "tcp_step two_part_state (TcpRecv RecvEof) = Some peer_closed_state"
  by (simp add: two_part_state_def peer_closed_state_def tcp_eval)

lemma then_close: "run_option tcp_client tcp_step peer_closed_state [TcpReader, TcpReader, TcpClose] = Some abandoned_state"
  by (simp add: two_part_state_def peer_closed_state_def abandoned_state_def tcp_eval)

theorem peer_close_is_fatal_witness:
  "tcp_fd abandoned_state \<and> \<not> tcp_joined abandoned_state
    \<and> tcp_step abandoned_state TcpDestroy = Some (abandoned_state\<lparr>tcp_fate := Terminated\<rparr>)"
  using peer_close_is_fatal [OF tcp_run_reach [OF two_part_run] _ peer_closes then_close]
  by (simp add: abandoned_state_def peer_closed_state_def two_part_state_def new_tcp_def)

text \<open>A handler that is never called: \<open>close\<close> comes between the wait and a \<open>recv\<close> that fails.\<close>

lemma tcp_close_can_lose_read:
  "\<exists>t. tcp_run [TcpRead 7 10, TcpReader, TcpReader, TcpClose, TcpCloser, TcpCloser, TcpRecv RecvError,
      TcpReader, TcpWriter, TcpCloser, TcpCloser, TcpCloser] = Some t
    \<and> tcp_joined t \<and> caller_free t \<and> tcp_posted t = [] \<and> tcp_held t = {#}"
  by (simp add: tcp_eval tcp_held_def)

text \<open>A write that is reported complete although its second half was never sent.\<close>

lemma tcp_close_can_cut_write:
  "\<exists>t. tcp_run [TcpWrite 1 [5, 6], TcpWriter, TcpWriter, TcpWriter, TcpSend (Sent 1), TcpClose, TcpWriter] = Some t
    \<and> tcp_posted t = [WriteDone 1 None 2] \<and> tcp_sent t = [5]"
  by (simp add: tcp_eval)

text \<open>
  C40. Closing can wait for ever. \<open>close\<close> changes the flag and notifies without holding the
  mutex: a read thread that has found its predicate false, but does not sleep yet, misses
  the notification. There is a reachable state in which the caller waits to join the read
  thread, and nothing can happen any more but a spurious wake-up.
\<close>

theorem tcp_close_can_hang:
  "\<exists>es t. reach new_tcp tcp_client tcp_step es t \<and> tcp_closer t = JoinRead
    \<and> {e. tcp_step t e \<noteq> None} = {TcpWakeReader}"
proof -
  let ?es = "[TcpReader, TcpReader, TcpClose, TcpCloser, TcpCloser, TcpReader, TcpWriter]"
  let ?t = "new_tcp\<lparr>tcp_open := False, tcp_fd := False, read_thread := Asleep, write_thread := Exited,
    tcp_closer := JoinRead\<rparr>"
  have "tcp_run ?es = Some ?t" by (simp add: tcp_eval)
  then have "reach new_tcp tcp_client tcp_step ?es ?t" by (rule tcp_run_reach)
  moreover have "tcp_step ?t e \<noteq> None \<longleftrightarrow> e = TcpWakeReader" for e
    by (cases e) (simp_all add: tcp_eval)
  ultimately show ?thesis by fastforce
qed

end
