(* ===== verification/Sending.thy ===== *)
theory Sending
  imports Session_Handshake
begin

text \<open>
  What a session puts on the wire, message by message. A message leaves the encoder as one outbound
  frame, and \<open>Framer::encode\<close> cuts it into wire frames that \<open>Session::enqueue_write\<close> takes one at a
  time, dropping what the full queue has no room for. So the stream of a session is a sequence of
  outbound frames, each of them whole or cut at its end, and cut only by a full queue.
\<close>

section \<open>Whole and cut outbound frames\<close>

text \<open>An outbound frame, with the number of its wire frames that the queue had room for.\<close>

type_synonym sent_frame = "outbound_frame \<times> nat"

definition kept_wires :: "sent_frame \<Rightarrow> bytes list" where
  "kept_wires m = take (snd m) (framer_encode (fst m))"

definition kept_fragments :: "sent_frame \<Rightarrow> aap_fragment list" where
  "kept_fragments m = take (snd m) (fragments_of (fst m))"

definition whole :: "sent_frame \<Rightarrow> bool" where
  "whole m \<longleftrightarrow> length (framer_encode (fst m)) \<le> snd m"

definition unfragmented :: "sent_frame \<Rightarrow> bool" where
  "unfragmented m \<longleftrightarrow> out_flags (fst m) AND 3 = 3"

definition sends :: "sent_frame list \<Rightarrow> bytes list \<Rightarrow> bool" where
  "sends ms ws \<longleftrightarrow> ws = concat (map kept_wires ms) \<and> (\<forall>m\<in>set ms. unfragmented m)"

definition queue_full :: "('c, 'v) session \<Rightarrow> bool" where
  "queue_full s \<longleftrightarrow> length (ss_write_queue s) = kMaxWriteQueueSize"

text \<open>The stream so far; with \<open>lossy\<close>, some frame may have been cut before.\<close>

definition streams :: "bool \<Rightarrow> ('c, 'v) session \<Rightarrow> bool" where
  "streams lossy s \<longleftrightarrow> session_ok s
     \<and> (\<exists>ms. sends ms (accepted s) \<and> (lossy \<or> queue_full s \<or> (\<forall>m\<in>set ms. whole m)))"

lemma streams_enqueue:
  assumes "out_flags frame AND 3 = 3" and "streams lossy s"
  shows "streams lossy (foldl enqueue_write s (framer_encode frame))"
proof -
  let ?k = "kMaxWriteQueueSize - length (ss_write_queue s)" and ?s = "foldl enqueue_write s (framer_encode frame)"
  obtain ms where ms: "sends ms (accepted s)" "lossy \<or> queue_full s \<or> (\<forall>m\<in>set ms. whole m)" and ok: "session_ok s"
    using assms(2) by (auto simp: streams_def)
  have "sends (ms @ [(frame, ?k)]) (accepted ?s)"
    using ms(1) assms(1) by (simp add: sends_def accepted_enqueue_all [OF ok] kept_wires_def unfragmented_def)
  moreover have "queue_full ?s \<or> whole (frame, ?k) \<and> \<not> queue_full s"
    using ok write_queue.enq_all_prefix [of s "framer_encode frame"]
    by (auto simp: queue_full_def whole_def session_ok_def)
  ultimately show ?thesis
    using ms(2) enqueue_all_ok [OF ok, of "framer_encode frame"] by (auto simp: streams_def intro!: exI)
qed

lemma queue_error [simp]: "ss_write_queue (handle_error vops ec s) = ss_write_queue s"
  by (cases "is_terminal (ss_state s)") (simp_all add: handle_error_live)

lemma streams_data:
  "session_ok s' \<Longrightarrow> accepted s' = accepted s \<Longrightarrow> ss_write_queue s' = ss_write_queue s \<Longrightarrow>
   streams lossy s \<Longrightarrow> streams lossy s'"
  by (simp add: streams_def queue_full_def)

lemma queue_update [simp]: "ss_write_queue (update_service ch v s) = ss_write_queue s"
  by (simp add: update_service_def)

lemma quiet_streams: "quiet vops s s' \<Longrightarrow> streams lossy s \<Longrightarrow> streams lossy s'"
proof (induction rule: quiet.induct)
  case (quiet_enqueue frame s)
  then show ?case by (simp add: streams_enqueue)
qed (auto intro!: streams_data elim!: quiet_step_ok [OF quiet.intros(1)] quiet_step_ok [OF quiet.intros(3)]
    simp: streams_def handle_error_ok queue_full_def)

lemma micro_streams: "micro vops s s' \<Longrightarrow> streams lossy s \<Longrightarrow> streams lossy s'"
proof -
  assume "micro vops s s'" and "streams lossy s"
  moreover from this have "session_ok s'" by (auto simp: streams_def intro: micro_step_ok)
  ultimately show ?thesis
    by (induction rule: micro.induct)
       (auto simp: quiet_streams start_state_timer_def transition_to_def complete_disconnect_def
          intro: streams_data)
qed

text \<open>The completion of a write takes a frame off the queue, which may have been full.\<close>

lemma streams_written:
  assumes "streams lossy s" and "ss_write_in_progress s"
  shows "streams (lossy \<or> queue_full s) (do_write_next (s\<lparr>ss_write_queue := tl (ss_write_queue s)\<rparr>))"
proof -
  let ?s = "do_write_next (s\<lparr>ss_write_queue := tl (ss_write_queue s)\<rparr>)"
  have "session_ok ?s"
    using assms session_step_ok [of s "(0, EvWrite None)" env for env]
    by (simp add: streams_def session_step_def session_enabled_def on_write_complete_def)
  with assms show ?thesis by (auto simp: streams_def accepted_written)
qed

lemma streams_step:
  assumes "streams lossy s" and "session_enabled s te"
  shows "streams (lossy \<or> queue_full s) (session_step env s te)"
proof (cases "snd te = EvWrite None")
  case True
  then show ?thesis
    using assms streams_written
    by (simp add: session_step_def session_enabled_def on_write_complete_def Let_def)
next
  case False
  obtain now e where te: "te = (now, e)" by (cases te)
  from False have "e \<noteq> EvWrite None" by (simp add: te)
  then obtain s1 where s1: "(micro (env_services env now))\<^sup>*\<^sup>* s s1"
    "(micro (env_services env now))\<^sup>*\<^sup>* (if reads_on e then start_read s1 else s1)
       (session_step env s (now, e))"
    by (rule session_step_shape)
  have "streams lossy s1"
    using s1(1) assms(1) by (rule micro_preserves [where P = "streams lossy"]) (rule micro_streams)
  then have "streams lossy (if reads_on e then start_read s1 else s1)"
    by (auto simp: start_read_def streams_def session_ok_def queue_full_def)
  with s1(2) have "streams lossy (session_step env s (now, e))"
    by (rule micro_preserves [where P = "streams lossy"]) (rule micro_streams)
  then show ?thesis by (auto simp: te streams_def)
qed

section \<open>What a run sends\<close>

lemma streams_run:
  "streams True s \<Longrightarrow> run_enabled session_enabled (session_step env) s es \<Longrightarrow>
   streams True (run_events (session_step env) s es)"
proof (induction es arbitrary: s)
  case (Cons e es)
  then show ?case using streams_step [of True s e env] by simp
qed simp

lemma streams_run_whole:
  "streams False s \<Longrightarrow> run_enabled session_enabled (session_step env) s es \<Longrightarrow>
   (\<And>n. n \<le> length es \<Longrightarrow> \<not> queue_full (run_events (session_step env) s (take n es))) \<Longrightarrow>
   streams False (run_events (session_step env) s es)"
proof (induction es arbitrary: s)
  case (Cons e es)
  have room: "\<not> queue_full (run_events (session_step env) (session_step env s e) (take n es))"
    if "n \<le> length es" for n
    using Cons.prems(3) [of "Suc n"] that by simp
  have "\<not> queue_full s" using Cons.prems(3) [of 0] by simp
  with Cons.prems(1,2) have "streams False (session_step env s e)"
    using streams_step [of False s e env] by simp
  with Cons.IH Cons.prems(2) room show ?case by simp
qed simp

lemma session_with_streams: "streams lossy (session_with cfg c svcs)"
proof -
  have "ss_log (foldl (\<lambda>s kv. register_service (fst kv) (snd kv) s) s svcs) = ss_log s
      \<and> ss_write_queue (foldl (\<lambda>s kv. register_service (fst kv) (snd kv) s) s svcs) = ss_write_queue s"
    for s :: "('a, 'b) session"
    by (induction svcs arbitrary: s) (simp_all add: register_service_def)
  then have "accepted (session_with cfg c svcs) = []"
    by (simp add: session_with_def new_session_def accepted_def waiting_def)
  then show ?thesis by (auto simp: streams_def sends_def session_with_ok intro!: exI [where x = "[]"])
qed

lemma whole_kept: "whole m \<Longrightarrow> kept_wires m = framer_encode (fst m)"
  by (simp add: whole_def kept_wires_def)

text \<open>
  C18. A session sends whole messages as long as its queue has room. What a session has accepted for
  sending, in any run, is a sequence of outbound frames, each encoded by \<open>Framer::encode\<close> and
  perhaps cut at its end; and if the write queue is not full after any event of the run, it is
  exactly the encodings of these frames, one after the other, with no wire frame missing.
\<close>

theorem session_sends_whole_messages:
  assumes "run_enabled session_enabled (session_step env) (session_with cfg c svcs) es"
  defines "after n \<equiv> run_events (session_step env) (session_with cfg c svcs) (take n es)"
  shows "(\<exists>ms. sends ms (accepted (after (length es))))
    \<and> ((\<forall>n\<le>length es. length (ss_write_queue (after n)) < 256) \<longrightarrow>
       (\<exists>frames. accepted (after (length es)) = concat (map framer_encode frames)
          \<and> (\<forall>frame\<in>set frames. out_flags frame AND 3 = 3)))"
proof (intro conjI impI)
  show "\<exists>ms. sends ms (accepted (after (length es)))"
    using streams_run [OF session_with_streams assms(1)] by (simp add: streams_def after_def)
  assume room: "\<forall>n\<le>length es. length (ss_write_queue (after n)) < 256"
  then have "streams False (after (length es))"
    using streams_run_whole [OF session_with_streams assms(1)]
    by (simp add: after_def queue_full_def kMaxWriteQueueSize_def less_imp_neq)
  with room obtain ms where "sends ms (accepted (after (length es)))" "\<forall>m\<in>set ms. whole m"
    by (auto simp: streams_def queue_full_def kMaxWriteQueueSize_def)
  then have "accepted (after (length es)) = concat (map framer_encode (map fst ms))"
    "\<forall>frame\<in>set (map fst ms). out_flags frame AND 3 = 3"
    by (auto simp: sends_def unfragmented_def whole_kept intro!: arg_cong [where f = concat])
  then show "\<exists>frames. accepted (after (length es)) = concat (map framer_encode frames)
      \<and> (\<forall>frame\<in>set frames. out_flags frame AND 3 = 3)" by blast
qed

text \<open>The run starts the session, sends two messages and times out; its queue never holds three frames.\<close>

lemma demo_room:
  "n \<le> length demo_run \<Longrightarrow>
   length (ss_write_queue (run_events (session_step demo_env) demo_session (take n demo_run))) < 256"
proof -
  assume "n \<le> length demo_run"
  then have "n \<in> {0, 1, 2, 3, 4, 5, 6}" by (auto simp: demo_run_def)
  then show ?thesis
    by (elim insertE) (simp_all add: session_eval demo_eval)
qed

theorem session_sends_whole_messages_witness:
  "\<exists>frames. accepted (run_events (session_step demo_env) demo_session demo_run) = concat (map framer_encode frames)
     \<and> (\<forall>frame\<in>set frames. out_flags frame AND 3 = 3)"
  using session_sends_whole_messages [OF demo_enabled [unfolded demo_session_def]] demo_room [unfolded demo_session_def]
  by (simp add: demo_session_def)

lemma enqueue_all_errors: "error_reports (ss_log (foldl enqueue_write s ws)) = error_reports (ss_log s)"
proof (induction ws arbitrary: s)
  case (Cons w ws)
  have "error_reports (ss_log (enqueue_write s w)) = error_reports (ss_log s)"
    by (simp add: enqueue_write_def do_write_next_def Let_def split: list.split)
  with Cons.IH show ?case by simp
qed simp

text \<open>
  C30. A full queue cuts a message and nobody is told. When the wire frames of a message do not all fit
  in the write queue, the last ones are dropped: the rest of the message is sent without them, no
  error is reported, the session stays in its state, and the crypto strategy has counted the lost
  records as sent.
\<close>

theorem full_queue_cuts_message:
  assumes "session_ok s" and "encoder_send_message ops ch t p (ss_crypto s) = (c, Inr ws)"
    and "256 < length (ss_write_queue s) + length ws"
  shows "let s' = send_message ops vops ch t p s; room = 256 - length (ss_write_queue s) in
    accepted s' = accepted s @ take room ws \<and> room < length ws
    \<and> error_reports (ss_log s') = error_reports (ss_log s) \<and> ss_state s' = ss_state s \<and> ss_crypto s' = c"
proof -
  have "session_ok (s\<lparr>ss_crypto := c\<rparr>)" using assms(1) by (simp add: session_ok_def)
  moreover have "length (ss_write_queue s) \<le> 256" using assms(1) by (simp add: session_ok_def kMaxWriteQueueSize_def)
  ultimately show ?thesis
    using assms(2,3)
    by (simp add: send_message_def accepted_enqueue_all enqueue_all_errors kMaxWriteQueueSize_def Let_def)
qed

definition busy_session :: "(mock_crypto, service) session" where
  "busy_session = (new_session demo_config \<lparr>mock_established = True\<rparr>)
     \<lparr>ss_state := Running, ss_write_queue := replicate 255 [0], ss_write_in_progress := True,
      ss_log := [ToObserverState Running]\<rparr>"

lemma busy_session_ok: "session_ok busy_session"
  by (simp add: busy_session_def session_ok_def new_session_def kMaxWriteQueueSize_def needs_timer_def
      is_terminal_def log_defs)

theorem full_queue_cuts_message_witness:
  "\<exists>ws. length ws = 2
    \<and> accepted (send_message mock_ops (aap_services sample_codec 0) 3 0 (replicate 20000 7) busy_session) =
        accepted busy_session @ take 1 ws"
proof -
  obtain c ws where enc: "encoder_send_message mock_ops 3 0 (replicate 20000 7) (ss_crypto busy_session) = (c, Inr ws)"
      "length ws = 2"
    by (auto simp: busy_session_def new_session_def encoder_send_message_def encrypt_and_queue_frame_def mock_ops_def
        mock_encrypt_def framer_encode_def kMaxFramePayloadSize_def encode_loop_count)
  have "length (ss_write_queue busy_session) = 255" by (simp add: busy_session_def)
  with full_queue_cuts_message [OF busy_session_ok enc(1), where vops = "aap_services sample_codec 0"] enc(2)
  show ?thesis by (auto simp: Let_def)
qed

section \<open>What the receiver parses\<close>

text \<open>A wire frame that the receive path takes off the front of any stream.\<close>

definition parses_as :: "bytes \<Rightarrow> aap_fragment \<Rightarrow> bool" where
  "parses_as w f \<longleftrightarrow>
     (\<forall>fr rest. try_parse_fragment (fr\<lparr>recv_buffer := w @ rest\<rparr>) = Some (fr\<lparr>recv_buffer := rest\<rparr>, f))"

lemma parses_asD:
  assumes "parses_as w f"
  shows "try_parse_fragment \<lparr>recv_buffer = w @ rest\<rparr> = Some (\<lparr>recv_buffer = rest\<rparr>, f)"
proof -
  have "try_parse_fragment (new_framer\<lparr>recv_buffer := w @ rest\<rparr>) = Some (new_framer\<lparr>recv_buffer := rest\<rparr>, f)"
    using assms by (simp add: parses_as_def)
  then show ?thesis by (simp add: new_framer_def)
qed

lemma encode_parses: "out_flags frame AND 3 = 3 \<Longrightarrow> list_all2 parses_as (framer_encode frame) (fragments_of frame)"
proof -
  have "16384 < length (out_payload frame) \<Longrightarrow> list_all2 parses_as (encode_loop frame off) (chunk_fragments frame off)" for off
  proof (induction frame off rule: encode_loop.induct)
    case (1 frame off)
    then show ?case
      by (simp add: encode_loop.simps [of frame off] chunk_fragments.simps [of frame off]
          parses_as_def parse_encode_chunk)
  qed
  moreover assume "out_flags frame AND 3 = 3"
  ultimately show ?thesis
    by (simp add: framer_encode_def fragments_of_def kMaxFramePayloadSize_def parses_as_def parse_encode_single)
qed

lemma whole_fragments:
  assumes "whole m" and "out_flags (fst m) AND 3 = 3"
  shows "kept_fragments m = fragments_of (fst m)"
proof -
  have "length (fragments_of (fst m)) = length (framer_encode (fst m))"
    using list_all2_lengthD [OF encode_parses [OF assms(2)]] by simp
  with assms(1) show ?thesis by (simp add: whole_def kept_fragments_def)
qed

lemma sends_parses:
  assumes "sends ms ws"
  shows "list_all2 parses_as ws (concat (map kept_fragments ms))"
proof -
  have "\<forall>m\<in>set ms. unfragmented m \<Longrightarrow>
      list_all2 parses_as (concat (map kept_wires ms)) (concat (map kept_fragments ms))"
    by (induction ms)
       (simp_all add: list_all2_appendI list_all2_takeI encode_parses kept_wires_def kept_fragments_def unfragmented_def)
  with assms show ?thesis by (simp add: sends_def)
qed

lemma cut_frame_waits:
  assumes "parses_as w f" and "strict_prefix bs w"
  shows "try_parse_fragment \<lparr>recv_buffer = bs\<rparr> = None"
proof -
  obtain rest where w: "w = bs @ rest" "rest \<noteq> []" using assms(2) by (auto elim: strict_prefixE')
  have whole: "total_frame_size w = length w"
    using parse_whole_frame [where fr = new_framer and w = w and f = f] parses_asD [OF assms(1), of "[]"] by (simp add: new_framer_def)
  show ?thesis
  proof (cases "length bs < 4")
    case False
    then have "total_frame_size bs = length w" using whole header_append(3) [of bs rest] by (simp add: w(1))
    with w show ?thesis by (simp add: try_parse_fragment_None)
  qed (simp add: try_parse_fragment_None)
qed

lemma parse_sent:
  assumes "list_all2 parses_as ws fs" and "prefix bs (concat ws)"
  shows "\<exists>n. snd (parse_loop \<lparr>recv_buffer = bs\<rparr>) = take n fs"
  using assms
proof (induction ws fs arbitrary: bs rule: list_all2_induct)
  case Nil
  then show ?case by (simp add: parse_loop_empty)
next
  case (Cons w ws f fs)
  show ?case
  proof (cases "prefix w bs")
    case True
    then obtain rest where bs: "bs = w @ rest" by (auto simp: prefix_def)
    with Cons.prems have "prefix rest (concat ws)" by simp
    then obtain n where n: "snd (parse_loop \<lparr>recv_buffer = rest\<rparr>) = take n fs" using Cons.IH by blast
    have "try_parse_fragment \<lparr>recv_buffer = bs\<rparr> = Some (\<lparr>recv_buffer = rest\<rparr>, f)"
      using parses_asD [OF Cons.hyps(1), of rest] by (simp add: bs)
    then have "snd (parse_loop \<lparr>recv_buffer = bs\<rparr>) = take (Suc n) (f # fs)"
      by (simp add: parse_loop_step n)
    then show ?thesis by blast
  next
    case False
    with Cons.prems have "strict_prefix bs w"
      by (metis concat.simps(2) prefix_append prefix_order.le_imp_less_or_eq prefix_order.order_refl prefixI prefix_same_cases)
    then have "snd (parse_loop \<lparr>recv_buffer = bs\<rparr>) = take 0 (f # fs)"
      using cut_frame_waits [OF Cons.hyps(1)] by (simp add: parse_loop.simps [of "\<lparr>recv_buffer = bs\<rparr>"])
    then show ?thesis by blast
  qed
qed

lemma parse_sent_all:
  assumes "list_all2 parses_as ws fs"
  shows "parse_loop \<lparr>recv_buffer = concat ws\<rparr> = (new_framer, fs)"
  using assms
proof (induction ws fs rule: list_all2_induct)
  case (Cons w ws f fs)
  with parses_asD [OF Cons.hyps(1), of "concat ws"] show ?case by (simp add: parse_loop_step)
qed (simp add: parse_loop_empty new_framer_def)

lemma fresh_feed: "framer_feed new_framer bs = parse_loop \<lparr>recv_buffer = bs\<rparr>"
  by (cases "bs = []") (simp_all add: framer_feed_def new_framer_def parse_loop_empty)

text \<open>However the stream of a session arrives, the receiver gets fragments of its frames, in order.\<close>

lemma receiver_parses:
  assumes "sends ms ws" and "prefix (concat slices) (concat ws)"
  shows "\<exists>n. snd (feed_chunks framer_feed new_framer slices) = take n (concat (map kept_fragments ms))"
    and "concat slices = concat ws \<Longrightarrow>
      feed_chunks framer_feed new_framer slices = (new_framer, concat (map kept_fragments ms))"
  using parse_sent [OF sends_parses [OF assms(1)] assms(2)] parse_sent_all [OF sends_parses [OF assms(1)]]
  by (simp_all add: framer.feed_chunks_concat [of new_framer slices, unfolded fresh_feed])

end
