(* ===== verification/Tcp_Stack.thy ===== *)
theory Tcp_Stack
  imports Receiving Tcp_Transport Sending
begin

text \<open>
  A wireless connection: the stack of \<open>Stack\<close> on an \<open>AndroidTcpTransport\<close>. The interpretations
  show that the TCP transport keeps the contracts that \<open>BufferedTransport\<close> and the session rely on;
  the theorems are about all of a connection, from the socket to the session.
\<close>

section \<open>The TCP transport as the underlying one\<close>

fun tcp_request :: "bt_call \<Rightarrow> tcp_event list" where
  "tcp_request UnderlyingRead = [TcpRead 0 kUnderlyingReadSize]"
| "tcp_request (UnderlyingWrite h data) = [TcpWrite h data]"
| "tcp_request UnderlyingClose = [TcpClose]"
| "tcp_request (Completed h ec data) = []"

definition tcp_thread :: "tcp_event \<Rightarrow> bool" where
  "tcp_thread e \<longleftrightarrow>
     (case e of
        TcpRead h cap \<Rightarrow> False | TcpWrite h data \<Rightarrow> False | TcpClose \<Rightarrow> False | TcpDestroy \<Rightarrow> False
      | _ \<Rightarrow> True)"

definition tcp_reporting :: "tcp_transport \<Rightarrow> bool" where
  "tcp_reporting t \<longleftrightarrow>
     (case read_thread t of Working (RecvReport h err) \<Rightarrow> err \<noteq> OperationAborted | _ \<Rightarrow> False)"

definition tcp_failing :: "tcp_transport \<Rightarrow> bool" where
  "tcp_failing t \<longleftrightarrow> (case write_thread t of Working (SendReport h) \<Rightarrow> True | _ \<Rightarrow> False)"

definition tcp_underlying :: "(tcp_event, tcp_transport) underlying" where
  "tcp_underlying =
     \<lparr>ul_new = new_tcp, ul_client = tcp_client, ul_step = tcp_step, ul_request = tcp_request,
      ul_thread = tcp_thread, ul_issued = tcp_issued, ul_posted = tcp_posted, ul_held = tcp_held,
      ul_free = caller_free, ul_open = tcp_open, ul_reporting = tcp_reporting, ul_failing = tcp_failing\<rparr>"

lemma tcp_underlying_simps [simp]:
  "ul_new tcp_underlying = new_tcp" "ul_client tcp_underlying = tcp_client"
  "ul_step tcp_underlying = tcp_step" "ul_request tcp_underlying = tcp_request"
  "ul_thread tcp_underlying = tcp_thread" "ul_issued tcp_underlying = tcp_issued"
  "ul_posted tcp_underlying = tcp_posted" "ul_held tcp_underlying = tcp_held"
  "ul_free tcp_underlying = caller_free" "ul_open tcp_underlying = tcp_open"
  "ul_reporting tcp_underlying = tcp_reporting" "ul_failing tcp_underlying = tcp_failing"
  by (simp_all add: tcp_underlying_def)

lemma tcp_posted_grows: "tcp_step t e = Some t1 \<Longrightarrow> \<exists>new. tcp_posted t1 = tcp_posted t @ new"
  by (erule tcp_step_cases)
     (auto simp: tcp_calls tcp_closing tcp_reading tcp_writing
        split: if_splits closer.splits option.splits thread.splits read_work.splits write_work.splits
          recv_result.splits send_result.splits)

lemma tcp_reads_in: "reads_in (tcp_held t) = size (tcp_reads t)"
  and tcp_writes_in: "writes_in (tcp_held t) = size (tcp_writes t)"
proof -
  have reads: "thread_holds read_work_token w = {#} \<or> (\<exists>h. thread_holds read_work_token w = {#ReadToken h#})" for w
  proof (cases w)
    case (Working x)
    then show ?thesis by (cases x) auto
  qed auto
  have writes: "thread_holds write_work_token w = {#} \<or> (\<exists>h. thread_holds write_work_token w = {#WriteToken h#})" for w
  proof (cases w)
    case (Working x)
    then show ?thesis by (cases x) auto
  qed auto
  show "reads_in (tcp_held t) = size (tcp_reads t)" "writes_in (tcp_held t) = size (tcp_writes t)"
    using reads [of "read_thread t"] writes [of "write_thread t"]
    by (auto simp: tcp_held_def tcp_reads_def tcp_writes_def read_held_def write_held_def split: option.split)
qed

interpretation tcp_stack: underlying_transport tcp_underlying
proof
  show "tokens (ul_posted tcp_underlying t) + ul_held tcp_underlying t \<subseteq># all_issued (ul_issued tcp_underlying) es"
    if "ul_reach tcp_underlying es t" for es t
    using tcp_handlers.at_most_once [of es t] that by (simp add: tcp_completed_def)
  show "all_issued (ul_issued tcp_underlying) (ul_request tcp_underlying c) =
      (case c of UnderlyingRead \<Rightarrow> {#ReadToken 0#} | UnderlyingWrite h data \<Rightarrow> {#WriteToken h#} | _ \<Rightarrow> {#})" for c
    by (cases c) (simp_all add: tcp_issued_def)
  show "ul_client tcp_underlying t e"
    if "e \<in> set (ul_request tcp_underlying c)"
      "0 < reads_in (ul_issued tcp_underlying e) \<Longrightarrow> reads_in (ul_held tcp_underlying t) = 0"
      "0 < writes_in (ul_issued tcp_underlying e) \<Longrightarrow> writes_in (ul_held tcp_underlying t) = 0" for e c t
    using that by (cases c) (simp_all add: tcp_client_def tcp_issued_def tcp_reads_in tcp_writes_in)
  show "\<not> ul_thread tcp_underlying e" if "e \<in> set (ul_request tcp_underlying c)" for e c
    using that by (cases c) (simp_all add: tcp_thread_def)
qed (auto simp: tcp_posted_grows new_tcp_def tcp_thread_def tcp_client_def tcp_issued_def split: tcp_event.splits)

section \<open>It reports its failures\<close>

lemma tcp_hearing:
  "hearing tcp_underlying n t \<longleftrightarrow>
     length (results (tcp_posted t)) + size (tcp_reads t) = n
     \<and> (\<forall>x\<in>set (results (tcp_posted t)). fst x \<noteq> Some OperationAborted)
     \<and> (tcp_open t \<or> tcp_reporting t
        \<or> tcp_reads t = {#} \<and> results (tcp_posted t) \<noteq> [] \<and> fst (last (results (tcp_posted t))) \<noteq> None)"
  by (simp add: hearing_def tcp_reads_in)

lemma tcp_reporting_iff:
  "tcp_reporting t \<longleftrightarrow> (\<exists>h err. read_thread t = Working (RecvReport h err) \<and> err \<noteq> OperationAborted)"
  by (auto simp: tcp_reporting_def split: thread.split read_work.split)

lemma tcp_failing_iff: "tcp_failing t \<longleftrightarrow> (\<exists>h. write_thread t = Working (SendReport h))"
  by (auto simp: tcp_failing_def split: thread.split write_work.split)

lemma tcp_keeps_hearing:
  assumes "hearing tcp_underlying n t" and "tcp_step t e = Some t1" and "tcp_client t e" and "tcp_closer t = CloserIdle"
    and "e \<noteq> TcpClose" and "e \<noteq> TcpDestroy" and "0 < reads_in (tcp_issued e) \<Longrightarrow> tcp_open t"
    and "reports_ok t" and "size (tcp_reads t) \<le> 1"
  shows "tcp_failing t1
    \<or> hearing tcp_underlying (n + reads_in (tcp_issued e)) t1
      \<and> (tcp_open t \<longrightarrow> tcp_open t1 \<or> tcp_reads t1 \<noteq> {#})"
  using assms(2)
proof (cases rule: tcp_step_cases)
  case (1 h cap)
  then have "tcp_open t" "tcp_reads t = {#}" using assms(3,7) by (simp_all add: tcp_client_def tcp_issued_def)
  with 1 assms(1) show ?thesis
    by (auto simp: tcp_hearing tcp_async_read_def tcp_reads_def tcp_issued_def split: if_splits)
next
  case (2 h data)
  with assms(1) show ?thesis
    by (auto simp: tcp_hearing tcp_async_write_def tcp_post_def tcp_reads_def tcp_reporting_iff tcp_issued_def
        split: if_splits)
next
  case 4
  with assms(4) show ?thesis by (simp add: tcp_close_step_def)
next
  case 6
  with assms(1,8,9) show ?thesis
    by (auto simp: tcp_reading tcp_hearing reports_ok_def tcp_reporting_iff tcp_reads_def tcp_issued_def
        split: thread.splits if_splits option.splits read_work.splits)
next
  case (7 res)
  with assms(1) show ?thesis
    by (auto simp: tcp_reading tcp_hearing tcp_reporting_iff tcp_reads_def tcp_issued_def
        split: thread.splits if_splits read_work.splits recv_result.splits)
next
  case 8
  with assms(1) show ?thesis
    by (auto simp: tcp_writing tcp_hearing tcp_reporting_iff tcp_reads_def tcp_failing_iff tcp_issued_def
        split: thread.splits if_splits option.splits write_work.splits)
next
  case (9 res)
  with assms(1) show ?thesis
    by (auto simp: tcp_writing tcp_hearing tcp_reporting_iff tcp_reads_def tcp_issued_def
        split: thread.splits if_splits write_work.splits send_result.splits)
qed (use assms in \<open>auto simp: tcp_hearing tcp_reporting_iff tcp_reads_def tcp_issued_def\<close>)

lemma tcp_stays_failing:
  assumes "tcp_failing t" and "tcp_step t e = Some t1"
  shows "tcp_failing t1 \<or> (\<exists>new. tcp_posted t1 = tcp_posted t @ new \<and> write_errors new)"
proof -
  obtain h where h: "write_thread t = Working (SendReport h)" using assms(1) by (auto simp: tcp_failing_iff)
  show ?thesis
    using assms(2)
  proof (cases rule: tcp_step_cases)
    case 8
    with h have "tcp_posted t1 = tcp_posted t @ [WriteDone h (Some IoError) 0]" by (auto simp: tcp_writing)
    then show ?thesis by (simp add: write_error_def)
  next
    case (9 res)
    with h show ?thesis by (simp add: tcp_writing)
  qed (use h in \<open>auto simp: tcp_failing_iff tcp_calls tcp_closing read_frame_def dest!: read_thread_frame
      split: if_splits closer.splits option.splits\<close>)
qed

lemma tcp_works: "ul_works tcp_underlying e \<Longrightarrow> e \<noteq> TcpClose \<and> e \<noteq> TcpDestroy"
proof -
  have "e \<in> set (tcp_request c) \<Longrightarrow> c \<noteq> UnderlyingClose \<Longrightarrow> e \<noteq> TcpClose \<and> e \<noteq> TcpDestroy" for c
    by (cases c) auto
  then show "ul_works tcp_underlying e \<Longrightarrow> e \<noteq> TcpClose \<and> e \<noteq> TcpDestroy"
    by (auto simp: ul_works_def tcp_thread_def)
qed

interpretation tcp_stack: heard_transport tcp_underlying
proof
  show "ul_free tcp_underlying (ul_new tcp_underlying)" "hearing tcp_underlying 0 (ul_new tcp_underlying)"
    by (simp_all add: tcp_hearing new_tcp_def caller_free_def tcp_reads_def)
  show "0 < reads_in (ul_held tcp_underlying t)" if "ul_reporting tcp_underlying t" for t
    using that by (auto simp: tcp_reads_in tcp_reporting_iff tcp_reads_def)
  show "ul_free tcp_underlying t1"
    if "ul_free tcp_underlying t" "ul_works tcp_underlying e" "ul_step tcp_underlying t e = Some t1" for t e t1
  proof -
    have step: "tcp_step t e = Some t1" and free: "tcp_closer t = CloserIdle"
      using that(1,3) by (simp_all add: caller_free_def)
    have "tcp_closer t1 = CloserIdle"
      using step
    proof (cases rule: tcp_step_cases)
      case 4
      with free show ?thesis by (simp add: tcp_close_step_def)
    qed (use free tcp_works [OF that(2)] in \<open>auto simp: tcp_calls read_frame_def write_frame_def
        dest!: read_thread_frame write_thread_frame split: if_splits\<close>)
    then show ?thesis by (simp add: caller_free_def)
  qed
  show "ul_failing tcp_underlying t1
      \<or> (\<exists>new. ul_posted tcp_underlying t1 = ul_posted tcp_underlying t @ new \<and> write_errors new)"
    if "ul_failing tcp_underlying t" "ul_step tcp_underlying t e = Some t1" for t e t1
    using that tcp_stays_failing by simp
  show "ul_failing tcp_underlying t1
      \<or> hearing tcp_underlying (n + reads_in (ul_issued tcp_underlying e)) t1
        \<and> (ul_open tcp_underlying t \<longrightarrow> ul_open tcp_underlying t1 \<or> 0 < reads_in (ul_held tcp_underlying t1))"
    if "ul_reach tcp_underlying es t" "ul_client tcp_underlying t e" "ul_works tcp_underlying e"
      "ul_free tcp_underlying t" "hearing tcp_underlying n t" "ul_step tcp_underlying t e = Some t1"
      "0 < reads_in (ul_issued tcp_underlying e) \<Longrightarrow> ul_open tcp_underlying t"
      "reads_in (ul_held tcp_underlying t) \<le> 1" for es t e n t1
    using tcp_keeps_hearing [OF that(5)] that tcp_works [OF that(3)] tcp_reach_reports_ok [of es t]
    by (simp add: tcp_reads_in caller_free_def nonempty_has_size)
qed

section \<open>What holds of a wireless connection\<close>

text \<open>
  Each layer of the stack is a good client of the one below, and gets what the layer below
  promises. In every run of the stack the connection makes a run that its own contract
  allows, and in it the session and \<open>BufferedTransport\<close> make runs of their own; the TCP transport makes
  a run that its contract allows (one read and one write outstanding at a time), and what the
  transport is called with is, in order, what \<open>BufferedTransport\<close> asked for. So what is proved of the
  parts alone holds of them here.
\<close>

theorem wireless_refines_its_parts:
  assumes "stack_reach tcp_underlying env (session_with cfg cr svcs) es st"
  defines "s \<equiv> session_with cfg cr svcs"
  shows "(\<exists>ces. run_enabled cn_enabled (cn_step env) (new_connection s) ces
      \<and> st_conn st = run_events (cn_step env) (new_connection s) ces
      \<and> run_enabled bt_enabled bt_step new_buffered (BtStart # transport_trace env (new_connection s) ces)
      \<and> cn_transport (st_conn st) =
          run_events bt_step new_buffered (BtStart # transport_trace env (new_connection s) ces))
    \<and> (\<exists>ses. run_enabled session_enabled (session_step env) s ses
      \<and> cn_session (st_conn st) = run_events (session_step env) s ses)
    \<and> (\<exists>tes. reach new_tcp tcp_client tcp_step tes (st_native st)
      \<and> filter (\<lambda>e. \<not> tcp_thread e) tes =
          take (st_called st) (requested tcp_underlying (cn_transport (st_conn st))))"
  using tcp_stack.refines_its_parts [OF assms(1)] by (simp add: calls_of_def s_def)

lemma written_take: "prefix (tcp_written (take n es)) (tcp_written es)"
proof -
  have "tcp_written es = tcp_written (take n es) @ tcp_written (drop n es)"
    by (simp add: tcp_written_def flip: concat_append map_append)
  then show ?thesis by (metis prefixI)
qed

lemma written_calls: "tcp_written (calls_of tcp_underlying es) = tcp_written es"
  by (induction es) (auto simp: calls_of_def tcp_written_def tcp_thread_def split: tcp_event.split)

lemma written_requested: "tcp_written (requested tcp_underlying b) = concat (passed_on b)"
proof -
  have "tcp_written (concat (map tcp_request cs)) =
      concat (concat (map (\<lambda>c. case c of UnderlyingWrite h data \<Rightarrow> [data] | _ \<Rightarrow> []) cs))" for cs
  proof (induction cs)
    case (Cons c cs)
    then show ?case by (cases c) (simp_all add: tcp_written_def)
  qed (simp add: tcp_written_def)
  then show ?thesis by (simp add: requested_def passed_on_def)
qed

text \<open>What the kernel has taken, and when it has taken everything.\<close>

definition all_sent :: "(tcp_event, tcp_transport) underlying \<Rightarrow> ('c, 'v, tcp_transport) stack \<Rightarrow> bool" where
  "all_sent ul st \<longleftrightarrow> tcp_open (st_native st) \<and> tcp_writes (st_native st) = {#} \<and> pending_calls ul st = []
     \<and> waiting (cn_session (st_conn st)) = []"

lemma wireless_sent:
  assumes "stack_reach tcp_underlying env (session_with cfg cr svcs) es st"
  defines "s \<equiv> cn_session (st_conn st)"
  shows "prefix (tcp_sent (st_native st)) (concat (written (ss_log s)))"
    and "all_sent tcp_underlying st \<Longrightarrow> tcp_sent (st_native st) = concat (accepted s)"
proof -
  let ?r = "requested tcp_underlying (cn_transport (st_conn st))" and ?t = "st_native st"
  have ok: "stack_ok tcp_underlying env (session_with cfg cr svcs) st" by (rule tcp_stack.stack_reach_ok [OF assms(1)])
  then obtain tes where tes: "reach new_tcp tcp_client tcp_step tes ?t"
    "calls_of tcp_underlying tes = take (st_called st) ?r"
    by (auto simp: stack_ok_def)
  have w: "tcp_written tes = tcp_written (take (st_called st) ?r)"
    using written_calls [of tes] by (simp add: tes(2))
  have r: "tcp_written ?r = concat (written (ss_log s))"
    using ok by (simp add: stack_ok_def written_requested s_def)
  note sent = in_order_prefix [OF tcp_reach_in_order [OF tes(1)], unfolded w]
  show "prefix (tcp_sent ?t) (concat (written (ss_log s)))"
    using sent(1) written_take [of "st_called st" ?r] by (metis prefix_order.trans r)
  assume all: "all_sent tcp_underlying st"
  then have "take (st_called st) ?r = ?r" by (simp add: all_sent_def pending_calls_def)
  with sent(2) r all show "tcp_sent ?t = concat (accepted s)" by (simp add: all_sent_def accepted_def s_def)
qed

lemma stack_session_streams:
  assumes "stack_reach tcp_underlying env (session_with cfg cr svcs) es st"
  shows "streams True (cn_session (st_conn st))"
proof -
  obtain ses where "run_enabled session_enabled (session_step env) (session_with cfg cr svcs) ses"
    and "cn_session (st_conn st) = run_events (session_step env) (session_with cfg cr svcs) ses"
    using tcp_stack.refines_its_parts [OF assms] by blast
  with streams_run [OF session_with_streams] show ?thesis by simp
qed

text \<open>
  C23. The phone is sent the frames of the session, in order and nothing else. What the kernel has
  taken is a prefix of the bytes of the frames that the session has handed over; and when
  no call and no write is outstanding, nothing waits in the queue of the session and the transport
  is open, it is every byte of every frame the session has ever accepted.
\<close>

theorem wireless_sends_the_frames:
  assumes "stack_reach tcp_underlying env (session_with cfg cr svcs) es st"
  defines "s \<equiv> cn_session (st_conn st)"
  shows "prefix (tcp_sent (st_native st)) (concat (written (ss_log s)))
    \<and> (tcp_open (st_native st) \<and> tcp_writes (st_native st) = {#} \<and> pending_calls tcp_underlying st = []
        \<and> waiting s = [] \<longrightarrow> tcp_sent (st_native st) = concat (accepted s))"
  using wireless_sent [OF assms(1)] by (simp add: s_def all_sent_def)

text \<open>
  Runs in which no event finds the write queue of the session full, so that no message is cut. A step
  of the connection handles at most one event of the session.
\<close>

definition roomy_queue :: "('c, 'v, 't) stack \<Rightarrow> bool" where
  "roomy_queue st \<longleftrightarrow> length (ss_write_queue (cn_session (st_conn st))) < 256"

abbreviation uncrowded_reach ::
    "('c, 'v) session_env \<Rightarrow> ('c, 'v) session \<Rightarrow> tcp_event stack_event list \<Rightarrow>
     ('c, 'v, tcp_transport) stack \<Rightarrow> bool" where
  "uncrowded_reach env s \<equiv>
     reach (new_stack tcp_underlying s) (\<lambda>st _. roomy_queue st) (stack_step tcp_underlying env)"

lemma uncrowded_stack_reach: "uncrowded_reach env s es st \<Longrightarrow> stack_reach tcp_underlying env s es st"
  by (induction rule: reach.induct) (auto intro: reach.intros)

lemma cn_step_streams:
  assumes "streams False (cn_session c)" and "cn_enabled c e" and "\<not> queue_full (cn_session c)"
  shows "streams False (cn_session (cn_step env c e))"
proof -
  have step: "streams False (session_step env (cn_session c) te)" if "session_enabled (cn_session c) te" for te
    using streams_step [OF assms(1) that, of env] assms(3) by simp
  show ?thesis
  proof (cases e)
    case (CnHandler now)
    with assms(1) step show ?thesis by (auto simp: cn_step_def session_enabled_def split: list.split)
  next
    case (CnArrives res)
    with assms(1) show ?thesis by (simp add: cn_step_def)
  next
    case (CnSession now ev)
    with assms(2) step show ?thesis by (simp add: cn_step_def cn_enabled_def)
  qed
qed

lemma uncrowded_streams:
  assumes "uncrowded_reach env (session_with cfg cr svcs) es st"
  shows "streams False (cn_session (st_conn st))"
proof -
  let ?s = "session_with cfg cr svcs"
  have "stack_ok tcp_underlying env ?s st \<and> streams False (cn_session (st_conn st))"
    using assms
  proof (rule reach_keeps)
    show "stack_ok tcp_underlying env ?s (new_stack tcp_underlying ?s)
        \<and> streams False (cn_session (st_conn (new_stack tcp_underlying ?s)))"
      using tcp_stack.new_stack_ok [of env cfg cr svcs] session_with_streams
      by (simp add: new_stack_def new_connection_def)
  next
    fix st e and st1 :: "('a, 'b, tcp_transport) stack"
    assume ok: "stack_ok tcp_underlying env ?s st \<and> streams False (cn_session (st_conn st))"
      and room: "roomy_queue st" and step: "stack_step tcp_underlying env st e = Some st1"
    have "\<not> queue_full (cn_session (st_conn st))"
      using room by (simp add: roomy_queue_def queue_full_def kMaxWriteQueueSize_def)
    with ok have next_ok: "cn_enabled (st_conn st) ce \<Longrightarrow> streams False (cn_session (cn_step env (st_conn st) ce))" for ce
      using cn_step_streams by blast
    have "streams False (cn_session (st_conn st1))"
      using step
    proof (cases rule: stack_step_cases)
      case (3 now c rest)
      with next_ok tcp_stack.completion_enabled ok show ?thesis by fastforce
    qed (use ok next_ok in simp_all)
    with tcp_stack.stack_ok_step step ok
    show "stack_ok tcp_underlying env ?s st1 \<and> streams False (cn_session (st_conn st1))" by blast
  qed
  then show ?thesis ..
qed

text \<open>
  C24. The phone reads the messages of the session. Take a run in which the write queue of the session is
  never full, cut the bytes that the kernel has taken into slices in any way and feed them to a fresh
  framer. What the session has accepted is the encodings of some outbound frames, whole and one after the
  other; the framer returns the fragments of these frames, in order, up to some point, and these
  fragments carry the frames. When everything accepted has been sent, it returns all of them and keeps
  no byte.
\<close>

theorem wireless_phone_reads_messages:
  assumes "uncrowded_reach env (session_with cfg cr svcs) es st" and "roomy_queue st"
    and "concat slices = tcp_sent (st_native st)"
  shows "\<exists>frames n. accepted (cn_session (st_conn st)) = concat (map framer_encode frames)
    \<and> (\<forall>frame\<in>set frames. out_flags frame AND 3 = 3 \<and> carries frame (fragments_of frame))
    \<and> snd (feed_chunks framer_feed new_framer slices) = take n (concat (map fragments_of frames))
    \<and> (all_sent tcp_underlying st \<longrightarrow>
        feed_chunks framer_feed new_framer slices = (new_framer, concat (map fragments_of frames)))"
proof -
  let ?s = "cn_session (st_conn st)"
  note sent = wireless_sent [OF uncrowded_stack_reach [OF assms(1)]]
  obtain ms where ms: "sends ms (accepted ?s)" "\<forall>m\<in>set ms. whole m"
    using uncrowded_streams [OF assms(1)] assms(2)
    by (auto simp: streams_def roomy_queue_def queue_full_def kMaxWriteQueueSize_def)
  let ?frames = "map fst ms"
  have encoded: "accepted ?s = concat (map framer_encode ?frames)"
    using ms by (auto simp: sends_def whole_kept intro!: arg_cong [where f = concat])
  have plain: "\<forall>frame\<in>set ?frames. out_flags frame AND 3 = 3"
    using ms(1) by (simp add: sends_def unfragmented_def)
  have fragments: "map kept_fragments ms = map fragments_of ?frames"
    using ms plain by (auto simp: whole_fragments)
  have "prefix (concat slices) (concat (accepted ?s))"
    using sent(1) by (auto simp: assms(3) accepted_def prefix_def)
  note reads = receiver_parses [OF ms(1) this, unfolded fragments]
  obtain n where n: "snd (feed_chunks framer_feed new_framer slices) = take n (concat (map fragments_of ?frames))"
    using reads(1) by blast
  have all: "all_sent tcp_underlying st \<longrightarrow>
      feed_chunks framer_feed new_framer slices = (new_framer, concat (map fragments_of ?frames))"
    using reads(2) sent(2) by (simp add: assms(3))
  show ?thesis
    by (rule exI [of _ ?frames], rule exI [of _ n]) (use encoded plain n all fragments_of_carries in auto)
qed

text \<open>
  C22. A wireless connection never goes deaf. From \<open>start\<close> on, as long as the session has not closed
  its transport, it has not ended, and the next bytes of the phone are on their way to it: a
  handler of the session is posted; or a read of the TCP transport has completed and waits to
  be run; or one is about to be issued; or the transport has it, and either the socket is open and the
  read thread attends to it, in \<open>recv\<close> or with the request set and no more than two of its own steps
  before \<open>recv\<close>, never asleep and never about to sleep; or the read thread is about to report why not.
  The one exception is a write that has failed: its error is on its way to the session instead, which
  it ends.
\<close>

theorem wireless_never_goes_deaf:
  assumes "stack_reach tcp_underlying env (session_with cfg cr svcs) es st"
    and "StIo (CnSession t EvStart) \<in> set es" and "\<not> bt_closed (cn_transport (st_conn st))"
  shows "\<not> is_terminal (ss_state (cn_session (st_conn st)))
    \<and> (posted_reads (st_conn st) \<noteq> []
      \<or> results (unrun tcp_underlying st) \<noteq> []
      \<or> 0 < read_requests tcp_underlying (pending_calls tcp_underlying st)
      \<or> tcp_reads (st_native st) \<noteq> {#}
        \<and> (tcp_open (st_native st) \<and> tcp_attending (st_native st) \<or> tcp_reporting (st_native st))
      \<or> tcp_failing (st_native st) \<or> write_errors (unrun tcp_underlying st))"
proof -
  obtain tes where "reach new_tcp tcp_client tcp_step tes (st_native st)"
    using tcp_stack.refines_its_parts [OF assms(1)] by auto
  note attended = open_read_attended [OF this]
  from tcp_stack.never_goes_deaf [OF assms] attended show ?thesis
    by (auto simp: write_failing_def tcp_reads_in nonempty_has_size)
qed

text \<open>What \<open>recv\<close> has returned in a run.\<close>

definition recv_bytes :: "tcp_event stack_event list \<Rightarrow> bytes" where
  "recv_bytes es = concat (map (\<lambda>e. case e of StThread (TcpRecv (Received data)) \<Rightarrow> data | _ \<Rightarrow> []) es)"

lemma tcp_step_reads:
  assumes "tcp_step t e = Some t1"
  shows "read_data (tcp_posted t1) = read_data (tcp_posted t) @ recv_bytes [StThread e]"
  using assms
proof (cases rule: tcp_step_cases)
  case (7 res)
  then show ?thesis
    by (auto simp: recv_bytes_def tcp_reading split: thread.splits read_work.splits recv_result.splits if_splits)
qed (auto simp: recv_bytes_def tcp_calls tcp_closing tcp_reading tcp_writing
        split: if_splits closer.splits option.splits thread.splits read_work.splits write_work.splits
          recv_result.splits send_result.splits)

lemma stack_step_reads:
  assumes "stack_step tcp_underlying env st e = Some st1"
  shows "read_data (tcp_posted (st_native st1)) = read_data (tcp_posted (st_native st)) @ recv_bytes [e]"
  using assms
proof (cases rule: stack_step_cases)
  case (1 te t1)
  then show ?thesis using tcp_step_reads by simp
next
  case (2 te rest t1)
  have "\<not> tcp_thread te"
    using tcp_stack.pending_next(3) [OF 2(2)] tcp_stack.request_calls by fastforce
  then have "recv_bytes [StThread te] = []" by (auto simp: recv_bytes_def tcp_thread_def split: tcp_event.splits)
  with 2 tcp_step_reads [of "st_native st" te t1] show ?thesis by (simp add: recv_bytes_def)
qed (simp_all add: recv_bytes_def)

lemma wireless_read_data:
  "stack_reach tcp_underlying env s es st \<Longrightarrow> read_data (tcp_posted (st_native st)) = recv_bytes es"
proof (induction rule: reach.induct)
  case (reach_step es st e st1)
  then show ?case by (simp add: stack_step_reads) (simp add: recv_bytes_def)
qed (simp add: new_stack_def new_tcp_def recv_bytes_def)

text \<open>
  C25. The session is made of what the phone has sent. In a run in which every chunk finds a reader or
  room in the queue of \<open>BufferedTransport\<close>, and at whose end the session has not closed its transport,
  the bytes that \<open>recv\<close> has returned are those the session was fed, then those that wait in the
  connection, then those of completions that have not run; and the session, with all its state, is the
  one that is handed the fragments of the fed bytes in one piece, every fragment once and in order,
  between the events that bring no data, however \<open>recv\<close> has cut them and the threads have interleaved.
\<close>

theorem wireless_parses_the_stream:
  assumes "roomy_reach tcp_underlying env (session_with cfg cr svcs) es st"
    and "\<not> bt_closed (cn_transport (st_conn st))"
  shows "\<exists>fed inputs. recv_bytes es = fed @ waiting_bytes (st_conn st) @ read_data (unrun tcp_underlying st)
    \<and> framer_feed new_framer fed = (ss_framer (cn_session (st_conn st)), fragments_in inputs)
    \<and> cn_session (st_conn st) = run_events (session_input_step env) (session_with cfg cr svcs) inputs
    \<and> \<not> (\<exists>i\<in>set inputs. brings_data i)"
proof -
  have "read_data (tcp_posted (st_native st)) = recv_bytes es"
    by (rule wireless_read_data [OF roomy_stack_reach [OF assms(1)]])
  with tcp_stack.parses_the_stream [OF assms] show ?thesis by simp
qed

section \<open>A run\<close>

text \<open>
  The session starts, the version request is sent in one piece, and the phone answers with the
  first bytes of a frame.
\<close>

definition wireless_events :: "bytes \<Rightarrow> tcp_event stack_event list" where
  "wireless_events w =
     [StCall, StIo (CnSession 0 EvStart), StCall, StThread TcpWriter, StThread TcpWriter, StThread TcpWriter,
      StThread (TcpSend (Sent (length w))), StThread TcpWriter, StThread TcpReader, StThread TcpReader,
      StThread (TcpRecv (Received [0, 3, 0]))]"

definition wireless_state :: "bytes \<Rightarrow> (mock_crypto, service, tcp_transport) stack" where
  "wireless_state w =
     \<lparr>st_conn = cn_step demo_env demo_connection (CnSession 0 EvStart),
      st_native = new_tcp\<lparr>tcp_sent := w, tcp_posted := [WriteDone 1 None (length w), ReadDone 0 None [0, 3, 0]]\<rparr>,
      st_called = 2, st_run = 0\<rparr>"

lemma wireless_run:
  obtains w where "w \<noteq> []" "uncrowded_reach demo_env demo_session (wireless_events w) (wireless_state w)"
    "roomy_queue (wireless_state w)"
    "pending_calls tcp_underlying (wireless_state w) = []" "waiting (cn_session (st_conn (wireless_state w))) = []"
    "written (ss_log (cn_session (st_conn (wireless_state w)))) = [w]"
proof -
  obtain w where w: "w \<noteq> []" "new_calls demo_env demo_session (0, EvStart) =
      [TimerCancel, ToObserverState VersionExchange, TimerArm 5000, TransportRead, TransportWrite w]"
    by (rule demo_first_write)
  note eval = demo_start_eval w(2) new_stack_def pending_calls_def requested_def io_free_def own_event_def
    wireless_state_def kUnderlyingReadSize_def
  have room: "length (ss_write_queue demo_session) < 256"
    "length (ss_write_queue (session_step demo_env demo_session (0, EvStart))) < 256"
    by (simp_all add: session_eval demo_eval)
  have "run_option (\<lambda>st _. roomy_queue st) (stack_step tcp_underlying demo_env) (new_stack tcp_underlying demo_session)
      (wireless_events w) = Some (wireless_state w)"
    using w(1) room
    by (simp add: wireless_events_def stack_step_def eval demo_idle tcp_eval tcp_thread_def roomy_queue_def)
  then have "uncrowded_reach demo_env demo_session (wireless_events w) (wireless_state w)"
    by (rule run_reach)
  moreover have "roomy_queue (wireless_state w)" using room by (simp add: roomy_queue_def eval)
  moreover have "pending_calls tcp_underlying (wireless_state w) = []" by (simp add: eval)
  moreover have "waiting (cn_session (st_conn (wireless_state w))) = []" by (simp add: eval demo_waiting)
  moreover have "written (ss_log (cn_session (st_conn (wireless_state w)))) = [w]"
    by (simp add: eval demo_log session_step_calls)
  ultimately show ?thesis using w(1) that by blast
qed

theorem wireless_refines_its_parts_witness:
  "\<exists>w tes. w \<noteq> [] \<and> reach new_tcp tcp_client tcp_step tes (st_native (wireless_state w))
    \<and> filter (\<lambda>e. \<not> tcp_thread e) tes = requested tcp_underlying (cn_transport (st_conn (wireless_state w)))"
proof -
  obtain w where w: "w \<noteq> []" "uncrowded_reach demo_env demo_session (wireless_events w) (wireless_state w)"
    "roomy_queue (wireless_state w)"
    "pending_calls tcp_underlying (wireless_state w) = []"
    by (rule wireless_run)
  then have "take (st_called (wireless_state w)) (requested tcp_underlying (cn_transport (st_conn (wireless_state w)))) =
      requested tcp_underlying (cn_transport (st_conn (wireless_state w)))"
    by (simp add: pending_calls_def)
  with wireless_refines_its_parts [OF uncrowded_stack_reach [OF w(2), unfolded demo_session_def]] w(1) show ?thesis by metis
qed

theorem wireless_sends_the_frames_witness:
  "\<exists>w. w \<noteq> [] \<and> tcp_sent (st_native (wireless_state w)) = w
    \<and> w = concat (accepted (cn_session (st_conn (wireless_state w))))"
proof -
  obtain w where w: "w \<noteq> []" "uncrowded_reach demo_env demo_session (wireless_events w) (wireless_state w)"
    "roomy_queue (wireless_state w)"
    "pending_calls tcp_underlying (wireless_state w) = []" "waiting (cn_session (st_conn (wireless_state w))) = []"
    by (rule wireless_run)
  have "tcp_open (st_native (wireless_state w))" "tcp_writes (st_native (wireless_state w)) = {#}"
    "tcp_sent (st_native (wireless_state w)) = w"
    by (simp_all add: wireless_state_def new_tcp_def tcp_writes_def)
  with wireless_sends_the_frames [OF uncrowded_stack_reach [OF w(2), unfolded demo_session_def]] w(1,4,5) show ?thesis by metis
qed

theorem wireless_phone_reads_messages_witness:
  "\<exists>w frames. w \<noteq> [] \<and> w = concat (concat (map framer_encode frames))
    \<and> framer_feed new_framer w = (new_framer, concat (map fragments_of frames))"
proof -
  obtain w where w: "w \<noteq> []" "uncrowded_reach demo_env demo_session (wireless_events w) (wireless_state w)"
    "roomy_queue (wireless_state w)"
    "pending_calls tcp_underlying (wireless_state w) = []" "waiting (cn_session (st_conn (wireless_state w))) = []"
    "written (ss_log (cn_session (st_conn (wireless_state w)))) = [w]"
    by (rule wireless_run)
  have "concat [w] = tcp_sent (st_native (wireless_state w))" by (simp add: wireless_state_def new_tcp_def)
  moreover have "all_sent tcp_underlying (wireless_state w)"
    using w(4,5) by (simp add: all_sent_def) (simp add: wireless_state_def new_tcp_def tcp_writes_def)
  moreover have "accepted (cn_session (st_conn (wireless_state w))) = [w]"
    using w(5,6) by (simp add: accepted_def)
  ultimately obtain frames where "[w] = concat (map framer_encode frames)"
    "feed_chunks framer_feed new_framer [w] = (new_framer, concat (map fragments_of frames))"
    using wireless_phone_reads_messages [OF w(2) [unfolded demo_session_def] w(3), of "[w]"] by metis
  with w(1) show ?thesis by (intro exI [of _ w] exI [of _ frames]) (auto simp flip: \<open>[w] = _\<close>)
qed

theorem wireless_never_goes_deaf_witness:
  "\<exists>w. w \<noteq> [] \<and> \<not> is_terminal (ss_state (cn_session (st_conn (wireless_state w))))
    \<and> results (unrun tcp_underlying (wireless_state w)) = [(None, [0, 3, 0])]"
proof -
  obtain w where w: "w \<noteq> []" "uncrowded_reach demo_env demo_session (wireless_events w) (wireless_state w)"
    "roomy_queue (wireless_state w)"
    by (rule wireless_run)
  have "StIo (CnSession 0 EvStart) \<in> set (wireless_events w)" by (simp add: wireless_events_def)
  moreover have "\<not> bt_closed (cn_transport (st_conn (wireless_state w)))"
    by (simp add: wireless_state_def demo_open)
  moreover have "results (unrun tcp_underlying (wireless_state w)) = [(None, [0, 3, 0])]"
    by (simp add: unrun_def wireless_state_def new_tcp_def)
  ultimately show ?thesis
    using wireless_never_goes_deaf [OF uncrowded_stack_reach [OF w(2), unfolded demo_session_def]] w(1) by blast
qed

text \<open>The phone's first bytes are received, posted, and read by the session.\<close>

definition wireless_reading :: "tcp_event stack_event list" where
  "wireless_reading =
     [StCall, StIo (CnSession 0 EvStart), StCall, StThread TcpReader, StThread TcpReader,
      StThread (TcpRecv (Received [0, 3, 0])), StPosted 1, StCall, StIo (CnHandler 2)]"

definition first_pieces :: "cn_event list" where
  "first_pieces = [CnSession 0 EvStart, CnArrives (Inr [0, 3, 0]), CnHandler 2]"

lemma wireless_reading_run:
  obtains t where
    "roomy_reach tcp_underlying demo_env demo_session wireless_reading
       \<lparr>st_conn = run_events (cn_step demo_env) demo_connection first_pieces, st_native = t, st_called = 3, st_run = 1\<rparr>"
    "tcp_posted t = [ReadDone 0 None [0, 3, 0]]"
    "\<not> bt_closed (cn_transport (run_events (cn_step demo_env) demo_connection first_pieces))"
    "waiting_bytes (run_events (cn_step demo_env) demo_connection first_pieces) = []"
proof -
  obtain w where w: "w \<noteq> []" "new_calls demo_env demo_session (0, EvStart) =
      [TimerCancel, ToObserverState VersionExchange, TimerArm 5000, TransportRead, TransportWrite w]"
    by (rule demo_first_write)
  have "ss_framer demo_session = new_framer"
    by (simp add: demo_session_def session_with_def new_session_def register_service_def)
  then have fr: "ss_framer (session_step demo_env demo_session (0, EvStart)) = new_framer"
    by (simp add: step_framer)
  have read: "new_calls demo_env (session_step demo_env demo_session (0, EvStart)) (2, EvRead None [0, 3, 0]) =
      [TransportRead]"
    by (rule read_part) (simp_all add: demo_start(1) is_terminal_def fr demo_part)
  let ?t = "new_tcp\<lparr>read_requested := True, pending_read := Some (0, 16384),
     write_requested := True, pending_write := Some (1, w), tcp_posted := [ReadDone 0 None [0, 3, 0]]\<rparr>"
  note eval = demo_start_eval w(2) read new_stack_def pending_calls_def requested_def io_free_def own_event_def
    kUnderlyingReadSize_def first_pieces_def stack_roomy_def unrun_def posted_reads_def completions_def
    kReadBufferSize_def reads_issued_def rx_push_def kMaxQueuedReads_def
  have "run_option (stack_roomy tcp_underlying) (stack_step tcp_underlying demo_env)
      (new_stack tcp_underlying demo_session) wireless_reading =
    Some \<lparr>st_conn = run_events (cn_step demo_env) demo_connection first_pieces, st_native = ?t,
      st_called = 3, st_run = 1\<rparr>"
    using w(1) by (simp add: wireless_reading_def stack_step_def eval demo_idle tcp_eval tcp_thread_def)
  then have "roomy_reach tcp_underlying demo_env demo_session wireless_reading
       \<lparr>st_conn = run_events (cn_step demo_env) demo_connection first_pieces, st_native = ?t, st_called = 3, st_run = 1\<rparr>"
    by (rule run_reach)
  moreover have "\<not> bt_closed (cn_transport (run_events (cn_step demo_env) demo_connection first_pieces))"
    "waiting_bytes (run_events (cn_step demo_env) demo_connection first_pieces) = []"
    by (simp_all add: eval waiting_bytes_def)
  moreover have "tcp_posted ?t = [ReadDone 0 None [0, 3, 0]]" by simp
  ultimately show ?thesis using that by blast
qed

theorem wireless_parses_the_stream_witness:
  "ss_framer (cn_session (run_events (cn_step demo_env) demo_connection first_pieces)) = \<lparr>recv_buffer = [0, 3, 0]\<rparr>
   \<and> (\<exists>inputs. fragments_in inputs = []
      \<and> cn_session (run_events (cn_step demo_env) demo_connection first_pieces) =
          run_events (session_input_step demo_env) demo_session inputs)"
proof -
  obtain t where t: "roomy_reach tcp_underlying demo_env demo_session wireless_reading
      \<lparr>st_conn = run_events (cn_step demo_env) demo_connection first_pieces, st_native = t, st_called = 3, st_run = 1\<rparr>"
    "tcp_posted t = [ReadDone 0 None [0, 3, 0]]"
    "\<not> bt_closed (cn_transport (run_events (cn_step demo_env) demo_connection first_pieces))"
    "waiting_bytes (run_events (cn_step demo_env) demo_connection first_pieces) = []"
    by (rule wireless_reading_run)
  have "recv_bytes wireless_reading = [0, 3, 0]" by (simp add: recv_bytes_def wireless_reading_def)
  moreover have "read_data (unrun tcp_underlying \<lparr>st_conn = run_events (cn_step demo_env) demo_connection first_pieces,
      st_native = t, st_called = 3, st_run = 1\<rparr>) = []"
    using t(2) by (simp add: unrun_def)
  ultimately obtain inputs where
    "framer_feed new_framer [0, 3, 0] =
      (ss_framer (cn_session (run_events (cn_step demo_env) demo_connection first_pieces)), fragments_in inputs)"
    "cn_session (run_events (cn_step demo_env) demo_connection first_pieces) =
      run_events (session_input_step demo_env) demo_session inputs"
    using wireless_parses_the_stream [OF t(1) [unfolded demo_session_def]] t(3,4)
    by (auto simp flip: demo_session_def)
  with demo_part show ?thesis by auto
qed

end
