(* ===== verification/Usb_Transport.thy ===== *)
theory Usb_Transport
  imports Threads
begin

text \<open>
  \<open>AndroidUsbTransport\<close> (\<open>impl/android/transport/AndroidUsbTransport.cpp\<close>): bulk transfers on
  a usbdevfs descriptor, with a read and a write thread. Other than in the TCP transport, a
  handler stays where it is during the transfer and is taken when it returns, a failed
  transfer leaves the transport open, and a transfer times out every two seconds.

  \<open>usb_sent\<close> is what the device has accepted. The address of an endpoint does not matter to
  the state.
\<close>

section \<open>State\<close>

record usb_transport =
  usb_open :: bool
  usb_fd :: bool
  usb_read_thread :: "unit thread"   \<comment> \<open>\<open>Working\<close>: in the transfer\<close>
  usb_pending_read :: "(nat \<times> nat) option"
  usb_read_requested :: bool
  usb_write_thread :: "bytes thread"   \<comment> \<open>\<open>Working data\<close>: in the transfer of \<open>data\<close>\<close>
  usb_pending_data :: bytes
  usb_pending_write :: "nat option"
  usb_write_requested :: bool
  usb_closer :: closer
  usb_joined :: bool
  usb_fate :: fate
  usb_sent :: bytes
  usb_posted :: "completion list"

definition new_usb :: usb_transport where
  "new_usb =
     \<lparr>usb_open = True, usb_fd = True, usb_read_thread = Top, usb_pending_read = None,
      usb_read_requested = False, usb_write_thread = Top, usb_pending_data = [],
      usb_pending_write = None, usb_write_requested = False, usb_closer = CloserIdle,
      usb_joined = False, usb_fate = Alive, usb_sent = [], usb_posted = []\<rparr>"

definition usb_post :: "completion \<Rightarrow> usb_transport \<Rightarrow> usb_transport" where
  "usb_post c u = u\<lparr>usb_posted := usb_posted u @ [c]\<rparr>"

section \<open>The interface\<close>

definition usb_async_read :: "nat \<Rightarrow> nat \<Rightarrow> usb_transport \<Rightarrow> usb_transport option" where
  "usb_async_read h cap u =
     (if \<not> usb_open u then Some (usb_post (ReadDone h (Some OperationAborted) []) u)
      else if usb_read_thread u = Deciding then None
      else Some (u\<lparr>usb_pending_read := Some (h, cap), usb_read_requested := True,
                   usb_read_thread := notify (usb_read_thread u)\<rparr>))"

definition usb_async_write :: "nat \<Rightarrow> bytes \<Rightarrow> usb_transport \<Rightarrow> usb_transport option" where
  "usb_async_write h data u =
     (if \<not> usb_open u then Some (usb_post (WriteDone h (Some OperationAborted) 0) u)
      else if usb_write_thread u = Deciding then None
      else Some (u\<lparr>usb_pending_data := data, usb_pending_write := Some h, usb_write_requested := True,
                   usb_write_thread := notify (usb_write_thread u)\<rparr>))"

definition usb_close :: "usb_transport \<Rightarrow> usb_transport" where
  "usb_close u = (if usb_open u then u\<lparr>usb_open := False, usb_closer := NotifyThreads\<rparr> else u)"

definition usb_fire_pending :: "usb_transport \<Rightarrow> usb_transport" where
  "usb_fire_pending u =
     (let u1 = (case usb_pending_read u of
          None \<Rightarrow> u
        | Some (h, cap) \<Rightarrow> usb_post (ReadDone h (Some OperationAborted) []) (u\<lparr>usb_pending_read := None\<rparr>))
      in case usb_pending_write u1 of
           None \<Rightarrow> u1
         | Some h \<Rightarrow> usb_post (WriteDone h (Some OperationAborted) 0) (u1\<lparr>usb_pending_write := None\<rparr>))"

definition usb_close_step :: "usb_transport \<Rightarrow> usb_transport option" where
  "usb_close_step u =
     (case usb_closer u of
        CloserIdle \<Rightarrow> None
      | NotifyThreads \<Rightarrow>
          Some (u\<lparr>usb_read_thread := notify (usb_read_thread u), usb_write_thread := notify (usb_write_thread u),
                  usb_closer := JoinRead\<rparr>)
      | JoinRead \<Rightarrow> (if usb_read_thread u = Exited then Some (u\<lparr>usb_closer := JoinWrite\<rparr>) else None)
      | JoinWrite \<Rightarrow>
          (if usb_write_thread u = Exited then Some (u\<lparr>usb_joined := True, usb_closer := CloseFd\<rparr>) else None)
      | CloseFd \<Rightarrow> Some (u\<lparr>usb_fd := False, usb_closer := FirePending\<rparr>)
      | FirePending \<Rightarrow> Some (usb_fire_pending (u\<lparr>usb_closer := CloserIdle\<rparr>)))"

definition usb_destroy :: "usb_transport \<Rightarrow> usb_transport" where
  "usb_destroy u = u\<lparr>usb_fate := (if usb_joined u then Destroyed else Terminated)\<rparr>"

section \<open>The read thread\<close>

datatype 'a transfer_result = Transferred 'a | TimedOut | TransferFailed int

definition usb_read_step :: "usb_transport \<Rightarrow> usb_transport option" where
  "usb_read_step u =
     (case usb_read_thread u of
        Top \<Rightarrow> Some (u\<lparr>usb_read_thread := if usb_open u then Checking else Exited\<rparr>)
      | Checking \<Rightarrow>
          (if \<not> usb_open u then Some (u\<lparr>usb_read_thread := Exited\<rparr>)
           else if usb_read_requested u then Some (u\<lparr>usb_read_thread := Working ()\<rparr>)
           else Some (u\<lparr>usb_read_thread := Deciding\<rparr>))
      | Deciding \<Rightarrow> Some (u\<lparr>usb_read_thread := Asleep\<rparr>)
      | Asleep \<Rightarrow> None
      | Working w \<Rightarrow> None
      | Exited \<Rightarrow> None)"

text \<open>Taking the handler and calling it, if there is one.\<close>

definition usb_complete_read :: "transport_error option \<Rightarrow> bytes \<Rightarrow> usb_transport \<Rightarrow> usb_transport" where
  "usb_complete_read ec data u =
     (let u1 = u\<lparr>usb_pending_read := None, usb_read_requested := False, usb_read_thread := Top\<rparr>
      in case usb_pending_read u of None \<Rightarrow> u1 | Some (h, cap) \<Rightarrow> usb_post (ReadDone h ec data) u1)"

text \<open>At most as many bytes arrive as the buffer of the pending read has room for.\<close>

definition usb_read_returns :: "bytes transfer_result \<Rightarrow> usb_transport \<Rightarrow> usb_transport option" where
  "usb_read_returns res u =
     (if usb_read_thread u \<noteq> Working () then None
      else case res of
        TimedOut \<Rightarrow> Some (u\<lparr>usb_read_thread := Top\<rparr>)
      | TransferFailed err \<Rightarrow>
          (if \<not> usb_open u then Some (u\<lparr>usb_read_thread := Exited\<rparr>)
           else Some (usb_complete_read (Some (Errno err)) [] u))
      | Transferred data \<Rightarrow>
          (case usb_pending_read u of
             Some (h, cap) \<Rightarrow>
               (if length data \<le> cap then Some (usb_complete_read None data u) else None)
           | None \<Rightarrow> Some (usb_complete_read None data u)))"

section \<open>The write thread\<close>

definition usb_write_step :: "usb_transport \<Rightarrow> usb_transport option" where
  "usb_write_step u =
     (case usb_write_thread u of
        Top \<Rightarrow> Some (u\<lparr>usb_write_thread := if usb_open u then Checking else Exited\<rparr>)
      | Checking \<Rightarrow>
          (if usb_write_requested u
           then Some (u\<lparr>usb_write_thread := Working (usb_pending_data u), usb_pending_data := [],
                        usb_write_requested := False\<rparr>)
           else if \<not> usb_open u then Some (u\<lparr>usb_write_thread := Exited\<rparr>)
           else Some (u\<lparr>usb_write_thread := Deciding\<rparr>))
      | Deciding \<Rightarrow> Some (u\<lparr>usb_write_thread := Asleep\<rparr>)
      | Asleep \<Rightarrow> None
      | Working data \<Rightarrow> None
      | Exited \<Rightarrow> None)"

definition usb_complete_write :: "transport_error option \<Rightarrow> nat \<Rightarrow> usb_transport \<Rightarrow> usb_transport" where
  "usb_complete_write ec n u =
     (let u1 = u\<lparr>usb_pending_write := None, usb_write_thread := Top\<rparr>
      in case usb_pending_write u of None \<Rightarrow> u1 | Some h \<Rightarrow> usb_post (WriteDone h ec n) u1)"

text \<open>A write has no retry: a time-out is an error like any other.\<close>

definition usb_write_returns :: "nat transfer_result \<Rightarrow> usb_transport \<Rightarrow> usb_transport option" where
  "usb_write_returns res u =
     (case usb_write_thread u of
        Working data \<Rightarrow>
          (case res of
             Transferred n \<Rightarrow>
               (if n \<le> length data
                then Some (usb_complete_write None n (u\<lparr>usb_sent := usb_sent u @ take n data\<rparr>)) else None)
           | TimedOut \<Rightarrow>
               (if \<not> usb_open u then Some (u\<lparr>usb_pending_write := None, usb_write_thread := Exited\<rparr>)
                else Some (usb_complete_write (Some (Errno 110)) 0 u))
           | TransferFailed err \<Rightarrow>
               (if \<not> usb_open u then Some (u\<lparr>usb_pending_write := None, usb_write_thread := Exited\<rparr>)
                else Some (usb_complete_write (Some (Errno err)) 0 u)))
      | _ \<Rightarrow> None)"

section \<open>Events\<close>

datatype usb_event =
    UsbRead nat nat
  | UsbWrite nat bytes
  | UsbClose
  | UsbCloser
  | UsbDestroy
  | UsbReader
  | UsbBulkIn "bytes transfer_result"
  | UsbWriter
  | UsbBulkOut "nat transfer_result"
  | UsbWakeReader
  | UsbWakeWriter

definition usb_caller_free :: "usb_transport \<Rightarrow> bool" where
  "usb_caller_free u \<longleftrightarrow> usb_closer u = CloserIdle"

definition usb_step :: "usb_transport \<Rightarrow> usb_event \<Rightarrow> usb_transport option" where
  "usb_step u e =
     (if usb_fate u \<noteq> Alive then None
      else case e of
        UsbRead h cap \<Rightarrow> (if usb_caller_free u then usb_async_read h cap u else None)
      | UsbWrite h data \<Rightarrow> (if usb_caller_free u then usb_async_write h data u else None)
      | UsbClose \<Rightarrow> (if usb_caller_free u then Some (usb_close u) else None)
      | UsbCloser \<Rightarrow> usb_close_step u
      | UsbDestroy \<Rightarrow> (if usb_caller_free u \<and> \<not> usb_open u then Some (usb_destroy u) else None)
      | UsbReader \<Rightarrow> usb_read_step u
      | UsbBulkIn res \<Rightarrow> usb_read_returns res u
      | UsbWriter \<Rightarrow> usb_write_step u
      | UsbBulkOut res \<Rightarrow> usb_write_returns res u
      | UsbWakeReader \<Rightarrow>
          (if usb_read_thread u = Asleep then Some (u\<lparr>usb_read_thread := Checking\<rparr>) else None)
      | UsbWakeWriter \<Rightarrow>
          (if usb_write_thread u = Asleep then Some (u\<lparr>usb_write_thread := Checking\<rparr>) else None))"

lemma usb_step_cases:
  assumes "usb_step u e = Some u1"
  obtains h cap where "e = UsbRead h cap" "usb_async_read h cap u = Some u1" "usb_closer u = CloserIdle"
  | h data where "e = UsbWrite h data" "usb_async_write h data u = Some u1" "usb_closer u = CloserIdle"
  | "e = UsbClose" "u1 = usb_close u" "usb_closer u = CloserIdle"
  | "e = UsbCloser" "usb_close_step u = Some u1"
  | "e = UsbDestroy" "u1 = usb_destroy u" "\<not> usb_open u" "usb_closer u = CloserIdle"
  | "e = UsbReader" "usb_read_step u = Some u1"
  | res where "e = UsbBulkIn res" "usb_read_returns res u = Some u1"
  | "e = UsbWriter" "usb_write_step u = Some u1"
  | res where "e = UsbBulkOut res" "usb_write_returns res u = Some u1"
  | "e = UsbWakeReader" "usb_read_thread u = Asleep" "u1 = u\<lparr>usb_read_thread := Checking\<rparr>"
  | "e = UsbWakeWriter" "usb_write_thread u = Asleep" "u1 = u\<lparr>usb_write_thread := Checking\<rparr>"
  using assms that by (cases e) (auto simp: usb_step_def usb_caller_free_def split: if_splits)

section \<open>Handlers\<close>

definition usb_held :: "usb_transport \<Rightarrow> token multiset" where
  "usb_held u = read_held (usb_pending_read u) + write_held (map_option (\<lambda>h. (h, ())) (usb_pending_write u))"

definition usb_completed :: "usb_transport \<Rightarrow> token multiset" where
  "usb_completed u = tokens (usb_posted u)"

definition usb_client :: "usb_transport \<Rightarrow> usb_event \<Rightarrow> bool" where
  "usb_client u e =
     (case e of
        UsbRead h cap \<Rightarrow> usb_pending_read u = None
      | UsbWrite h data \<Rightarrow> usb_pending_write u = None
      | _ \<Rightarrow> True)"

definition usb_issued :: "usb_event \<Rightarrow> token multiset" where
  "usb_issued e =
     (case e of UsbRead h cap \<Rightarrow> {#ReadToken h#} | UsbWrite h data \<Rightarrow> {#WriteToken h#} | _ \<Rightarrow> {#})"

text \<open>A write that fails on a closed transport has been taken and is not called.\<close>

definition usb_lost :: "usb_transport \<Rightarrow> usb_event \<Rightarrow> token multiset" where
  "usb_lost u e =
     (case e of
        UsbBulkOut res \<Rightarrow>
          (case res of
             Transferred n \<Rightarrow> {#}
           | _ \<Rightarrow> (if usb_open u then {#} else write_held (map_option (\<lambda>h. (h, ())) (usb_pending_write u))))
      | _ \<Rightarrow> {#})"

lemmas usb_calls = usb_async_read_def usb_async_write_def usb_close_def usb_destroy_def usb_post_def
lemmas usb_closing = usb_close_step_def usb_fire_pending_def usb_post_def Let_def
lemmas usb_reading = usb_read_step_def usb_read_returns_def usb_complete_read_def usb_post_def Let_def
lemmas usb_writing = usb_write_step_def usb_write_returns_def usb_complete_write_def usb_post_def Let_def

lemma usb_balance:
  assumes "usb_client u e" and "usb_step u e = Some u1"
  shows "usb_completed u1 + usb_held u1 + usb_lost u e = usb_completed u + usb_held u + usb_issued e"
proof -
  note sums = usb_completed_def usb_held_def usb_lost_def usb_issued_def
  show ?thesis
    using assms(2)
  proof (cases rule: usb_step_cases)
    case 4
    then show ?thesis
      by (auto simp: usb_closing sums split: closer.splits if_splits option.splits)
  next
    case 6
    then show ?thesis by (auto simp: usb_reading sums split: thread.splits if_splits)
  next
    case 7
    then show ?thesis
      by (auto simp: usb_reading sums split: if_splits option.splits transfer_result.splits)
  next
    case 8
    then show ?thesis by (auto simp: usb_writing sums split: thread.splits if_splits)
  next
    case 9
    then show ?thesis
      by (auto simp: usb_writing sums split: thread.splits if_splits option.splits transfer_result.splits)
  qed (use assms(1) in \<open>auto simp: usb_calls sums usb_client_def split: if_splits\<close>)
qed

interpretation usb_handlers: handler_accounting new_usb usb_client usb_step usb_completed usb_held usb_lost usb_issued
  by unfold_locales (simp_all only: usb_balance, simp_all add: new_usb_def usb_completed_def usb_held_def)

text \<open>
  No handler of the USB transport is called twice: the completions posted so far and the
  handlers still pending are among the handlers that were passed in, counted with
  multiplicity, for every interleaving.
\<close>

theorem usb_completes_at_most_once:
  assumes "reach new_usb usb_client usb_step es u"
  shows "usb_completed u + usb_held u \<subseteq># all_issued usb_issued es"
  by (rule usb_handlers.at_most_once [OF assms])

section \<open>Closing\<close>

definition usb_close_ok :: "usb_transport \<Rightarrow> bool" where
  "usb_close_ok u \<longleftrightarrow>
     (case usb_closer u of
        CloserIdle \<Rightarrow>
          (if usb_joined u
           then \<not> usb_open u \<and> \<not> usb_fd u \<and> usb_read_thread u = Exited \<and> usb_write_thread u = Exited
                \<and> usb_pending_read u = None \<and> usb_pending_write u = None
           else usb_open u \<and> usb_fd u)
      | NotifyThreads \<Rightarrow> \<not> usb_open u \<and> usb_fd u \<and> \<not> usb_joined u
      | JoinRead \<Rightarrow> \<not> usb_open u \<and> usb_fd u \<and> \<not> usb_joined u
      | JoinWrite \<Rightarrow> \<not> usb_open u \<and> usb_fd u \<and> \<not> usb_joined u \<and> usb_read_thread u = Exited
      | CloseFd \<Rightarrow> \<not> usb_open u \<and> usb_fd u \<and> usb_joined u
          \<and> usb_read_thread u = Exited \<and> usb_write_thread u = Exited
      | FirePending \<Rightarrow> \<not> usb_open u \<and> \<not> usb_fd u \<and> usb_joined u
          \<and> usb_read_thread u = Exited \<and> usb_write_thread u = Exited)"

definition usb_read_frame :: "usb_transport \<Rightarrow> usb_transport \<Rightarrow> bool" where
  "usb_read_frame u u1 \<longleftrightarrow> usb_read_thread u \<noteq> Exited \<and> usb_open u1 = usb_open u
     \<and> usb_fd u1 = usb_fd u \<and> usb_closer u1 = usb_closer u \<and> usb_joined u1 = usb_joined u
     \<and> usb_sent u1 = usb_sent u \<and> usb_write_thread u1 = usb_write_thread u
     \<and> usb_pending_write u1 = usb_pending_write u \<and> usb_write_requested u1 = usb_write_requested u"

definition usb_write_frame :: "usb_transport \<Rightarrow> usb_transport \<Rightarrow> bool" where
  "usb_write_frame u u1 \<longleftrightarrow> usb_write_thread u \<noteq> Exited \<and> usb_open u1 = usb_open u
     \<and> usb_fd u1 = usb_fd u \<and> usb_closer u1 = usb_closer u \<and> usb_joined u1 = usb_joined u
     \<and> usb_read_thread u1 = usb_read_thread u"

lemma usb_read_thread_frame:
  "usb_read_step u = Some u1 \<Longrightarrow> usb_read_frame u u1" "usb_read_returns inp u = Some u1 \<Longrightarrow> usb_read_frame u u1"
  by (auto simp: usb_reading usb_read_frame_def split: thread.splits if_splits option.splits transfer_result.splits)

lemma usb_write_thread_frame:
  "usb_write_step u = Some u1 \<Longrightarrow> usb_write_frame u u1" "usb_write_returns out u = Some u1 \<Longrightarrow> usb_write_frame u u1"
  by (auto simp: usb_writing usb_write_frame_def split: thread.splits if_splits option.splits transfer_result.splits)

lemma usb_frame_close_ok:
  "usb_read_frame u u1 \<Longrightarrow> usb_close_ok u \<Longrightarrow> usb_close_ok u1"
  "usb_write_frame u u1 \<Longrightarrow> usb_close_ok u \<Longrightarrow> usb_close_ok u1"
  by (cases "usb_closer u"; auto simp: usb_read_frame_def usb_write_frame_def usb_close_ok_def split: if_splits)+

lemma usb_close_ok_step:
  assumes ok: "usb_close_ok u" and step: "usb_step u e = Some u1"
  shows "usb_close_ok u1"
  using step
proof (cases rule: usb_step_cases)
  case 4
  with ok show ?thesis
    by (auto simp: usb_closing usb_close_ok_def split: closer.splits if_splits option.splits)
next
  case 6
  with ok show ?thesis by (blast intro: usb_frame_close_ok usb_read_thread_frame)
next
  case 7
  with ok show ?thesis by (blast intro: usb_frame_close_ok usb_read_thread_frame)
next
  case 8
  with ok show ?thesis by (blast intro: usb_frame_close_ok usb_write_thread_frame)
next
  case 9
  with ok show ?thesis by (blast intro: usb_frame_close_ok usb_write_thread_frame)
next
  case 10
  with ok show ?thesis by (cases "usb_closer u") (auto simp: usb_close_ok_def split: if_splits)
next
  case 11
  with ok show ?thesis by (cases "usb_closer u") (auto simp: usb_close_ok_def split: if_splits)
qed (use ok in \<open>auto simp: usb_calls usb_close_ok_def split: if_splits\<close>)

lemma usb_reach_close_ok: "reach new_usb usb_client usb_step es u \<Longrightarrow> usb_close_ok u"
  by (erule reach_keeps) (simp add: usb_close_ok_def new_usb_def, rule usb_close_ok_step)

text \<open>
  A closed USB transport is completely closed. Only \<open>close\<close> ends a transport: once it
  has returned, both threads have been joined, the descriptor is closed, no handler is left,
  and the destructor is safe, whatever transfers failed before.
\<close>

theorem usb_close_completes:
  assumes "reach new_usb usb_client usb_step es u" and "\<not> usb_open u" and "usb_caller_free u"
  shows "usb_joined u \<and> \<not> usb_fd u \<and> usb_held u = {#} \<and> usb_fate (usb_destroy u) = Destroyed"
  using usb_reach_close_ok [OF assms(1)] assms(2,3)
  by (auto simp: usb_close_ok_def usb_caller_free_def usb_held_def usb_destroy_def split: if_splits)

text \<open>
  No wake-up is lost while the transport is open: a read that waits has its request set, and the read
  thread does not sleep, nor is it about to, until the transfer has brought something. (A transfer that
  times out sends the thread back to the wait, with the request still set.)
\<close>

definition usb_awake_ok :: "usb_transport \<Rightarrow> bool" where
  "usb_awake_ok u \<longleftrightarrow>
     (usb_open u \<longrightarrow> usb_fate u = Alive \<and> usb_read_thread u \<noteq> Exited
        \<and> (usb_pending_read u \<noteq> None \<longrightarrow> usb_read_requested u
             \<and> usb_read_thread u \<noteq> Deciding \<and> usb_read_thread u \<noteq> Asleep))"

lemma usb_awake_ok_step:
  assumes ok: "usb_close_ok u" "usb_awake_ok u" and step: "usb_step u e = Some u1"
  shows "usb_awake_ok u1"
  using step
proof (cases rule: usb_step_cases)
  case (1 h cap)
  with ok(2) show ?thesis
    by (cases "usb_read_thread u") (auto simp: usb_calls usb_awake_ok_def notify_def split: if_splits)
next
  case 4
  with ok show ?thesis
    by (auto simp: usb_closing usb_close_ok_def usb_awake_ok_def split: closer.splits if_splits option.splits)
next
  case 6
  with ok(2) show ?thesis by (auto simp: usb_reading usb_awake_ok_def split: thread.splits if_splits)
next
  case 7
  with ok(2) show ?thesis
    by (auto simp: usb_reading usb_awake_ok_def split: if_splits option.splits transfer_result.splits)
next
  case 8
  with ok(2) show ?thesis by (auto simp: usb_writing usb_awake_ok_def split: thread.splits if_splits)
next
  case 9
  with ok(2) show ?thesis
    by (auto simp: usb_writing usb_awake_ok_def split: thread.splits if_splits option.splits transfer_result.splits)
qed (use ok(2) in \<open>auto simp: usb_calls usb_awake_ok_def split: if_splits\<close>)

lemma usb_reach_awake_ok:
  assumes "reach new_usb usb_client usb_step es u"
  shows "usb_awake_ok u"
proof -
  have "usb_close_ok u \<and> usb_awake_ok u"
    using assms
  proof (rule reach_keeps)
    show "usb_close_ok new_usb \<and> usb_awake_ok new_usb"
      by (simp add: new_usb_def usb_close_ok_def usb_awake_ok_def)
  qed (use usb_close_ok_step usb_awake_ok_step in blast)
  then show ?thesis ..
qed

text \<open>The read thread attends to the outstanding read: it is in the transfer, or two steps before it.\<close>

definition usb_attending :: "usb_transport \<Rightarrow> bool" where
  "usb_attending u \<longleftrightarrow> usb_fate u = Alive
     \<and> (case usb_read_thread u of
          Working w \<Rightarrow> True
        | Top \<Rightarrow> usb_read_requested u
        | Checking \<Rightarrow> usb_read_requested u
        | _ \<Rightarrow> False)"

lemma usb_attending_receives:
  assumes "usb_attending u" and "usb_open u"
  shows "\<exists>k\<le>2. \<exists>u1. run_option (\<lambda>_ _. True) usb_step u (replicate k UsbReader) = Some u1
    \<and> usb_read_thread u1 = Working ()"
proof (cases "usb_read_thread u")
  case (Working w)
  then show ?thesis by (intro exI [of _ 0]) simp
next
  case Top
  with assms show ?thesis
    by (intro exI [of _ 2]) (auto simp: usb_attending_def usb_step_def usb_read_step_def numeral_2_eq_2)
next
  case Checking
  with assms show ?thesis
    by (intro exI [of _ 1]) (auto simp: usb_attending_def usb_step_def usb_read_step_def)
qed (use assms in \<open>simp_all add: usb_attending_def\<close>)

lemma usb_open_read_attended:
  assumes "reach new_usb usb_client usb_step es u" and "usb_open u" and "usb_pending_read u \<noteq> None"
  shows "usb_attending u"
  using usb_reach_awake_ok [OF assms(1)] assms(2,3)
  by (cases "usb_read_thread u") (auto simp: usb_awake_ok_def usb_attending_def)

section \<open>Transfers\<close>

text \<open>What the write thread works on has a handler.\<close>

definition usb_write_ok :: "usb_transport \<Rightarrow> bool" where
  "usb_write_ok u \<longleftrightarrow>
     (if usb_write_thread u = Exited then True
      else if \<exists>data. usb_write_thread u = Working data
      then usb_pending_write u \<noteq> None \<and> \<not> usb_write_requested u
      else usb_write_requested u = (usb_pending_write u \<noteq> None))"

definition reported :: "completion list \<Rightarrow> nat" where
  "reported cs = sum_list (map (\<lambda>c. case c of WriteDone h ec n \<Rightarrow> n | _ \<Rightarrow> 0) cs)"

lemma reported_simps [simp]:
  "reported [] = 0" "reported (xs @ ys) = reported xs + reported ys"
  "reported (c # cs) = (case c of WriteDone h ec n \<Rightarrow> n | _ \<Rightarrow> 0) + reported cs"
  by (simp_all add: reported_def)

definition usb_counted :: "usb_transport \<Rightarrow> bool" where
  "usb_counted u \<longleftrightarrow> usb_write_ok u \<and> reported (usb_posted u) = length (usb_sent u)"

lemma usb_counted_step:
  assumes ok: "usb_close_ok u" and counted: "usb_counted u" and client: "usb_client u e"
    and step: "usb_step u e = Some u1"
  shows "usb_counted u1"
proof -
  note defs = usb_counted_def usb_write_ok_def
  show ?thesis
    using step
  proof (cases rule: usb_step_cases)
    case 2
    with counted client show ?thesis
      by (cases "usb_write_thread u") (auto simp: usb_calls defs usb_client_def notify_def split: if_splits)
  next
    case 4
    with ok counted show ?thesis
      by (cases "usb_write_thread u")
         (auto simp: usb_closing usb_close_ok_def defs notify_def split: closer.splits if_splits option.splits)
  next
    case 6
    with counted show ?thesis by (auto simp: usb_reading defs split: thread.splits if_splits)
  next
    case 7
    with counted show ?thesis
      by (auto simp: usb_reading defs split: if_splits option.splits transfer_result.splits)
  next
    case 8
    with counted show ?thesis by (auto simp: usb_writing defs split: thread.splits if_splits)
  next
    case 9
    with counted show ?thesis
      by (auto simp: usb_writing defs split: thread.splits if_splits option.splits transfer_result.splits)
  qed (use counted in \<open>auto simp: usb_calls defs split: if_splits\<close>)
qed

lemma usb_reach_counted:
  assumes "reach new_usb usb_client usb_step es u"
  shows "usb_counted u"
proof -
  have "usb_close_ok u \<and> usb_counted u"
    using assms
  proof (rule reach_keeps)
    show "usb_close_ok new_usb \<and> usb_counted new_usb"
      by (simp add: new_usb_def usb_close_ok_def usb_counted_def usb_write_ok_def)
  qed (use usb_close_ok_step usb_counted_step in blast)
  then show ?thesis ..
qed

text \<open>
  The USB transport reports exactly what the device took. The counts of all completed
  writes add up to the number of bytes that have left the host, also after errors, time-outs
  and short transfers.
\<close>

theorem usb_reports_what_was_sent:
  assumes "reach new_usb usb_client usb_step es u"
  shows "reported (usb_posted u) = length (usb_sent u)"
  using usb_reach_counted [OF assms] by (simp add: usb_counted_def)

text \<open>
  Time-outs of a read cannot be observed. However many bulk reads in a row time out, the
  transport is afterwards in the state in which the first one was started: the request stays,
  nothing is posted, and the next transfer completes the same handler.
\<close>

theorem usb_read_survives_timeouts:
  assumes "usb_fate u = Alive" and "usb_open u" and "usb_read_thread u = Working ()" and "usb_read_requested u"
  shows "run_option usb_client usb_step u
    (concat (replicate n [UsbBulkIn TimedOut, UsbReader, UsbReader])) = Some u"
proof (induction n)
  case (Suc n)
  have same: "u\<lparr>usb_read_thread := Working ()\<rparr> = u" using assms(3) by simp
  show ?case using assms Suc by (simp add: usb_step_def usb_reading usb_client_def same)
qed simp

section \<open>Runs\<close>

definition usb_run :: "usb_event list \<Rightarrow> usb_transport option" where
  "usb_run es = run_option usb_client usb_step new_usb es"

lemmas usb_eval = usb_run_def usb_step_def usb_client_def usb_caller_free_def usb_calls usb_closing
  usb_reading usb_writing new_usb_def notify_def

lemma usb_run_reach: "usb_run es = Some u \<Longrightarrow> reach new_usb usb_client usb_step es u"
  by (simp add: usb_run_def run_reach)

text \<open>A short write, a second write; a read is in transfer.\<close>

definition short_write :: "usb_event list" where
  "short_write =
     [UsbWrite 1 [5, 6], UsbWriter, UsbWriter, UsbBulkOut (Transferred 1),
      UsbWrite 2 [7], UsbWriter, UsbWriter, UsbBulkOut (Transferred 1), UsbRead 3 10, UsbReader, UsbReader]"

definition short_write_state :: usb_transport where
  "short_write_state = new_usb\<lparr>usb_read_thread := Working (), usb_pending_read := Some (3, 10),
     usb_read_requested := True, usb_sent := [5, 7],
     usb_posted := [WriteDone 1 None 1, WriteDone 2 None 1]\<rparr>"

text \<open>
  A short transfer is reported as a success with a smaller count; the rest of the buffer is
  not sent. \<open>Session::on_write_complete\<close> does not look at the count.
\<close>

lemma usb_short_write_leaves_gap: "usb_run short_write = Some short_write_state"
  by (simp add: short_write_def short_write_state_def usb_eval)

definition usb_closing_run :: "usb_event list" where
  "usb_closing_run =
     [UsbRead 3 10, UsbReader, UsbReader, UsbBulkIn (TransferFailed 5), UsbRead 4 10, UsbReader, UsbReader, UsbClose,
      UsbCloser, UsbBulkIn TimedOut, UsbReader, UsbWriter, UsbCloser, UsbCloser, UsbCloser, UsbCloser]"

definition usb_closed_state :: usb_transport where
  "usb_closed_state = new_usb\<lparr>usb_open := False, usb_fd := False, usb_read_thread := Exited,
     usb_write_thread := Exited, usb_read_requested := True, usb_joined := True,
     usb_posted := [ReadDone 3 (Some (Errno 5)) [], ReadDone 4 (Some OperationAborted) []]\<rparr>"

lemma usb_closing_evaluates: "usb_run usb_closing_run = Some usb_closed_state"
  by (simp add: usb_closing_run_def usb_closed_state_def usb_eval)

theorem usb_completes_at_most_once_witness:
  "usb_completed usb_closed_state + usb_held usb_closed_state \<subseteq># all_issued usb_issued usb_closing_run"
  using usb_completes_at_most_once [OF usb_run_reach [OF usb_closing_evaluates]] .

theorem usb_close_completes_witness:
  "usb_joined usb_closed_state \<and> usb_held usb_closed_state = {#}"
  using usb_close_completes [OF usb_run_reach [OF usb_closing_evaluates]]
  by (simp add: usb_closed_state_def usb_caller_free_def new_usb_def)

theorem usb_reports_what_was_sent_witness:
  "reported (usb_posted short_write_state) = length (usb_sent short_write_state)
    \<and> usb_sent short_write_state = [5, 7]"
  using usb_reports_what_was_sent [OF usb_run_reach [OF usb_short_write_leaves_gap]]
  by (simp add: short_write_state_def)

theorem usb_read_survives_timeouts_witness:
  "run_option usb_client usb_step short_write_state
    (concat (replicate 3 [UsbBulkIn TimedOut, UsbReader, UsbReader])) = Some short_write_state"
  by (rule usb_read_survives_timeouts) (simp_all add: short_write_state_def new_usb_def)

text \<open>A write that fails while \<open>close\<close> is waiting: its handler is never called.\<close>

lemma usb_close_can_lose_write:
  "\<exists>u. usb_run [UsbWrite 1 [5], UsbWriter, UsbWriter, UsbClose, UsbCloser, UsbBulkOut TimedOut, UsbReader,
      UsbCloser, UsbCloser, UsbCloser, UsbCloser] = Some u
    \<and> usb_joined u \<and> usb_caller_free u \<and> usb_posted u = [] \<and> usb_held u = {#}"
  by (simp add: usb_eval usb_held_def)

end
