(* ===== verification/Usb_Stack.thy ===== *)
theory Usb_Stack
  imports Stack Usb_Transport
begin

text \<open>
  A wired connection: the stack of \<open>Stack\<close> on an \<open>AndroidUsbTransport\<close>. It keeps the same
  contracts as the TCP transport, and more: it never stops being open by itself, so that
  every failure reaches the session by a completion.
\<close>

section \<open>The USB transport as the underlying one\<close>

fun usb_request :: "bt_call \<Rightarrow> usb_event list" where
  "usb_request UnderlyingRead = [UsbRead 0 kUnderlyingReadSize]"
| "usb_request (UnderlyingWrite h data) = [UsbWrite h data]"
| "usb_request UnderlyingClose = [UsbClose]"
| "usb_request (Completed h ec data) = []"

definition usb_thread :: "usb_event \<Rightarrow> bool" where
  "usb_thread e \<longleftrightarrow>
     (case e of
        UsbRead h cap \<Rightarrow> False | UsbWrite h data \<Rightarrow> False | UsbClose \<Rightarrow> False | UsbDestroy \<Rightarrow> False
      | _ \<Rightarrow> True)"

text \<open>Taking a handler and posting it is one step here, so that no thread is ever about to report.\<close>

definition usb_underlying :: "(usb_event, usb_transport) underlying" where
  "usb_underlying =
     \<lparr>ul_new = new_usb, ul_client = usb_client, ul_step = usb_step, ul_request = usb_request,
      ul_thread = usb_thread, ul_issued = usb_issued, ul_posted = usb_posted, ul_held = usb_held,
      ul_free = usb_caller_free, ul_open = usb_open, ul_reporting = \<lambda>_. False, ul_failing = \<lambda>_. False\<rparr>"

lemma usb_underlying_simps [simp]:
  "ul_new usb_underlying = new_usb" "ul_client usb_underlying = usb_client"
  "ul_step usb_underlying = usb_step" "ul_request usb_underlying = usb_request"
  "ul_thread usb_underlying = usb_thread" "ul_issued usb_underlying = usb_issued"
  "ul_posted usb_underlying = usb_posted" "ul_held usb_underlying = usb_held"
  "ul_free usb_underlying = usb_caller_free" "ul_open usb_underlying = usb_open"
  "ul_reporting usb_underlying = (\<lambda>_. False)" "ul_failing usb_underlying = (\<lambda>_. False)"
  by (simp_all add: usb_underlying_def)

lemma usb_posted_grows: "usb_step u e = Some u1 \<Longrightarrow> \<exists>new. usb_posted u1 = usb_posted u @ new"
  by (erule usb_step_cases)
     (auto simp: usb_calls usb_closing usb_reading usb_writing
        split: if_splits closer.splits option.splits thread.splits transfer_result.splits)

lemma usb_held_in:
  "reads_in (usb_held u) = (if usb_pending_read u = None then 0 else 1)"
  "writes_in (usb_held u) = (if usb_pending_write u = None then 0 else 1)"
  by (cases "usb_pending_read u"; cases "usb_pending_write u"; auto simp: usb_held_def)+

interpretation usb_stack: underlying_transport usb_underlying
proof
  show "tokens (ul_posted usb_underlying u) + ul_held usb_underlying u \<subseteq># all_issued (ul_issued usb_underlying) es"
    if "ul_reach usb_underlying es u" for es u
    using usb_handlers.at_most_once [of es u] that by (simp add: usb_completed_def)
  show "all_issued (ul_issued usb_underlying) (ul_request usb_underlying c) =
      (case c of UnderlyingRead \<Rightarrow> {#ReadToken 0#} | UnderlyingWrite h data \<Rightarrow> {#WriteToken h#} | _ \<Rightarrow> {#})" for c
    by (cases c) (simp_all add: usb_issued_def)
  show "ul_client usb_underlying u e"
    if "e \<in> set (ul_request usb_underlying c)"
      "0 < reads_in (ul_issued usb_underlying e) \<Longrightarrow> reads_in (ul_held usb_underlying u) = 0"
      "0 < writes_in (ul_issued usb_underlying e) \<Longrightarrow> writes_in (ul_held usb_underlying u) = 0" for e c u
    using that by (cases c) (simp_all add: usb_client_def usb_issued_def usb_held_in split: if_splits)
  show "\<not> ul_thread usb_underlying e" if "e \<in> set (ul_request usb_underlying c)" for e c
    using that by (cases c) (simp_all add: usb_thread_def)
qed (auto simp: usb_posted_grows new_usb_def usb_thread_def usb_client_def usb_issued_def split: usb_event.splits)

section \<open>It reports its failures\<close>

lemma usb_hearing:
  "hearing usb_underlying n u \<longleftrightarrow>
     length (results (usb_posted u)) + (if usb_pending_read u = None then 0 else 1) = n
     \<and> (\<forall>x\<in>set (results (usb_posted u)). fst x \<noteq> Some OperationAborted)
     \<and> (usb_open u
        \<or> usb_pending_read u = None \<and> results (usb_posted u) \<noteq> [] \<and> fst (last (results (usb_posted u))) \<noteq> None)"
  by (auto simp: hearing_def usb_held_in)

lemma usb_works: "ul_works usb_underlying e \<Longrightarrow> e \<noteq> UsbClose \<and> e \<noteq> UsbDestroy"
proof -
  have "e \<in> set (usb_request c) \<Longrightarrow> c \<noteq> UnderlyingClose \<Longrightarrow> e \<noteq> UsbClose \<and> e \<noteq> UsbDestroy" for c
    by (cases c) auto
  then show "ul_works usb_underlying e \<Longrightarrow> e \<noteq> UsbClose \<and> e \<noteq> UsbDestroy"
    by (auto simp: ul_works_def usb_thread_def)
qed

text \<open>Nobody but \<open>close\<close> changes \<open>open_\<close>.\<close>

lemma usb_stays_open:
  assumes "usb_closer u = CloserIdle" and "e \<noteq> UsbClose" and "usb_step u e = Some u1"
  shows "usb_closer u1 = CloserIdle" and "usb_open u1 = usb_open u"
  using assms(3)
  by (cases rule: usb_step_cases;
      use assms(1,2) in \<open>auto simp: usb_calls usb_close_step_def usb_read_frame_def usb_write_frame_def
        dest!: usb_read_thread_frame usb_write_thread_frame split: if_splits\<close>)+

lemma usb_keeps_hearing:
  assumes "hearing usb_underlying n u" and "usb_step u e = Some u1" and "usb_client u e"
    and "usb_open u" and "usb_closer u = CloserIdle" and "e \<noteq> UsbClose"
  shows "hearing usb_underlying (n + reads_in (usb_issued e)) u1"
proof -
  have op: "usb_open u1" using usb_stays_open(2) [OF assms(5,6,2)] assms(4) by simp
  show ?thesis
    using assms(2)
  proof (cases rule: usb_step_cases)
    case 4
    with assms(5) show ?thesis by (simp add: usb_close_step_def)
  next
    case 6
    with assms(1) op show ?thesis
      by (auto simp: usb_reading usb_hearing usb_issued_def split: thread.splits if_splits)
  next
    case 7
    with assms(1) op show ?thesis
      by (auto simp: usb_reading usb_hearing usb_issued_def split: if_splits option.splits transfer_result.splits)
  next
    case 8
    with assms(1) op show ?thesis
      by (auto simp: usb_writing usb_hearing usb_issued_def split: thread.splits if_splits)
  next
    case 9
    with assms(1) op show ?thesis
      by (auto simp: usb_writing usb_hearing usb_issued_def
          split: thread.splits if_splits option.splits transfer_result.splits)
  qed (use assms(1,3,4,6) op in \<open>auto simp: usb_calls usb_hearing usb_issued_def usb_client_def split: if_splits\<close>)
qed

text \<open>A transport that is not open, with no call of \<open>close\<close> running, has been closed: nothing moves.\<close>

lemma usb_closed_rests:
  assumes "usb_close_ok u" and "\<not> usb_open u" and "usb_closer u = CloserIdle"
    and "usb_step u e = Some u1" and "reads_in (usb_issued e) = 0"
  shows "results (usb_posted u1) = results (usb_posted u)" and "usb_pending_read u1 = usb_pending_read u"
proof -
  have rest: "usb_read_thread u = Exited" "usb_write_thread u = Exited"
    "usb_pending_read u = None" "usb_pending_write u = None"
    using assms(1-3) by (auto simp: usb_close_ok_def split: if_splits)
  show "results (usb_posted u1) = results (usb_posted u)" "usb_pending_read u1 = usb_pending_read u"
    using assms(4)
    by (cases rule: usb_step_cases;
        use assms(2,3,5) rest in \<open>auto simp: usb_calls usb_close_step_def usb_reading usb_writing usb_issued_def
          split: if_splits\<close>)+
qed

interpretation usb_stack: heard_transport usb_underlying
proof
  show "ul_free usb_underlying (ul_new usb_underlying)" "hearing usb_underlying 0 (ul_new usb_underlying)"
    by (simp_all add: usb_hearing new_usb_def usb_caller_free_def)
  show "ul_free usb_underlying u1"
    if "ul_free usb_underlying u" "ul_works usb_underlying e" "ul_step usb_underlying u e = Some u1" for u e u1
    using that usb_stays_open(1) [of u e u1] usb_works [OF that(2)] by (simp add: usb_caller_free_def)
  show "ul_failing usb_underlying u1
      \<or> hearing usb_underlying (n + reads_in (ul_issued usb_underlying e)) u1
        \<and> (ul_open usb_underlying u \<longrightarrow> ul_open usb_underlying u1 \<or> 0 < reads_in (ul_held usb_underlying u1))"
    if reach: "ul_reach usb_underlying es u" and client: "ul_client usb_underlying u e"
      and works: "ul_works usb_underlying e" and free: "ul_free usb_underlying u"
      and h: "hearing usb_underlying n u" and step: "ul_step usb_underlying u e = Some u1"
      and op: "0 < reads_in (ul_issued usb_underlying e) \<Longrightarrow> ul_open usb_underlying u" for es u e n u1
  proof -
    have step: "usb_step u e = Some u1" and idle: "usb_closer u = CloserIdle" and e: "e \<noteq> UsbClose"
      using step free usb_works [OF works] by (simp_all add: usb_caller_free_def)
    note stays = usb_stays_open [OF idle e step]
    show ?thesis
    proof (cases "usb_open u")
      case True
      with usb_keeps_hearing [OF h step _ True idle e] client stays show ?thesis by simp
    next
      case False
      then have none: "reads_in (usb_issued e) = 0" using op by auto
      have "usb_close_ok u" using reach usb_reach_close_ok by simp
      note rests = usb_closed_rests [OF this False idle step none]
      show ?thesis using h stays(2) False none by (auto simp: usb_hearing rests)
    qed
  qed
qed simp_all

section \<open>What holds of a wired connection\<close>

text \<open>
  C27. The wired connection, too, is a refinement of its parts. In every run of the stack the connection
  makes a run that its contract allows; in it the session makes a run of its own, and
  \<open>BufferedTransport\<close> makes the run of the calls of that session and of what arrives, which its contract
  allows; the USB transport makes a run that its contract allows, and is called with what
  \<open>BufferedTransport\<close> asked for, in order.
\<close>

theorem wired_refines_its_parts:
  assumes "stack_reach usb_underlying env (session_with cfg cr svcs) es st"
  defines "s \<equiv> session_with cfg cr svcs"
  shows "(\<exists>ces. run_enabled cn_enabled (cn_step env) (new_connection s) ces
      \<and> st_conn st = run_events (cn_step env) (new_connection s) ces
      \<and> run_enabled bt_enabled bt_step new_buffered (BtStart # transport_trace env (new_connection s) ces)
      \<and> cn_transport (st_conn st) =
          run_events bt_step new_buffered (BtStart # transport_trace env (new_connection s) ces))
    \<and> (\<exists>ses. run_enabled session_enabled (session_step env) s ses
      \<and> cn_session (st_conn st) = run_events (session_step env) s ses)
    \<and> (\<exists>ues. reach new_usb usb_client usb_step ues (st_native st)
      \<and> filter (\<lambda>e. \<not> usb_thread e) ues =
          take (st_called st) (requested usb_underlying (cn_transport (st_conn st))))"
  using usb_stack.refines_its_parts [OF assms(1)] by (simp add: calls_of_def s_def)

text \<open>
  C26. A wired connection never goes deaf. From \<open>start\<close> on, as long as the session has not
  closed its transport, it has not ended, and the next bytes of the phone, or the error that
  takes their place, are on their way to it: a handler of the session is posted, or a read of
  the USB transport has completed, or one is about to be issued, or the open transport has it and its
  read thread attends to it, in the transfer or with the request set and no more than two of its own
  steps before it, never asleep and never about to sleep; or the error of a failed write is about to be
  handled.
\<close>

theorem wired_never_goes_deaf:
  assumes "stack_reach usb_underlying env (session_with cfg cr svcs) es st"
    and "StIo (CnSession t EvStart) \<in> set es" and "\<not> bt_closed (cn_transport (st_conn st))"
  shows "\<not> is_terminal (ss_state (cn_session (st_conn st)))
    \<and> (posted_reads (st_conn st) \<noteq> []
      \<or> results (unrun usb_underlying st) \<noteq> []
      \<or> 0 < read_requests usb_underlying (pending_calls usb_underlying st)
      \<or> usb_pending_read (st_native st) \<noteq> None \<and> usb_open (st_native st) \<and> usb_attending (st_native st)
      \<or> write_errors (unrun usb_underlying st))"
proof -
  obtain ues where "reach new_usb usb_client usb_step ues (st_native st)"
    using usb_stack.refines_its_parts [OF assms(1)] by auto
  note attended = usb_open_read_attended [OF this]
  from usb_stack.never_goes_deaf [OF assms] attended show ?thesis
    by (auto simp: write_failing_def usb_held_in split: if_splits)
qed

section \<open>A run\<close>

text \<open>The session starts, the version request is transferred, and the phone answers.\<close>

definition wired_events :: "bytes \<Rightarrow> usb_event stack_event list" where
  "wired_events w =
     [StCall, StIo (CnSession 0 EvStart), StCall, StThread UsbWriter, StThread UsbWriter,
      StThread (UsbBulkOut (Transferred (length w))), StThread UsbReader, StThread UsbReader,
      StThread (UsbBulkIn (Transferred [0, 3, 0]))]"

definition wired_state :: "bytes \<Rightarrow> (mock_crypto, service, usb_transport) stack" where
  "wired_state w =
     \<lparr>st_conn = cn_step demo_env demo_connection (CnSession 0 EvStart),
      st_native = new_usb\<lparr>usb_sent := w, usb_posted := [WriteDone 1 None (length w), ReadDone 0 None [0, 3, 0]]\<rparr>,
      st_called = 2, st_run = 0\<rparr>"

lemma wired_run:
  obtains w where "w \<noteq> []" "stack_reach usb_underlying demo_env demo_session (wired_events w) (wired_state w)"
    "pending_calls usb_underlying (wired_state w) = []"
proof -
  obtain w where w: "w \<noteq> []" "new_calls demo_env demo_session (0, EvStart) =
      [TimerCancel, ToObserverState VersionExchange, TimerArm 5000, TransportRead, TransportWrite w]"
    by (rule demo_first_write)
  note eval = demo_start_eval w(2) new_stack_def pending_calls_def requested_def io_free_def own_event_def
    wired_state_def kUnderlyingReadSize_def
  have "run_option (\<lambda>_ _. True) (stack_step usb_underlying demo_env) (new_stack usb_underlying demo_session)
      (wired_events w) = Some (wired_state w)"
    by (simp add: wired_events_def stack_step_def eval demo_idle usb_eval usb_thread_def)
  then have "stack_reach usb_underlying demo_env demo_session (wired_events w) (wired_state w)"
    by (rule run_reach)
  moreover have "pending_calls usb_underlying (wired_state w) = []" by (simp add: eval)
  ultimately show ?thesis using w(1) that by blast
qed

theorem wired_refines_its_parts_witness:
  "\<exists>w tes. w \<noteq> [] \<and> reach new_usb usb_client usb_step tes (st_native (wired_state w))
    \<and> filter (\<lambda>e. \<not> usb_thread e) tes = requested usb_underlying (cn_transport (st_conn (wired_state w)))"
proof -
  obtain w where w: "w \<noteq> []" "stack_reach usb_underlying demo_env demo_session (wired_events w) (wired_state w)"
    "pending_calls usb_underlying (wired_state w) = []"
    by (rule wired_run)
  then have "take (st_called (wired_state w)) (requested usb_underlying (cn_transport (st_conn (wired_state w)))) =
      requested usb_underlying (cn_transport (st_conn (wired_state w)))"
    by (simp add: pending_calls_def)
  with wired_refines_its_parts [OF w(2) [unfolded demo_session_def]] w(1) show ?thesis by metis
qed

theorem wired_never_goes_deaf_witness:
  "\<exists>w. w \<noteq> [] \<and> \<not> is_terminal (ss_state (cn_session (st_conn (wired_state w))))
    \<and> results (unrun usb_underlying (wired_state w)) = [(None, [0, 3, 0])]"
proof -
  obtain w where w: "w \<noteq> []" "stack_reach usb_underlying demo_env demo_session (wired_events w) (wired_state w)"
    by (rule wired_run)
  have "StIo (CnSession 0 EvStart) \<in> set (wired_events w)" by (simp add: wired_events_def)
  moreover have "\<not> bt_closed (cn_transport (st_conn (wired_state w)))"
    by (simp add: wired_state_def demo_open)
  moreover have "results (unrun usb_underlying (wired_state w)) = [(None, [0, 3, 0])]"
    by (simp add: unrun_def wired_state_def new_usb_def)
  ultimately show ?thesis
    using wired_never_goes_deaf [OF w(2) [unfolded demo_session_def]] w(1) by blast
qed

end
