(* ===== verification/Names.thy ===== *)
theory Names
  imports Descriptor
begin

text \<open>
  The names that log lines give to channels and message types
  (\<open>core/include/aauto/utils/ProtocolUtil.hpp\<close>). A \<open>switch\<close> that returns a literal for each
  case is an association list from the case labels; \<open>None\<close> is the null pointer of its
  \<open>default\<close>. \<open>snprintf\<close> is the text it prints: its buffers are never too short
  (\<open>names_fit\<close>).
\<close>

section \<open>The tables\<close>

definition control_names :: "(u16 \<times> string) list" where
  "control_names =
     [(ctl VersionRequest, ''VERSION_REQ''), (ctl VersionResponse, ''VERSION_RESP''),
      (ctl EncapsulatedSsl, ''SSL_HANDSHAKE''), (ctl AuthComplete, ''AUTH_COMPLETE''),
      (ctl ServiceDiscoveryRequest, ''SERVICE_DISCOVERY_REQ''),
      (ctl ServiceDiscoveryResponse, ''SERVICE_DISCOVERY_RESP''),
      (ctl ChannelOpenRequest, ''CHANNEL_OPEN_REQ''), (ctl ChannelOpenResponse, ''CHANNEL_OPEN_RESP''),
      (ctl ChannelCloseNotification, ''CHANNEL_CLOSE''), (ctl PingRequest, ''PING_REQ''),
      (ctl PingResponse, ''PING_RESP''), (ctl NavFocusRequest, ''NAV_FOCUS_REQ''),
      (ctl NavFocusNotification, ''NAV_FOCUS_NOTIF''), (ctl ByeByeRequest, ''BYEBYE_REQ''),
      (ctl ByeByeResponse, ''BYEBYE_RESP''), (ctl VoiceSessionNotification, ''VOICE_SESSION''),
      (ctl AudioFocusRequest, ''AUDIO_FOCUS_REQ''), (ctl AudioFocusNotification, ''AUDIO_FOCUS_NOTIF''),
      (ctl BatteryStatusNotification, ''BATTERY_STATUS'')]"

definition media_names :: "(u16 \<times> string) list" where
  "media_names =
     [(med MediaData, ''MEDIA_DATA''), (med MediaCodecConfig, ''CODEC_CONFIG''),
      (med MediaSetup, ''MEDIA_SETUP''), (med MediaStart, ''MEDIA_START''),
      (med MediaStop, ''MEDIA_STOP''), (med MediaConfig, ''MEDIA_CONFIG''),
      (med MediaAck, ''MEDIA_ACK''), (med MicrophoneRequest, ''MIC_REQ''),
      (med MicrophoneResponse, ''MIC_RESP''), (med VideoFocusRequest, ''VIDEO_FOCUS_REQ''),
      (med VideoFocusNotification, ''VIDEO_FOCUS_NOTIF'')]"

definition input_names :: "(u16 \<times> string) list" where
  "input_names =
     [(32769, ''INPUT_REPORT''), (32770, ''KEY_BINDING_REQ''), (32771, ''KEY_BINDING_RESP''),
      (32772, ''INPUT_FEEDBACK'')]"

definition mediaplayback_names :: "(u16 \<times> string) list" where
  "mediaplayback_names =
     [(32769, ''PLAYBACK_STATUS''), (32770, ''PLAYBACK_INPUT''), (32771, ''PLAYBACK_METADATA'')]"

definition mediabrowser_names :: "(u16 \<times> string) list" where
  "mediabrowser_names =
     [(32769, ''ROOT_NODE''), (32770, ''SOURCE_NODE''), (32771, ''LIST_NODE''), (32772, ''SONG_NODE''),
      (32773, ''GET_NODE''), (32774, ''BROWSE_INPUT'')]"

definition phonestatus_names :: "(u16 \<times> string) list" where
  "phonestatus_names = [(32769, ''PHONE_STATUS''), (32770, ''PHONE_STATUS_INPUT'')]"

definition bluetooth_names :: "(u16 \<times> string) list" where
  "bluetooth_names =
     [(32769, ''PAIRING_REQUEST''), (32770, ''PAIRING_RESPONSE''), (32771, ''AUTH_DATA''),
      (32772, ''AUTH_RESULT'')]"

text \<open>The table that \<open>msg_type_name\<close> falls through to on a channel.\<close>

definition channel_table :: "byte \<Rightarrow> (u16 \<times> string) list" where
  "channel_table ch =
     (if ch = 5 then input_names
      else if ch = 9 then phonestatus_names
      else if ch = 10 then mediaplayback_names
      else if ch = 12 then mediabrowser_names
      else if ch = 13 then bluetooth_names
      else media_names)"

definition hex_digit :: "nat \<Rightarrow> char" where
  "hex_digit d = (if d < 10 then char_of (48 + d) else char_of (87 + d))"

text \<open>\<open>"0x%04x"\<close> of a \<open>uint16_t\<close>.\<close>

definition hex4 :: "u16 \<Rightarrow> string" where
  "hex4 t = ''0x'' @ map (\<lambda>k. hex_digit (unat t div 16 ^ k mod 16)) [3, 2, 1, 0]"

definition msg_type_name :: "byte \<Rightarrow> u16 \<Rightarrow> string" where
  "msg_type_name channel type =
     (case map_of control_names type of
        Some n \<Rightarrow> n
      | None \<Rightarrow> (case map_of (channel_table channel) type of Some n \<Rightarrow> n | None \<Rightarrow> hex4 type))"

definition channel_names :: "(byte \<times> string) list" where
  "channel_names =
     [(0, ''control''), (1, ''video''), (2, ''audio.media''), (3, ''audio.guidance''),
      (4, ''audio.system''), (5, ''input''), (6, ''sensor''), (7, ''microphone''),
      (8, ''nav.status''), (9, ''phone.status''), (10, ''media.playback''), (11, ''notification''),
      (12, ''media.browser''), (13, ''bluetooth''), (14, ''vendor.ext''), (15, ''video.cluster'')]"

definition channel_name :: "byte \<Rightarrow> string" where
  "channel_name ch =
     (case map_of channel_names ch of Some n \<Rightarrow> n | None \<Rightarrow> ''ch'' @ nat_to_string (unat ch))"

section \<open>Names identify\<close>

lemma map_of_inj:
  assumes "distinct (map snd xs)" and "map_of xs a = Some v" and "map_of xs b = Some v"
  shows "a = b"
  using assms
  by (induction xs) (auto split: if_splits simp: map_of_SomeD dest!: map_of_SomeD intro: rev_image_eqI)

lemma inj_table:
  assumes "distinct (map snd xs)" and "inj other" and "\<And>k. other k \<notin> snd ` set xs"
  shows "inj (\<lambda>k. case map_of xs k of Some n \<Rightarrow> n | None \<Rightarrow> other k)"
proof (rule injI)
  fix a b
  assume eq: "(case map_of xs a of Some n \<Rightarrow> n | None \<Rightarrow> other a) =
              (case map_of xs b of Some n \<Rightarrow> n | None \<Rightarrow> other b)"
  have in_range: "n \<in> snd ` set xs" if "map_of xs k = Some n" for k n
    using map_of_SomeD [OF that] by force
  show "a = b"
  proof (cases "map_of xs a"; cases "map_of xs b")
    fix n m assume "map_of xs a = Some n" "map_of xs b = Some m"
    then show ?thesis using eq map_of_inj [OF assms(1)] by simp
  next
    assume "map_of xs a = None" "map_of xs b = None"
    then show ?thesis using eq assms(2) by (simp add: inj_eq)
  qed (use eq assms(3) in_range in fastforce)+
qed

lemma hex_digit_inj: "d < 16 \<Longrightarrow> e < 16 \<Longrightarrow> hex_digit d = hex_digit e \<Longrightarrow> d = e"
  by (auto simp: hex_digit_def char_of_eq_iff take_bit_eq_mod split: if_splits)

lemma hex4_inj: "inj hex4"
proof (rule injI)
  fix a b :: u16
  assume "hex4 a = hex4 b"
  then have d: "unat a div 16 ^ k mod 16 = unat b div 16 ^ k mod 16" if "k \<in> {0, 1, 2, 3}" for k
    using that by (auto simp: hex4_def intro!: hex_digit_inj)
  have split: "n = (n div 16 ^ 3 mod 16) * 4096 + (n div 16 ^ 2 mod 16) * 256 + (n div 16 ^ 1 mod 16) * 16 + n div 16 ^ 0 mod 16"
    if "n < 65536" for n :: nat
  proof -
    have pow: "n div 16 ^ 0 = n" "n div 16 ^ 1 = n div 16" "n div 16 ^ 2 = n div 16 div 16"
      "n div 16 ^ 3 = n div 16 div 16 div 16"
      by (simp_all flip: div_mult2_eq)
    have "n div 16 div 16 div 16 mod 16 = n div 16 div 16 div 16" using that by simp
    then show ?thesis
      unfolding pow
      using mult_div_mod_eq [of 16 n] mult_div_mod_eq [of 16 "n div 16"] mult_div_mod_eq [of 16 "n div 16 div 16"]
      by linarith
  qed
  have "unat a < 65536" "unat b < 65536"
    using unsigned_less [of a] unsigned_less [of b] by simp_all
  from split [OF this(1)] split [OF this(2)] have "unat a = unat b"
    using d [of 0] d [of 1] d [of 2] d [of 3] by (metis insertI1 insertI2)
  then show "a = b" by (simp add: word_unat_eq_iff)
qed

lemmas name_tables = control_names_def media_names_def input_names_def mediaplayback_names_def
  mediabrowser_names_def phonestatus_names_def bluetooth_names_def

lemma tables_distinct: "distinct (map snd (control_names @ channel_table ch))"
  by (simp add: channel_table_def name_tables)

lemma hex4_not_named: "hex4 t \<notin> snd ` set (control_names @ channel_table ch)"
  by (simp add: channel_table_def name_tables hex4_def)

lemma msg_type_name_inj: "inj (msg_type_name ch)"
proof -
  have "msg_type_name ch = (\<lambda>k. case map_of (control_names @ channel_table ch) k of Some n \<Rightarrow> n | None \<Rightarrow> hex4 k)"
    by (rule ext) (simp add: msg_type_name_def map_add_def split: option.split)
  then show ?thesis using inj_table [OF tables_distinct hex4_inj hex4_not_named] by simp
qed

lemma nat_to_string_inj: "nat_to_string m = nat_to_string n \<Longrightarrow> m = n"
  by (metis nat_to_string_value of_nat_eq_iff)

lemma channel_name_inj: "inj channel_name"
proof -
  have "distinct (map snd channel_names)" by (simp add: channel_names_def)
  moreover have "inj (\<lambda>ch :: byte. ''ch'' @ nat_to_string (unat ch))"
    by (rule injI) (auto dest: nat_to_string_inj simp: word_unat_eq_iff)
  moreover have "''ch'' @ nat_to_string n \<notin> snd ` set channel_names" for n
    by (simp add: channel_names_def)
  moreover have "channel_name = (\<lambda>k. case map_of channel_names k of Some n \<Rightarrow> n | None \<Rightarrow> ''ch'' @ nat_to_string (unat k))"
    by (rule ext) (simp add: channel_name_def)
  ultimately show ?thesis using inj_table [of channel_names "\<lambda>ch. ''ch'' @ nat_to_string (unat ch)"] by simp
qed

text \<open>
  Within a channel, a log line identifies the message type: no two of the 65536 types
  print the same name, and neither do two channels.
\<close>

theorem names_identify: "inj (msg_type_name ch) \<and> inj channel_name"
  using msg_type_name_inj channel_name_inj by blast

text \<open>
  The control names are matched first, on every channel: a codec configuration is logged as
  a version request.
\<close>

lemma codec_config_is_logged_as_version_request:
  "msg_type_name ch (med MediaCodecConfig) = ''VERSION_REQ''"
  by (simp add: msg_type_name_def control_names_def)

text \<open>The sensor channel uses the media names: its requests are logged as starts.\<close>

lemma sensor_request_is_logged_as_media_start:
  "msg_type_name 6 (sen SensorReq) = ''MEDIA_START''"
  by (simp add: msg_type_name_def control_names_def channel_table_def media_names_def)

lemma nat_to_string_short: "n < 1000 \<Longrightarrow> length (nat_to_string n) \<le> 3"
  by (simp add: nat_to_string.simps [of n] nat_to_string.simps [of "n div 10"]
      nat_to_string.simps [of "n div 10 div 10"])

lemma names_fit: "length (hex4 t) < 16" "length (''ch'' @ nat_to_string (unat (ch :: byte))) < 8"
  using nat_to_string_short [of "unat ch"] unat_byte_less [of ch] by (simp_all add: hex4_def)

end
