(* ===== verification/Logging.thy ===== *)
theory Logging
  imports Names Session
begin

text \<open>
  Log output: \<open>core/src/utils/Logger.cpp\<close>, the log function of \<open>impl/android/main/main.cpp\<close>, and
  the tag by which \<open>Session\<close> and \<open>Engine\<close> tell the lines of different sessions apart. The text
  that \<open>vfprintf\<close> or \<open>vsnprintf\<close> makes of a format and its arguments is an argument of the
  definitions, \<open>msg\<close>; the time of day is a record.
\<close>

section \<open>The logger\<close>

datatype log_level = LogDebug | LogInfo | LogWarn | LogError

datatype android_priority =
  ANDROID_LOG_DEBUG | ANDROID_LOG_INFO | ANDROID_LOG_WARN | ANDROID_LOG_ERROR

primrec level_str :: "log_level \<Rightarrow> string" where
  "level_str LogDebug = ''D''"
| "level_str LogInfo = ''I''"
| "level_str LogWarn = ''W''"
| "level_str LogError = ''E''"

primrec android_prio :: "log_level \<Rightarrow> android_priority" where
  "android_prio LogDebug = ANDROID_LOG_DEBUG"
| "android_prio LogInfo = ANDROID_LOG_INFO"
| "android_prio LogWarn = ANDROID_LOG_WARN"
| "android_prio LogError = ANDROID_LOG_ERROR"

record time_of_day =
  tm_hour :: nat
  tm_min :: nat
  tm_sec :: nat
  tm_ms :: nat

text \<open>\<open>%0nd\<close> of a number, \<open>%-ns\<close> of a string, and \<open>snprintf\<close> into a buffer of \<open>n\<close> bytes.\<close>

definition zero_pad :: "nat \<Rightarrow> nat \<Rightarrow> string" where
  "zero_pad n k = replicate (n - length (nat_to_string k)) CHR ''0'' @ nat_to_string k"

definition pad_right :: "nat \<Rightarrow> string \<Rightarrow> string" where
  "pad_right n s = s @ replicate (n - length s) CHR '' ''"

definition snprintf :: "nat \<Rightarrow> string \<Rightarrow> string" where
  "snprintf n s = take (n - 1) s"

definition time_stamp :: "time_of_day \<Rightarrow> string" where
  "time_stamp now = zero_pad 2 (tm_hour now) @ '':'' @ zero_pad 2 (tm_min now) @ '':''
     @ zero_pad 2 (tm_sec now) @ ''.'' @ zero_pad 3 (tm_ms now)"

datatype log_output =
    ToStderr string
  | ToLogcat android_priority string string

definition default_log :: "time_of_day \<Rightarrow> string \<Rightarrow> log_level \<Rightarrow> string \<Rightarrow> string \<Rightarrow> log_output" where
  "default_log now session_tag level tag msg =
     ToStderr (time_stamp now @ '' ''
       @ (if session_tag = [] then [] else session_tag @ '' '')
       @ ''['' @ level_str level @ ''/'' @ tag @ ''] '' @ msg @ [CHR 0x0A])"

definition android_log_function :: "string \<Rightarrow> log_level \<Rightarrow> string \<Rightarrow> string \<Rightarrow> log_output" where
  "android_log_function session_tag level tag msg =
     (let padded_tag = snprintf 24 (pad_right 18 tag)
      in if session_tag = [] then ToLogcat (android_prio level) padded_tag msg
         else ToLogcat (android_prio level) padded_tag
                (pad_right 14 session_tag @ '' '' @ snprintf 4096 msg))"

text \<open>The log function, and the tag of each thread (\<open>thread_local\<close>).\<close>

datatype log_function = DefaultLog | AndroidLog

record logger =
  g_log_fn :: log_function
  g_session_tag :: "nat \<Rightarrow> string"

definition new_logger :: logger where
  "new_logger = \<lparr>g_log_fn = DefaultLog, g_session_tag = \<lambda>_. []\<rparr>"

definition set_log_function :: "log_function option \<Rightarrow> logger \<Rightarrow> logger" where
  "set_log_function fn l = l\<lparr>g_log_fn := (case fn of Some f \<Rightarrow> f | None \<Rightarrow> DefaultLog)\<rparr>"

definition set_session_tag :: "nat \<Rightarrow> string \<Rightarrow> logger \<Rightarrow> logger" where
  "set_session_tag th tag l = l\<lparr>g_session_tag := (g_session_tag l)(th := tag)\<rparr>"

definition get_session_tag :: "nat \<Rightarrow> logger \<Rightarrow> string" where
  "get_session_tag th l = g_session_tag l th"

definition log_impl :: "time_of_day \<Rightarrow> nat \<Rightarrow> log_level \<Rightarrow> string \<Rightarrow> string \<Rightarrow> logger \<Rightarrow> log_output" where
  "log_impl now th level tag msg l =
     (case g_log_fn l of
        DefaultLog \<Rightarrow> default_log now (g_session_tag l th) level tag msg
      | AndroidLog \<Rightarrow> android_log_function (get_session_tag th l) level tag msg)"

section \<open>The tags of sessions\<close>

text \<open>
  \<open>session_tag_\<close> of each session. A session puts its tag on the io thread when it starts, when it
  is renamed, and when a read or a write completes; \<open>Engine::do_start_session\<close> does so with the tag
  of the session it creates.
\<close>

type_synonym session_tags = "u32 \<rightharpoonup> string"

definition plain_tag :: "u32 \<Rightarrow> string" where
  "plain_tag sid = ''s'' @ nat_to_string (unat sid)"

datatype tag_event =
    TagCreate u32
  | TagHandle u32 session_event
  | TagIdentified u32 string

text \<open>What follows the first space of the name the phone gives itself; all of it if there is none.\<close>

definition short_name :: "string \<Rightarrow> string" where
  "short_name name = (case dropWhile (\<lambda>c. c \<noteq> CHR '' '') name of [] \<Rightarrow> name | _ # rest \<Rightarrow> rest)"

definition activate_log_tag :: "nat \<Rightarrow> u32 \<Rightarrow> session_tags \<times> logger \<Rightarrow> session_tags \<times> logger" where
  "activate_log_tag io sid tgs =
     (fst tgs, case fst tgs sid of None \<Rightarrow> snd tgs | Some tag \<Rightarrow> set_session_tag io tag (snd tgs))"

definition update_log_tag :: "nat \<Rightarrow> u32 \<Rightarrow> string \<Rightarrow> session_tags \<times> logger \<Rightarrow> session_tags \<times> logger" where
  "update_log_tag io sid ending tgs =
     activate_log_tag io sid ((fst tgs)(sid \<mapsto> plain_tag sid @ '':'' @ ending), snd tgs)"

definition tag_step :: "nat \<Rightarrow> session_tags \<times> logger \<Rightarrow> tag_event \<Rightarrow> session_tags \<times> logger" where
  "tag_step io tgs e =
     (case e of
        TagCreate sid \<Rightarrow> ((fst tgs)(sid \<mapsto> plain_tag sid), set_session_tag io (plain_tag sid) (snd tgs))
      | TagHandle sid ev \<Rightarrow>
          (case ev of
             EvStart \<Rightarrow> activate_log_tag io sid tgs
           | EvRead ec data \<Rightarrow> activate_log_tag io sid tgs
           | EvWrite ec \<Rightarrow> activate_log_tag io sid tgs
           | _ \<Rightarrow> tgs)
      | TagIdentified sid name \<Rightarrow> update_log_tag io sid (short_name name) tgs)"

section \<open>What a log line tells\<close>

lemma length_zero_pad: "k < 10 ^ n \<Longrightarrow> 0 < n \<Longrightarrow> length (zero_pad n k) = n"
proof -
  have "length (nat_to_string k) \<le> n" if "k < 10 ^ n" "0 < n" for k n
    using that
  proof (induction k arbitrary: n rule: nat_to_string.induct)
    case (1 k)
    show ?case
    proof (cases "k < 10")
      case False
      with 1(2,3) obtain m where m: "n = Suc m" "0 < m" by (cases n; cases "n - 1") auto
      moreover have "k div 10 < 10 ^ m" using 1(2) m(1) by (simp add: div_less_iff_less_mult mult.commute)
      ultimately show ?thesis using 1(1) [OF False, of m] by (subst nat_to_string.simps) simp
    qed (use 1(3) in \<open>subst nat_to_string.simps, simp\<close>)
  qed
  then show "k < 10 ^ n \<Longrightarrow> 0 < n \<Longrightarrow> length (zero_pad n k) = n" by (simp add: zero_pad_def)
qed

text \<open>The columns of the default log are aligned: the time takes twelve characters.\<close>

lemma time_stamp_width:
  assumes "tm_hour now < 24" and "tm_min now < 60" and "tm_sec now \<le> 60" and "tm_ms now < 1000"
  shows "length (time_stamp now) = 12"
  using assms by (simp add: time_stamp_def length_zero_pad)

text \<open>
  In the log of the device nothing is lost of a line of up to 4095 bytes, and the session can be
  read off: two lines of different sessions differ, whatever they say, if the tags are of
  the same length or fit their column.
\<close>

lemma pad_right_inj:
  assumes "pad_right n a @ x = pad_right n b @ y" and "length a \<le> n" and "length b \<le> n"
    and "CHR '' '' \<notin> set a" and "CHR '' '' \<notin> set b"
  shows "a = b"
proof -
  have "length (pad_right n a) = length (pad_right n b)" using assms(2,3) by (simp add: pad_right_def)
  with assms(1) have "pad_right n a = pad_right n b" by simp
  then have "takeWhile (\<lambda>c. c \<noteq> CHR '' '') (pad_right n a) = takeWhile (\<lambda>c. c \<noteq> CHR '' '') (pad_right n b)"
    by simp
  moreover have "takeWhile (\<lambda>c. c \<noteq> CHR '' '') (pad_right n c) = c" if "CHR '' '' \<notin> set c" for c
    using that by (auto simp: pad_right_def takeWhile_append takeWhile_replicate)
  ultimately show ?thesis using assms(4,5) by simp
qed

lemma nat_to_string_no_space: "CHR '' '' \<notin> set (nat_to_string n)"
  using nat_to_string_digits [of n] by (auto simp: is_digit_def)

lemma android_line_names_session:
  assumes "android_log_function (plain_tag sid) level tag msg = android_log_function (plain_tag sid') level' tag' msg'"
  shows "sid = sid'"
proof -
  have len: "length (plain_tag s) \<le> 14" for s
  proof -
    have "unat s < 2 ^ LENGTH(32)" by (rule unsigned_less)
    then have "unat s < 10 ^ 10" by simp
    with length_zero_pad [of "unat s" 10] show ?thesis by (simp add: plain_tag_def zero_pad_def)
  qed
  have space: "CHR '' '' \<notin> set (plain_tag s)" for s by (simp add: plain_tag_def nat_to_string_no_space)
  have "plain_tag s \<noteq> []" for s by (simp add: plain_tag_def)
  then have "pad_right 14 (plain_tag sid) @ ('' '' @ snprintf 4096 msg) =
      pad_right 14 (plain_tag sid') @ ('' '' @ snprintf 4096 msg')"
    using assms by (simp add: android_log_function_def Let_def)
  then have "plain_tag sid = plain_tag sid'" by (rule pad_right_inj) (simp_all only: len space not_False_eq_True)
  then show ?thesis by (simp add: plain_tag_def nat_to_string_inj word_unat_eq_iff)
qed

text \<open>
  What a session logs while it handles a read or a write carries its own tag.
\<close>

lemma completions_are_tagged:
  assumes "fst tgs sid = Some tag" and "e = TagHandle sid (EvRead ec data) \<or> e = TagHandle sid (EvWrite wec)"
  shows "get_session_tag io (snd (tag_step io tgs e)) = tag"
  using assms by (auto simp: tag_step_def activate_log_tag_def set_session_tag_def get_session_tag_def)

text \<open>
  Nothing else does: with two sessions, what a timer, a heartbeat or a request of the app makes the
  first session log is logged under the tag of the one that was active last.
\<close>

lemma timeout_is_logged_under_other_session:
  "get_session_tag io (snd (foldl (tag_step io) (Map.empty, new_logger)
     [TagCreate 1, TagHandle 1 EvStart, TagCreate 2, TagHandle 2 EvStart, TagHandle 1 EvTimeout])) = ''s2''"
proof -
  have "nat_to_string 2 = ''2''" by code_simp
  then show ?thesis
    by (simp add: tag_step_def activate_log_tag_def set_session_tag_def get_session_tag_def plain_tag_def)
qed

end
