(* ===== verification/Aap_Handshaker.thy ===== *)
theory Aap_Handshaker
  imports Framer Handshake
begin

text \<open>
  \<open>AapHandshaker\<close> (\<open>aa/core/src/session/AapHandshaker.cpp\<close>): the blocking handshake of the
  first version of the program, kept in the tree beside \<open>HandshakeCoordinator\<close>. The headers
  it includes (\<open>AapProtocol.hpp\<close>, \<open>CryptoManager.hpp\<close>, the old \<open>ITransport\<close>) are not in the
  repository: what it uses of them is the record \<open>handshaker_env\<close>.

  An index or an iterator range outside the vector is undefined behaviour in C++; here it is
  the error \<open>OutOfRange\<close>. \<open>DoVersionExchange\<close> loops until the phone answers or the transport
  gives up, so it is a partial function.
\<close>

section \<open>Parameters and state\<close>

record ('t, 'c) handshaker_env =
  header_size :: nat
  ch_control :: byte
  type_version_req :: u16
  type_version_resp :: u16
  type_ssl_handshake :: u16
  type_auth_complete :: u16
  pack :: "byte \<Rightarrow> u16 \<Rightarrow> bytes \<Rightarrow> byte \<Rightarrow> bytes"
  transport_send :: "bytes \<Rightarrow> 't \<Rightarrow> 't \<times> bool"
  transport_receive :: "'t \<Rightarrow> 't \<times> bytes"
  set_strategy :: "'c \<Rightarrow> 'c"
  is_handshake_complete :: "'c \<Rightarrow> bool"
  get_handshake_data :: "'c \<Rightarrow> 'c \<times> bytes"
  put_handshake_data :: "bytes \<Rightarrow> 'c \<Rightarrow> 'c"
  auth_response :: "bytes option"   \<comment> \<open>the serialized \<open>AuthResponse\<close>\<close>

record ('t, 'c) handshaker =
  hk_transport :: 't
  hk_crypto :: 'c
  leftover :: bytes

datatype memory_error = OutOfRange

section \<open>Helpers\<close>

definition ReadInto :: "('t, 'c) handshaker_env \<Rightarrow> bytes \<Rightarrow> ('t, 'c) handshaker \<Rightarrow>
    ('t, 'c) handshaker \<times> bytes option" where
  "ReadInto env buf h =
     (let (t, chunk) = transport_receive env (hk_transport h)
      in (h\<lparr>hk_transport := t\<rparr>, if chunk = [] then None else Some (buf @ chunk)))"

definition Send :: "('t, 'c) handshaker_env \<Rightarrow> u16 \<Rightarrow> bytes \<Rightarrow> ('t, 'c) handshaker \<Rightarrow>
    ('t, 'c) handshaker \<times> bool" where
  "Send env type payload h =
     (let (t, ok) = transport_send env (pack env (ch_control env) type payload 0x03) (hk_transport h)
      in (h\<lparr>hk_transport := t\<rparr>, ok))"

text \<open>The visitor works on a state of its own and says whether to go on.\<close>

function WalkPackets ::
    "nat \<Rightarrow> (byte \<Rightarrow> u16 \<Rightarrow> bytes \<Rightarrow> 's \<Rightarrow> 's \<times> bool) \<Rightarrow> bytes \<Rightarrow> 's \<Rightarrow> memory_error + bytes \<times> 's" where
  "WalkPackets hsz visitor buf s =
     (if length buf < hsz then Inr (buf, s)
      else if length buf < 4 then Inl OutOfRange
      else let total_len = hsz + unat (be16 (buf ! 2) (buf ! 3))
           in if length buf < total_len then Inr (buf, s)
              else if total_len < 6 then Inl OutOfRange
              else let (s1, go_on) =
                     visitor (buf ! 0) (be16 (buf ! 4) (buf ! 5)) (drop 6 (take total_len buf)) s
                   in if go_on then WalkPackets hsz visitor (drop total_len buf) s1
                      else Inr (drop total_len buf, s1))"
  by pat_completeness auto
termination
  by (relation "measure (\<lambda>(hsz, visitor, buf, s). length buf)") auto

declare WalkPackets.simps [simp del]

text \<open>The lambda of \<open>DrainUntil\<close>: its state is \<open>leftover_\<close> and the payload that was found.\<close>

definition drain_visitor ::
    "u16 \<Rightarrow> byte \<Rightarrow> u16 \<Rightarrow> bytes \<Rightarrow> bytes \<times> bytes option \<Rightarrow> (bytes \<times> bytes option) \<times> bool" where
  "drain_visitor target ch type payload s =
     (if type = target then ((fst s, Some payload), False) else ((fst s @ payload, snd s), True))"

definition DrainUntil :: "('t, 'c) handshaker_env \<Rightarrow> u16 \<Rightarrow> bytes \<Rightarrow> ('t, 'c) handshaker \<Rightarrow>
    memory_error + bytes \<times> ('t, 'c) handshaker \<times> bytes option" where
  "DrainUntil env target buf h =
     (case WalkPackets (header_size env) (drain_visitor target) buf (leftover h, None) of
        Inl e \<Rightarrow> Inl e
      | Inr (rest, (left, found)) \<Rightarrow> Inr (rest, h\<lparr>leftover := left\<rparr>, found))"

section \<open>Stages\<close>

text \<open>Whether the phone's answer lets the handshake go on; a short answer does.\<close>

definition version_ok :: "bytes \<Rightarrow> bool" where
  "version_ok resp =
     (if length resp \<ge> 6 then signed_take_bit 15 (uint (be16 (resp ! 4) (resp ! 5))) = 0 else True)"

partial_function (option) version_loop ::
    "('t, 'c) handshaker_env \<Rightarrow> bytes \<Rightarrow> ('t, 'c) handshaker \<Rightarrow>
     (memory_error + bool \<times> ('t, 'c) handshaker) option" where
  "version_loop env buf h =
     (case ReadInto env buf h of
        (h1, None) \<Rightarrow> Some (Inr (False, h1))
      | (h1, Some buf1) \<Rightarrow>
          (case DrainUntil env (type_version_resp env) buf1 h1 of
             Inl e \<Rightarrow> Some (Inl e)
           | Inr (rest, h2, Some resp) \<Rightarrow>
               Some (Inr (version_ok resp, h2\<lparr>leftover := leftover h2 @ rest\<rparr>))
           | Inr (rest, h2, None) \<Rightarrow> version_loop env rest h2))"

definition DoVersionExchange :: "('t, 'c) handshaker_env \<Rightarrow> ('t, 'c) handshaker \<Rightarrow>
     (memory_error + bool \<times> ('t, 'c) handshaker) option" where
  "DoVersionExchange env h =
     (let (h1, ok) = Send env (type_version_req env) [0, 1, 0, 1] h
      in if ok then version_loop env [] h1 else Some (Inr (False, h1)))"

text \<open>The lambda of \<open>DoSslHandshake\<close>: its state is the crypto and \<open>leftover_\<close>.\<close>

definition ssl_visitor ::
    "('t, 'c) handshaker_env \<Rightarrow> byte \<Rightarrow> u16 \<Rightarrow> bytes \<Rightarrow> 'c \<times> bytes \<Rightarrow> ('c \<times> bytes) \<times> bool" where
  "ssl_visitor env ch type payload s =
     ((if ch = ch_control env \<and> type = type_ssl_handshake env
       then (put_handshake_data env payload (fst s), snd s)
       else (fst s, snd s @ payload)), True)"

text \<open>One round: \<open>None\<close> when the output could not be sent.\<close>

definition ssl_round :: "('t, 'c) handshaker_env \<Rightarrow> bytes \<Rightarrow> ('t, 'c) handshaker \<Rightarrow>
    memory_error + (bytes \<times> ('t, 'c) handshaker) option \<times> ('t, 'c) handshaker" where
  "ssl_round env buf h =
     (let (c1, out_data) = get_handshake_data env (hk_crypto h);
          (h2, sent) = (if out_data = [] then (h\<lparr>hk_crypto := c1\<rparr>, True)
                        else Send env (type_ssl_handshake env) out_data (h\<lparr>hk_crypto := c1\<rparr>))
      in if \<not> sent then Inr (None, h2)
         else if is_handshake_complete env (hk_crypto h2) then Inr (Some (buf, h2), h2)
         else case ReadInto env buf h2 of
                (h3, None) \<Rightarrow> Inr (Some (buf, h3), h3)
              | (h3, Some buf1) \<Rightarrow>
                  (case WalkPackets (header_size env) (ssl_visitor env) buf1 (hk_crypto h3, leftover h3) of
                     Inl e \<Rightarrow> Inl e
                   | Inr (rest, (c, left)) \<Rightarrow>
                       (let h4 = h3\<lparr>hk_crypto := c, leftover := left\<rparr> in Inr (Some (rest, h4), h4))))"

primrec ssl_attempts :: "nat \<Rightarrow> ('t, 'c) handshaker_env \<Rightarrow> bytes \<Rightarrow> ('t, 'c) handshaker \<Rightarrow>
    memory_error + bool \<times> ('t, 'c) handshaker" where
  "ssl_attempts 0 env buf h =
     (if is_handshake_complete env (hk_crypto h) then Inr (True, h\<lparr>leftover := leftover h @ buf\<rparr>)
      else Inr (False, h))"
| "ssl_attempts (Suc n) env buf h =
     (if is_handshake_complete env (hk_crypto h) then Inr (True, h\<lparr>leftover := leftover h @ buf\<rparr>)
      else case ssl_round env buf h of
             Inl e \<Rightarrow> Inl e
           | Inr (None, h1) \<Rightarrow> Inr (False, h1)
           | Inr (Some (buf1, h1), h2) \<Rightarrow> ssl_attempts n env buf1 h1)"

definition DoSslHandshake :: "('t, 'c) handshaker_env \<Rightarrow> ('t, 'c) handshaker \<Rightarrow>
    memory_error + bool \<times> ('t, 'c) handshaker" where
  "DoSslHandshake env h =
     ssl_attempts 20 env (leftover h) (h\<lparr>hk_crypto := set_strategy env (hk_crypto h), leftover := []\<rparr>)"

definition SendAuthComplete :: "('t, 'c) handshaker_env \<Rightarrow> ('t, 'c) handshaker \<Rightarrow>
    ('t, 'c) handshaker \<times> bool" where
  "SendAuthComplete env h =
     (case auth_response env of None \<Rightarrow> (h, False) | Some payload \<Rightarrow> Send env (type_auth_complete env) payload h)"

definition Run :: "('t, 'c) handshaker_env \<Rightarrow> ('t, 'c) handshaker \<Rightarrow>
    (memory_error + bool \<times> ('t, 'c) handshaker) option" where
  "Run env h =
     (case DoVersionExchange env h of
        None \<Rightarrow> None
      | Some (Inl e) \<Rightarrow> Some (Inl e)
      | Some (Inr (False, h1)) \<Rightarrow> Some (Inr (False, h1))
      | Some (Inr (True, h1)) \<Rightarrow>
          (case DoSslHandshake env h1 of
             Inl e \<Rightarrow> Some (Inl e)
           | Inr (False, h2) \<Rightarrow> Some (Inr (False, h2))
           | Inr (True, h2) \<Rightarrow> (let (h3, ok) = SendAuthComplete env h2 in Some (Inr (ok, h3)))))"

section \<open>The walker and the framer\<close>

definition collect :: "byte \<Rightarrow> u16 \<Rightarrow> bytes \<Rightarrow> aap_message list \<Rightarrow> aap_message list \<times> bool" where
  "collect ch type payload acc =
     (acc @ [\<lparr>msg_channel = ch, msg_type = type, msg_payload = payload\<rparr>], True)"

definition message_of :: "aap_fragment \<Rightarrow> aap_message" where
  "message_of f = \<lparr>msg_channel = frag_channel f, msg_type = be16 (frag_payload f ! 0) (frag_payload f ! 1),
     msg_payload = drop 2 (frag_payload f)\<rparr>"

definition whole_message :: "aap_fragment \<Rightarrow> bool" where
  "whole_message f \<longleftrightarrow> (frag_first f \<longrightarrow> frag_last f) \<and> 2 \<le> length (frag_payload f)"

lemma walk_step:
  assumes "4 \<le> length buf" and "total_frame_size buf \<le> length buf" and "whole_message (parsed_fragment buf)"
  shows "WalkPackets 4 collect buf acc =
    WalkPackets 4 collect (drop (total_frame_size buf) buf) (acc @ [message_of (parsed_fragment buf)])"
proof -
  let ?n = "header_payload_length buf"
  have skip: "header_extra_skip buf = 0"
    using assms(3) by (auto simp: whole_message_def parsed_fragment_def header_extra_skip_def Let_def)
  then have total: "total_frame_size buf = 4 + ?n"
    by (simp add: total_frame_size_def kFrameHeaderSize_def)
  have payload: "frag_payload (parsed_fragment buf) = take ?n (drop 4 buf)"
    by (simp add: parsed_fragment_def skip kFrameHeaderSize_def)
  with assms(3) have n: "2 \<le> ?n" by (simp add: whole_message_def)
  have "drop 2 (take ?n (drop 4 buf)) = drop 6 (take (4 + ?n) buf)"
    by (simp add: drop_take)
  then have "message_of (parsed_fragment buf) =
      \<lparr>msg_channel = buf ! 0, msg_type = be16 (buf ! 4) (buf ! 5), msg_payload = drop 6 (take (4 + ?n) buf)\<rparr>"
    using n assms(2) total by (simp add: message_of_def payload) (simp add: parsed_fragment_def)
  then show ?thesis
    using assms(1,2) n total
    by (subst WalkPackets.simps) (simp add: header_payload_length_def collect_def Let_def)
qed

lemma walk_stops:
  assumes "try_parse_fragment fr = None" and "header_extra_skip (recv_buffer fr) = 0"
  shows "WalkPackets 4 visitor (recv_buffer fr) acc = Inr (recv_buffer fr, acc)"
  using assms
  by (subst WalkPackets.simps)
     (auto simp: try_parse_fragment_None total_frame_size_def kFrameHeaderSize_def header_payload_length_def)

text \<open>
  The old walker and the new framer read the same messages. On any buffer that holds
  whole messages, encrypted or not, and perhaps the beginning of another one that is not
  split, the walker visits exactly the messages of the fragments that the framer parses, in
  order, and leaves the same bytes.
\<close>

theorem walker_agrees_with_framer:
  assumes "\<forall>f\<in>set (snd (parse_loop fr)). whole_message f"
    and "header_extra_skip (recv_buffer (fst (parse_loop fr))) = 0"
  shows "WalkPackets 4 collect (recv_buffer fr) acc =
    Inr (recv_buffer (fst (parse_loop fr)), acc @ map message_of (snd (parse_loop fr)))"
  using assms
proof (induction fr arbitrary: acc rule: parse_loop.induct)
  case (1 fr)
  show ?case
  proof (cases "try_parse_fragment fr")
    case None
    then have "parse_loop fr = (fr, [])" by (simp add: parse_loop.simps)
    then show ?thesis
      using None 1(3) walk_stops [of fr collect acc] by simp
  next
    case (Some p)
    then obtain fr1 f where p: "try_parse_fragment fr = Some (fr1, f)" by (cases p) auto
    then have loop: "parse_loop fr = (fst (parse_loop fr1), f # snd (parse_loop fr1))"
      by (subst parse_loop.simps) (simp add: split_beta Let_def)
    have f: "whole_message f" "\<forall>g\<in>set (snd (parse_loop fr1)). whole_message g"
      using 1(2) by (simp_all add: loop)
    have IH: "WalkPackets 4 collect (recv_buffer fr1) (acc @ [message_of f]) =
        Inr (recv_buffer (fst (parse_loop fr1)), (acc @ [message_of f]) @ map message_of (snd (parse_loop fr1)))"
      using 1(1) [OF p refl f(2)] 1(3) by (simp add: loop)
    have "WalkPackets 4 collect (recv_buffer fr) acc = WalkPackets 4 collect (recv_buffer fr1) (acc @ [message_of f])"
      using p f(1) walk_step [of "recv_buffer fr" acc] by (auto simp: try_parse_fragment_Some)
    then show ?thesis using IH by (simp add: loop)
  qed
qed

theorem walker_agrees_with_framer_witness:
  "WalkPackets 4 collect [0, 3, 0, 3, 0, 2, 9, 5, 11, 0, 2, 128, 0, 1, 3, 0] [] =
     Inr ([1, 3, 0], [\<lparr>msg_channel = 0, msg_type = 2, msg_payload = [9]\<rparr>,
                      \<lparr>msg_channel = 5, msg_type = 0x8000, msg_payload = []\<rparr>])"
proof -
  let ?fr = "\<lparr>recv_buffer = [0, 3, 0, 3, 0, 2, 9, 5, 11, 0, 2, 128, 0, 1, 3, 0]\<rparr>"
  have "parse_loop ?fr = (\<lparr>recv_buffer = [1, 3, 0]\<rparr>,
      [\<lparr>frag_channel = 0, frag_first = True, frag_last = True, frag_encrypted = False, frag_payload = [0, 2, 9]\<rparr>,
       \<lparr>frag_channel = 5, frag_first = True, frag_last = True, frag_encrypted = True, frag_payload = [128, 0]\<rparr>])"
    by code_simp
  then show ?thesis
    using walker_agrees_with_framer [of ?fr "[]"]
    by (simp add: whole_message_def message_of_def header_extra_skip_def be16_def)
qed

text \<open>Both handshakes accept the same answers of the phone.\<close>

lemma version_ok_agrees: "version_ok resp = version_accepted resp"
proof -
  have "signed_take_bit 15 (uint w) = sint w" for w :: u16
    by (simp add: sint_uint)
  then show ?thesis by (simp add: version_ok_def version_accepted_def version_status_def signed_eq_0_iff)
qed

text \<open>A packet without room for a message type takes the walker out of the vector.\<close>

lemma short_packet_out_of_range:
  assumes "unat (be16 hi lo) < 2" and "unat (be16 hi lo) \<le> length rest"
  shows "WalkPackets 4 visitor ([ch, flags, hi, lo] @ rest) s = Inl OutOfRange"
  using assms by (subst WalkPackets.simps) simp

text \<open>Of a packet that is not the awaited one only the payload is kept.\<close>

lemma leftover_has_no_header:
  "type \<noteq> target \<Longrightarrow> drain_visitor target ch type payload (left, found) = ((left @ payload, found), True)"
  by (simp add: drain_visitor_def)

section \<open>Termination\<close>

lemma version_loop_returns:
  assumes "\<And>t. snd (transport_receive env t) \<noteq> [] \<Longrightarrow>
    patience (fst (transport_receive env t)) < (patience t :: nat)"
  shows "\<exists>r. version_loop env buf h = Some r"
proof (induction "patience (hk_transport h)" arbitrary: buf h rule: less_induct)
  case less
  obtain h1 res where r: "ReadInto env buf h = (h1, res)" by (cases "ReadInto env buf h")
  show ?case
  proof (cases res)
    case None
    then show ?thesis by (subst version_loop.simps) (simp add: r)
  next
    case (Some buf1)
    then have "patience (hk_transport h1) < patience (hk_transport h)"
      using r assms [of "hk_transport h"] by (auto simp: ReadInto_def split_beta Let_def split: if_splits)
    moreover have "hk_transport h2 = hk_transport h1"
      if "DrainUntil env target buf1 h1 = Inr (rest, h2, found)" for target rest h2 found
      using that by (auto simp: DrainUntil_def split: sum.splits prod.splits)
    ultimately have "\<exists>r. version_loop env rest h2 = Some r"
      if "DrainUntil env (type_version_resp env) buf1 h1 = Inr (rest, h2, found)" for rest h2 found
      using that less by metis
    then show ?thesis
      by (subst version_loop.simps) (auto simp: r Some split: sum.split prod.split option.split)
  qed
qed

text \<open>
  The blocking handshake ends. If the transport cannot deliver data for ever without an
  empty read in between, the whole handshake returns; its second stage returns for any
  transport, after at most 20 reads.
\<close>

theorem blocking_handshake_returns:
  assumes "\<And>t. snd (transport_receive env t) \<noteq> [] \<Longrightarrow>
    patience (fst (transport_receive env t)) < (patience t :: nat)"
  shows "Run env h \<noteq> None"
proof -
  have "DoVersionExchange env h \<noteq> None"
    using version_loop_returns [of env patience, OF assms]
    by (auto simp: DoVersionExchange_def split_beta Let_def)
  then show ?thesis
    by (auto simp: Run_def Let_def split: option.split sum.split bool.split prod.split)
qed

text \<open>A phone that answers the version request and then hangs up; the list is what it still sends.\<close>

definition demo_handshaker_env :: "(bytes list, nat) handshaker_env" where
  "demo_handshaker_env =
     \<lparr>header_size = 4, ch_control = 0, type_version_req = 1, type_version_resp = 2, type_ssl_handshake = 3,
      type_auth_complete = 4, pack = (\<lambda>ch t p f. [ch, f, 0, byte_at 0 (2 + length p)] @ u16_bytes t @ p),
      transport_send = (\<lambda>p t. (t, True)),
      transport_receive = (\<lambda>t. case t of [] \<Rightarrow> ([], []) | x # xs \<Rightarrow> (xs, x)),
      set_strategy = (\<lambda>c. 0), is_handshake_complete = (\<lambda>c. 1 \<le> c),
      get_handshake_data = (\<lambda>c. (c, [22])), put_handshake_data = (\<lambda>p c. c + 1), auth_response = Some []\<rparr>"

theorem blocking_handshake_returns_witness:
  "Run demo_handshaker_env \<lparr>hk_transport = [[0, 3, 0, 8, 0, 2, 0, 1, 0, 1, 0, 0], [0, 3, 0, 3, 0, 3, 22]],
     hk_crypto = 0, leftover = []\<rparr> \<noteq> None"
proof (rule blocking_handshake_returns [where patience = length])
  fix t assume "snd (transport_receive demo_handshaker_env t) \<noteq> []"
  then show "length (fst (transport_receive demo_handshaker_env t)) < length t"
    by (cases t) (simp_all add: demo_handshaker_env_def)
qed

end
