(* ===== verification/Spec2Isabelle.thy ===== *)
theory Spec2Isabelle
  imports Engine_Types Daemon_Sinks Openssl Tcp_Stack Usb_Stack Logging Aap_Handshaker
begin

text \<open>
  \<^bold>\<open>The Android Auto head unit.\<close>

  The program is the C++ daemon under \<open>src/core\<close> (the protocol) and \<open>src/impl\<close> (Android and
  OpenSSL). A phone is connected by USB or TCP; the daemon speaks the Android Auto protocol
  with it and tells an app, over an AIDL interface, what the phone shows and plays.

  \<^bold>\<open>Parts and how they interact.\<close> From the phone upwards: a transport (\<open>AndroidUsbTransport\<close>,
  \<open>AndroidTcpTransport\<close>) moves bytes on two threads of its own; \<open>BufferedTransport\<close> wraps it and
  reads ahead; \<open>Session\<close> owns one connection. It feeds what it reads to the \<open>Framer\<close>, hands the
  fragments to the \<open>InboundMessageAssembler\<close>, which decrypts them with the crypto strategy and
  puts messages together, and dispatches the messages: while the handshake lasts to the
  \<open>HandshakeCoordinator\<close>, afterwards to the service of the channel. What services and handshake
  send goes through the \<open>OutboundMessageEncoder\<close> into a bounded write queue. \<open>Engine\<close> owns the
  sessions, runs requests on one io thread and reports to a callback; \<open>AidlEngineController\<close> is
  that callback and forwards to the app. \<open>main.cpp\<close> wires the factories.

  \<^bold>\<open>Theories.\<close>
  \<^item> \<open>AA_Prelude\<close>: machine words, big-endian helpers, runs of a step function, and the
    interfaces that several components share (below).
  \<^item> \<open>Protocol\<close>: \<open>ProtocolConstants.hpp/.cpp\<close>, the error codes, messages and fragments.
  \<^item> \<open>Framer\<close>: \<open>Framer.cpp\<close>; \<open>framer_feed\<close>, \<open>parse_loop\<close>, \<open>encode\<close>. The state is the receive
    buffer.
  \<^item> \<open>Crypto\<close>: the port \<open>ICryptoStrategy\<close> as a record of operations on an abstract state, its
    contract as the locale \<open>crypto_channel\<close>, and the mock of the tests as a model of it.
    \<open>Openssl\<close>: \<open>OpenSslCryptoStrategy.cpp\<close> over a record of the OpenSSL calls it makes.
  \<^item> \<open>Outbound\<close>, \<open>Inbound\<close>, \<open>Handshake\<close>: the three collaborators of a session.
  \<^item> \<open>Protobuf\<close>: the messages that are exchanged, as one datatype; \<open>pb_codec\<close> stands for the
    generated parsers and serializers.
  \<^item> \<open>Service_Base\<close>, \<open>Media_Sink\<close>, and one theory for each service (\<open>Control_Service\<close>,
    \<open>Audio_Service\<close>, \<open>Video_Service\<close>, \<open>Input_Sensor\<close>, \<open>Bluetooth_Service\<close>,
    \<open>Status_Services\<close>, \<open>Browser_Service\<close>): a handler takes the service's record and a payload and
    returns the new record with the list of calls it makes, in call order. \<open>Services\<close> joins them
    in the datatype \<open>service\<close>, the model of \<open>IService\<close>.
  \<^item> \<open>Session\<close>: \<open>Session.cpp\<close>, one definition per method; \<open>session_step\<close> handles one event of
    the strand. The record \<open>session\<close> has the members of the class and, as a log, the calls made
    to the transport, the timers and the observer. \<open>Session_Invariant\<close>, \<open>Session_Properties\<close>,
    \<open>Session_Handshake\<close> and \<open>Sending\<close> hold its theorems.
  \<^item> \<open>Engine\<close>: \<open>Engine.cpp\<close>; the task queue of the io context is a list, \<open>engine_step\<close> makes a
    request, runs the task at the head or lets an event reach a session. \<open>Engine_Properties\<close>,
    \<open>Engine_Sinks\<close>, \<open>Engine_Types\<close> hold its theorems.
  \<^item> \<open>Descriptor\<close>, \<open>Android\<close>, \<open>Aidl\<close>: the descriptor strings and the factories of \<open>main.cpp\<close>,
    the callback sinks, \<open>AidlEngineController.cpp\<close>. \<open>Daemon\<close>: the rest of \<open>main.cpp\<close>, from the
    registration with the service manager over the event loop and the signals to the exit status.
  \<^item> \<open>Buffered\<close>: \<open>BufferedTransport.cpp\<close>. \<open>Threads\<close>, \<open>Tcp_Transport\<close>, \<open>Usb_Transport\<close>: the two
    native transports as interleavings of their read thread, their write thread, the thread in
    \<open>close\<close> and the callers.
  \<^item> \<open>Connection\<close>: a session on top of its buffered transport; the calls of the one are the events
    of the other.
  \<^item> \<open>Stack\<close>: all of a connection, with a native transport below the buffered one as a parameter
    (the record \<open>underlying\<close>): the calls of \<open>BufferedTransport\<close> are events of the native transport, what
    that posts are events of the connection, and its threads interleave with everything.
    \<open>Tcp_Stack\<close> and \<open>Usb_Stack\<close> put in the two transports; \<open>Receiving\<close> follows the bytes from the
    native transport to the framer of the session.
  \<^item> \<open>Names\<close>: \<open>ProtocolUtil.hpp\<close>. \<open>Logging\<close>: \<open>Logger.cpp\<close>, the log function of \<open>main.cpp\<close>, and the tags
    by which the lines of sessions are told apart. \<open>Aap_Handshaker\<close>: \<open>src/aa/core/src/session/AapHandshaker.cpp\<close>,
    an earlier, blocking handshake that no build file uses any more.

  \<^bold>\<open>Interfaces.\<close> \<open>stream_decoder\<close> (chunks do not matter; the framer and the assembler),
  \<open>bounded_fifo\<close> with \<open>drop_newest_fifo\<close> (the write queue) and \<open>drop_oldest_fifo\<close> (the read-ahead
  queue), \<open>invariant_machine\<close> (an invariant of all enabled steps holds after every run; session,
  buffered transport, connection, engine, daemon), \<open>crypto_channel\<close> (what is encrypted on one side decrypts
  on the other; the mock, and the OpenSSL strategy under the laws of \<open>SSL_write\<close> and \<open>SSL_read\<close>),
  \<open>channel_service\<close> (a service sends on its own channel only; every service, and their sum),
  \<open>acked_media\<close> (each media message is acknowledged once, with the session id of the start),
  \<open>lifecycle\<close> (what a sink sees follows an automaton; audio and video), \<open>service_invariant\<close> (what
  all services of a session keep; which sinks are attached, and the types of the registry),
  \<open>session_property\<close> (what a session keeps holds of all sessions of the engine),
  \<open>handler_accounting\<close> (a handler that was passed in is held, completed or lost; both native
  transports), \<open>underlying_transport\<close> and \<open>heard_transport\<close> (what \<open>BufferedTransport\<close> and the session
  rely on: calls are answered at most once, and no read is lost silently; both native transports).

  \<^bold>\<open>What is shown.\<close>
  \<^item> The wire: a message that is framed, split, encrypted and concatenated, then cut in any
    chunks, comes out as the same message; what is written is a sequence of whole frames; channels do not mix
    in the assembler; after a decryption failure a truncated message is delivered (a defect).
  \<^item> The session: it starts, exchanges versions, completes the TLS exchange and runs; nothing
    leaves in plaintext afterwards and no service hears anything before; the end is final; the
    write queue stays below its bound, is being written whenever it is not empty, is sent in the
    order in which it was filled and one buffer at a time; what is queued is whole outbound frames,
    of which only a full queue cuts off the end (a defect: the rest is sent, and nobody is told); every waiting state has its timer;
    the observer is told each state.
  \<^item> The services: who closes the session and when, what the service discovery offers, the
    acknowledgements, what audio and video sinks see.
  \<^item> The engine and the daemon: ids are fresh, what is in the session map is alive and keeps the
    session invariant, only the active session is heard, sessions do not interfere, the registry of each
    is well typed, the app has been told the state of
    every session, a request of the app ends in a session with the right transport; no request makes
    the engine throw, so that only a signal ends the program, and a signal leaves the sessions
    as they are (a defect).
  \<^item> A session with its transport: it never stops listening while the transport is open, and it
    parses the stream of the phone, however the stream was cut and whatever happened in between.
  \<^item> A session with both its transports: each part is used as its contract asks, the socket is
    given the frames of the session in order, so that the phone parses the fragments of its outbound
    frames, the session parses what \<open>recv\<close> has returned, and the session is never left waiting for a read that will not complete, whatever the threads, the socket and the app do.
  \<^item> The transports: handlers are completed at most once, and once if the transport is closed in
    order; bytes leave in order; and the schedules on which \<open>close\<close> hangs, the peer's close is
    fatal, or a handler is lost.
  \<^item> Termination: the loops of the framer and of \<open>WalkPackets\<close> are total functions; the loops
    around OpenSSL and the blocking handshake are partial functions, with theorems that they
    return if the library reports at some point that it has no more data, and the transport at
    some point fails or times out.

  \<^bold>\<open>Bounds.\<close> 16384 bytes of payload in a frame (so that the 16 bit length field cannot overflow),
  256 entries of the write queue, 32 chunks of read-ahead, 20 rounds of the blocking TLS
  handshake, five seconds between heartbeats. There is no fuel. \<open>uint32_t\<close> session ids wrap
  around: what is shown of fresh ids holds until \<open>2\<^sup>3\<^sup>2 - 1\<close> sessions have been requested, and the
  steps that the theorems allow say so (\<open>engine_enabled\<close>).

  \<^bold>\<open>What is assumed.\<close> The events of a session are handled one at a time, as its strand and the
  single io thread of \<open>main\<close> make sure. A section under a mutex is atomic, and so is one system
  call. OpenSSL, protobuf, asio and the operating system are parameters: records of operations
  (\<open>ssl_library\<close>, \<open>pb_codec\<close>, \<open>handshaker_env\<close>) or results of calls that
  arrive as events. What a theorem needs of them is a named hypothesis
  (the laws of \<open>crypto_channel\<close>, \<open>memory_bio\<close> and \<open>finite_reads\<close> of \<open>Openssl\<close>, a parser that reads back
  what was serialized), and its witness has an instance.

  \<^bold>\<open>Not modelled.\<close> The two PEM literals of \<open>AapKeys.cpp\<close> (a parameter of
  \<open>new_openssl\<close>), the protobuf classes (generated at build time), \<open>src/third_party\<close>, the Java app,
  the interfaces \<open>IInputSource\<close> and \<open>ISensorSource\<close> that nothing implements, the enumerations of
  \<open>ProtocolConstants.hpp\<close> that nothing uses, and the conversion of strings to UTF-16 at
  the AIDL boundary. Exceptions other than those of \<open>std::stoi\<close> (out of memory, a failed
  \<open>std::thread\<close>) are left out, and so is the memory model: data races are those of interleavings.
\<close>

end
